(* ===== verification/Prelude.thy ===== *)
theory Prelude
  imports Complex_Main "HOL-Library.Word" "HOL-Library.AList" "HOL-Library.Multiset"
    "HOL-Library.Sublist" "HOL-Library.Product_Lexorder" "HOL-Library.Option_ord"
    "HOL-Library.Char_ord" "HOL-Library.List_Lexorder"
begin

text \<open>
  Shared vocabulary of the development: names for the machine types of the Rust sources,
  the \<open>?\<close> operator on results, the container operations of the standard library that the
  crates use (\<open>Vec::swap_remove\<close>, \<open>Vec::retain\<close>, \<open>Iterator::max_by\<close>, \<open>HashMap\<close> as an
  association list in iteration order), saturating arithmetic, and decimal and hexadecimal
  rendering of integers, each with the lemmas the component theories use.
\<close>

section \<open>Machine types\<close>

text \<open>
  Integers keep their width. Instants (\<open>chrono::DateTime<Utc>\<close>) are integers counting
  nanoseconds since the epoch, so that \<open>timestamp_subsec_nanos\<close> is a remainder and adding a
  duration in milliseconds is exact; durations are nanoseconds too. A \<open>Uuid\<close> is its 128-bit
  value, ordered numerically (the order of its big-endian bytes).
\<close>

type_synonym u8 = "8 word"
type_synonym u32 = "32 word"
type_synonym u64 = "64 word"
type_synonym uuid = "128 word"
type_synonym DateTime = int
type_synonym Nanos = int

type_synonym JobId = uuid
type_synonym TaskId = uuid
type_synonym AgentId = uuid
type_synonym NodeId = uuid
type_synonym LeaseId = uuid
type_synonym MemoryId = uuid
type_synonym CorrelationId = uuid

definition ms :: "int \<Rightarrow> Nanos" where
  "ms n = n * 1000000"

definition secs :: "int \<Rightarrow> Nanos" where
  "secs n = n * 1000000000"

text \<open>\<open>x as i64\<close> on a \<open>u64\<close> reinterprets the bits as two's complement.\<close>

definition as_i64 :: "u64 \<Rightarrow> int" where
  "as_i64 w = sint w"

lemma as_i64_small: "unat w < 2 ^ 63 \<Longrightarrow> as_i64 w = int (unat w)"
proof -
  assume "unat w < 2 ^ 63"
  then have "uint w < 2 ^ 63"
    by (metis of_nat_less_iff of_nat_numeral of_nat_power uint_nat)
  then have "signed_take_bit 63 (uint w) = uint w"
    by (intro signed_take_bit_int_eq_self) (auto intro: order_trans [OF _ uint_ge_0])
  then have "sint w = uint w"
    by (simp add: sint_uint)
  then show ?thesis
    by (simp add: as_i64_def)
qed

section \<open>Results\<close>

text \<open>The \<open>?\<close> operator: stop at the first error.\<close>

definition bindR :: "'e + 'a \<Rightarrow> ('a \<Rightarrow> 'e + 'b) \<Rightarrow> 'e + 'b" where
  "bindR r f = (case r of Inl e \<Rightarrow> Inl e | Inr x \<Rightarrow> f x)"

lemma bindR_simps [simp]: "bindR (Inl e) f = Inl e" "bindR (Inr x) f = f x"
  by (simp_all add: bindR_def)

lemma bindR_eq_Inr_iff: "bindR r f = Inr y \<longleftrightarrow> (\<exists>x. r = Inr x \<and> f x = Inr y)"
  by (cases r) auto

lemma bindR_eq_Inl_iff: "bindR r f = Inl e \<longleftrightarrow> r = Inl e \<or> (\<exists>x. r = Inr x \<and> f x = Inl e)"
  by (cases r) auto

section \<open>Vectors and iterators\<close>

text \<open>\<open>Vec::swap_remove(i)\<close> drops entry \<open>i\<close> and moves the last entry into its place.\<close>

definition swap_remove :: "nat \<Rightarrow> 'a list \<Rightarrow> 'a list" where
  "swap_remove i xs = (if i < length xs then butlast (xs[i := last xs]) else xs)"

lemma mset_butlast: "xs \<noteq> [] \<Longrightarrow> mset (butlast xs) = mset xs - {#last xs#}"
  by (metis add_diff_cancel_right' append_butlast_last_id mset.simps(1,2) mset_append)

lemma mset_swap_remove:
  assumes "i < length xs"
  shows "mset (swap_remove i xs) = mset xs - {#xs ! i#}"
proof (cases "i = length xs - 1")
  case True
  with assms have "xs \<noteq> []" and "xs[i := last xs] = xs" and "xs ! i = last xs"
    by (auto simp: last_conv_nth length_greater_0_conv [symmetric] simp del: length_greater_0_conv)
  then show ?thesis
    using assms by (simp add: swap_remove_def mset_butlast)
next
  case False
  with assms have ne: "xs \<noteq> []" and lt: "i < length xs - 1" by auto
  have "last (xs[i := last xs]) = last xs"
    using ne by (simp add: last_list_update)
  moreover have "mset (xs[i := last xs]) = add_mset (last xs) (mset xs - {#xs ! i#})"
    using assms by (simp add: mset_update)
  ultimately show ?thesis
    using assms ne by (simp add: swap_remove_def mset_butlast)
qed

lemma add_mset_swap_remove:
  "i < length xs \<Longrightarrow> add_mset (xs ! i) (mset (swap_remove i xs)) = mset xs"
  by (simp add: mset_swap_remove)

lemma length_swap_remove [simp]:
  "i < length xs \<Longrightarrow> length (swap_remove i xs) = length xs - 1"
  by (simp add: swap_remove_def)

lemma set_swap_remove_subset: "set (swap_remove i xs) \<subseteq> set xs"
  by (cases "i < length xs")
    (metis in_diffD mset_swap_remove set_mset_mset subsetI, simp add: swap_remove_def)

text \<open>
  \<open>Iterator::max_by\<close> folds from the left and keeps the accumulator only when the comparison
  says \<open>Greater\<close>, so among equal maxima the last one wins; \<open>min_by\<close> keeps the first.
  \<open>gt a b\<close> stands for \<open>compare(a, b) == Greater\<close>.
\<close>

fun max_by :: "('a \<Rightarrow> 'a \<Rightarrow> bool) \<Rightarrow> 'a list \<Rightarrow> 'a option" where
  "max_by gt [] = None"
| "max_by gt (x # xs) = Some (foldl (\<lambda>a b. if gt a b then a else b) x xs)"

fun min_by :: "('a \<Rightarrow> 'a \<Rightarrow> bool) \<Rightarrow> 'a list \<Rightarrow> 'a option" where
  "min_by gt [] = None"
| "min_by gt (x # xs) = Some (foldl (\<lambda>a b. if gt a b then b else a) x xs)"

lemma max_by_None_iff [simp]: "max_by gt xs = None \<longleftrightarrow> xs = []"
  by (cases xs) auto

lemma min_by_None_iff [simp]: "min_by gt xs = None \<longleftrightarrow> xs = []"
  by (cases xs) auto

lemma foldl_select_in:
  "foldl (\<lambda>a b. if p a b then a else b) x xs \<in> insert x (set xs)"
  "foldl (\<lambda>a b. if p a b then b else a) x xs \<in> insert x (set xs)"
proof (induction xs arbitrary: x)
  case (Cons y ys)
  { case 1 show ?case using Cons.IH(1) [of "if p x y then x else y"] by (auto split: if_splits) }
  { case 2 show ?case using Cons.IH(2) [of "if p x y then y else x"] by (auto split: if_splits) }
qed auto

lemma max_by_in: "max_by gt xs = Some y \<Longrightarrow> y \<in> set xs"
  using foldl_select_in(1) [of gt "hd xs" "tl xs"] by (cases xs) auto

lemma min_by_in: "min_by gt xs = Some y \<Longrightarrow> y \<in> set xs"
  using foldl_select_in(2) [of gt "hd xs" "tl xs"] by (cases xs) auto

text \<open>When the comparison orders by a key, the result is a maximum (a minimum) of the key.\<close>

lemma foldl_max_key:
  fixes k :: "'a \<Rightarrow> 'b::linorder"
  shows "y \<in> insert x (set xs) \<Longrightarrow> k y \<le> k (foldl (\<lambda>a b. if k b < k a then a else b) x xs)"
proof (induction xs arbitrary: x y)
  case (Cons z zs)
  let ?m = "if k z < k x then x else z"
  let ?r = "k (foldl (\<lambda>a b. if k b < k a then a else b) ?m zs)"
  have "k ?m \<le> ?r" by (rule Cons.IH) simp
  moreover have "k x \<le> k ?m" "k z \<le> k ?m" by auto
  moreover have "k w \<le> ?r" if "w \<in> set zs" for w
    using that by (intro Cons.IH) simp
  ultimately have "k y \<le> ?r"
    using Cons.prems by (metis (no_types, lifting) insert_iff list.simps(15) order_trans)
  then show ?case by simp
qed simp

lemma foldl_min_key:
  fixes k :: "'a \<Rightarrow> 'b::linorder"
  shows "y \<in> insert x (set xs) \<Longrightarrow> k (foldl (\<lambda>a b. if k b < k a then b else a) x xs) \<le> k y"
proof (induction xs arbitrary: x y)
  case (Cons z zs)
  let ?m = "if k z < k x then z else x"
  let ?r = "k (foldl (\<lambda>a b. if k b < k a then b else a) ?m zs)"
  have "?r \<le> k ?m" by (rule Cons.IH) simp
  moreover have "k ?m \<le> k x" "k ?m \<le> k z" by auto
  moreover have "?r \<le> k w" if "w \<in> set zs" for w
    using that by (intro Cons.IH) simp
  ultimately have "?r \<le> k y"
    using Cons.prems by (metis (no_types, lifting) insert_iff list.simps(15) order_trans)
  then show ?case by simp
qed simp

lemma max_by_key_max:
  fixes k :: "'a \<Rightarrow> 'b::linorder"
  shows "max_by (\<lambda>a b. k b < k a) xs = Some m \<Longrightarrow> y \<in> set xs \<Longrightarrow> k y \<le> k m"
  using foldl_max_key [of y "hd xs" "tl xs" k] by (cases xs) auto

lemma min_by_key_min:
  fixes k :: "'a \<Rightarrow> 'b::linorder"
  shows "min_by (\<lambda>a b. k b < k a) xs = Some m \<Longrightarrow> y \<in> set xs \<Longrightarrow> k m \<le> k y"
  using foldl_min_key [of y "hd xs" "tl xs" k] by (cases xs) auto

text \<open>\<open>Iterator::position\<close>: the index of the first entry that satisfies a predicate.\<close>

fun position :: "('a \<Rightarrow> bool) \<Rightarrow> 'a list \<Rightarrow> nat option" where
  "position p [] = None"
| "position p (x # xs) = (if p x then Some 0 else map_option Suc (position p xs))"

lemma position_None_iff: "position p xs = None \<longleftrightarrow> (\<forall>x \<in> set xs. \<not> p x)"
  by (induction xs) auto

lemma position_SomeD:
  "position p xs = Some i \<Longrightarrow> i < length xs \<and> p (xs ! i) \<and> (\<forall>j < i. \<not> p (xs ! j))"
proof (induction xs arbitrary: i)
  case (Cons x xs)
  then show ?case
    by (cases "p x") (auto simp: nth_Cons less_Suc_eq_0_disj split: nat.splits)
qed simp

text \<open>\<open>Vec::remove(i)\<close> shifts the tail left.\<close>

definition remove_at :: "nat \<Rightarrow> 'a list \<Rightarrow> 'a list" where
  "remove_at i xs = take i xs @ drop (Suc i) xs"

lemma mset_remove_at:
  "i < length xs \<Longrightarrow> add_mset (xs ! i) (mset (remove_at i xs)) = mset xs"
  by (metis Cons_nth_drop_Suc append_take_drop_id mset.simps(2) mset_append
      remove_at_def union_mset_add_mset_right)

lemma length_remove_at [simp]: "i < length xs \<Longrightarrow> length (remove_at i xs) = length xs - 1"
  by (simp add: remove_at_def)

section \<open>Hash maps\<close>

text \<open>
  A \<open>HashMap\<close> (or \<open>DashMap\<close>) is an association list with distinct keys; the order of the list is
  the (unspecified) order in which the map is iterated. \<open>AList.update\<close> is \<open>insert\<close>,
  \<open>AList.delete\<close> is \<open>remove\<close>, \<open>map_of\<close> is \<open>get\<close>.
\<close>

type_synonym ('k, 'v) hashmap = "('k \<times> 'v) list"

abbreviation keys_distinct :: "('k, 'v) hashmap \<Rightarrow> bool" where
  "keys_distinct m \<equiv> distinct (map fst m)"

abbreviation hm_values :: "('k, 'v) hashmap \<Rightarrow> 'v list" where
  "hm_values m \<equiv> map snd m"

lemma hm_update_lookup [simp]: "map_of (AList.update k v m) = (map_of m)(k \<mapsto> v)"
  by (rule update_conv')

lemma hm_delete_lookup [simp]: "map_of (AList.delete k m) = (map_of m)(k := None)"
  by (rule delete_conv')

lemma hm_update_distinct: "keys_distinct m \<Longrightarrow> keys_distinct (AList.update k v m)"
  by (rule distinct_update)

lemma hm_delete_distinct: "keys_distinct m \<Longrightarrow> keys_distinct (AList.delete k m)"
  by (rule distinct_delete)

lemma hm_filter_distinct: "keys_distinct m \<Longrightarrow> keys_distinct (filter p m)"
  by (rule distinct_map_filter)

lemma hm_value_iff: "keys_distinct m \<Longrightarrow> v \<in> set (hm_values m) \<longleftrightarrow> (\<exists>k. map_of m k = Some v)"
  by (force simp: map_of_eq_Some_iff)

lemma hm_update_fresh: "map_of m k = None \<Longrightarrow> AList.update k v m = m @ [(k, v)]"
  by (induction m) (auto split: if_splits)

lemma mset_hm_delete:
  assumes "keys_distinct m" "map_of m k = Some v"
  shows "mset m = add_mset (k, v) (mset (AList.delete k m))"
  using assms
proof (induction m)
  case (Cons a m)
  obtain k' v' where a: "a = (k', v')" by (cases a)
  show ?case
  proof (cases "k' = k")
    case True
    with Cons.prems a have "k \<notin> fst ` set m" "v' = v" by auto
    then have "AList.delete k m = m" by (simp add: delete_id)
    with a True \<open>v' = v\<close> show ?thesis by simp
  next
    case False
    with Cons a show ?thesis by auto
  qed
qed simp

lemma hm_filter_lookup:
  "keys_distinct m \<Longrightarrow>
   map_of (filter (\<lambda>(k, v). p v) m) k =
     (case map_of m k of None \<Rightarrow> None | Some v \<Rightarrow> if p v then Some v else None)"
  by (induction m) (auto split: option.splits if_splits simp: map_of_eq_None_iff)

section \<open>Saturating arithmetic\<close>

definition saturating_sub :: "'a::len word \<Rightarrow> 'a word \<Rightarrow> 'a word" where
  "saturating_sub a b = (if a < b then 0 else a - b)"

definition saturating_mul :: "'a::len word \<Rightarrow> 'a word \<Rightarrow> 'a word" where
  "saturating_mul a b = (if unat a * unat b < 2 ^ LENGTH('a) then a * b else - 1)"

lemma unat_saturating_sub: "unat (saturating_sub a b) = unat a - unat b"
  by (auto simp: saturating_sub_def word_less_nat_alt unat_sub_if' not_less)

lemma unat_saturating_mul:
  fixes a :: "'a::len word"
  shows "unat (saturating_mul a b) = min (unat a * unat b) (2 ^ LENGTH('a) - 1)"
proof (cases "unat a * unat b < 2 ^ LENGTH('a)")
  case True
  moreover from this have "unat a * unat b \<le> 2 ^ LENGTH('a) - 1" by linarith
  ultimately show ?thesis
    by (simp add: saturating_mul_def unat_mult_lem min_def)
next
  case False
  then show ?thesis
    by (simp add: saturating_mul_def unsigned_minus_1_eq_mask mask_eq_exp_minus_1)
qed

section \<open>Rendering integers\<close>

definition digit :: "nat \<Rightarrow> char" where
  "digit d = ''0123456789abcdef'' ! d"

fun dec :: "nat \<Rightarrow> string" where
  "dec n = (if n < 10 then [digit n] else dec (n div 10) @ [digit (n mod 10)])"

declare dec.simps [simp del]

text \<open>\<open>{:016x}\<close>: sixteen hexadecimal digits, most significant first.\<close>

fun hex_digits :: "nat \<Rightarrow> nat \<Rightarrow> string" where
  "hex_digits 0 n = []"
| "hex_digits (Suc k) n = hex_digits k (n div 16) @ [digit (n mod 16)]"

definition hex16 :: "u64 \<Rightarrow> string" where
  "hex16 w = hex_digits 16 (unat w)"

lemma digit_inj: "a < 16 \<Longrightarrow> b < 16 \<Longrightarrow> digit a = digit b \<Longrightarrow> a = b"
  unfolding digit_def by (subst (asm) nth_eq_iff_index_eq) auto

definition hex_alphabet :: "char set" where
  "hex_alphabet = set ''0123456789abcdef''"

lemma digit_in: "d < 16 \<Longrightarrow> digit d \<in> hex_alphabet"
  unfolding digit_def hex_alphabet_def by (rule nth_mem) simp

lemma dec_nonempty [simp]: "dec n \<noteq> []"
  by (subst dec.simps) simp

lemma dec_chars: "set (dec n) \<subseteq> hex_alphabet"
proof (induction n rule: dec.induct)
  case (1 n)
  show ?case
    by (subst dec.simps) (use 1 digit_in [of n] digit_in [of "n mod 10"] in auto)
qed

lemma dec_inject: "dec m = dec n \<longleftrightarrow> m = n"
proof
  show "dec m = dec n \<Longrightarrow> m = n"
  proof (induction m arbitrary: n rule: dec.induct)
    case (1 m)
    note step = dec.simps [of m] dec.simps [of n]
    show ?case
    proof (cases "m < 10")
      case True
      with "1.prems" have "n < 10"
        by (metis append_self_conv2 butlast.simps(2) butlast_snoc dec_nonempty step)
      with True "1.prems" show ?thesis
        by (auto simp: step dest: digit_inj [rotated 2])
    next
      case False
      with "1.prems" have n: "\<not> n < 10"
        by (auto simp: step split: if_splits)
      with False "1.prems" have "dec (m div 10) = dec (n div 10)" "digit (m mod 10) = digit (n mod 10)"
        by (auto simp: step)
      then have "m div 10 = n div 10" "m mod 10 = n mod 10"
        using "1.IH" [OF False] by (auto intro!: digit_inj)
      then show ?thesis by (metis div_mult_mod_eq)
    qed
  qed
qed simp

lemma hex_digits_chars: "set (hex_digits k n) \<subseteq> hex_alphabet"
  by (induction k arbitrary: n) (auto intro: digit_in)

lemma length_hex_digits [simp]: "length (hex_digits k n) = k"
  by (induction k arbitrary: n) auto

lemma hex_digits_inject:
  "m < 16 ^ k \<Longrightarrow> n < 16 ^ k \<Longrightarrow> hex_digits k m = hex_digits k n \<longleftrightarrow> m = n"
proof (induction k arbitrary: m n)
  case (Suc k)
  have "m div 16 < 16 ^ k" "n div 16 < 16 ^ k"
    using Suc.prems by (auto simp: less_mult_imp_div_less mult.commute)
  then have "hex_digits k (m div 16) = hex_digits k (n div 16) \<longleftrightarrow> m div 16 = n div 16"
    by (rule Suc.IH)
  moreover have "digit (m mod 16) = digit (n mod 16) \<longleftrightarrow> m mod 16 = n mod 16"
    by (auto intro: digit_inj)
  ultimately show ?case
    by simp (metis div_mult_mod_eq)
qed simp

lemma hex16_inject: "hex16 v = hex16 w \<longleftrightarrow> v = w"
proof -
  have "unat x < 16 ^ 16" for x :: u64
    using unsigned_less [of x] by simp
  then show ?thesis
    unfolding hex16_def by (metis hex_digits_inject word_unat_eq_iff)
qed

text \<open>Splitting at the last (the first) occurrence of a separator is unambiguous.\<close>

lemma append_sep_inject_first:
  "c \<notin> set a \<Longrightarrow> c \<notin> set a' \<Longrightarrow> a @ c # b = a' @ c # b' \<longleftrightarrow> a = a' \<and> b = b'"
proof (induction a arbitrary: a')
  case Nil
  then show ?case by (cases a') auto
next
  case (Cons x a)
  then show ?case by (cases a') auto
qed

lemma append_sep_inject_last:
  assumes "c \<notin> set b" "c \<notin> set b'"
  shows "a @ c # b = a' @ c # b' \<longleftrightarrow> a = a' \<and> b = b'"
proof -
  have "a @ c # b = a' @ c # b' \<longleftrightarrow> rev b @ c # rev a = rev b' @ c # rev a'"
    by (metis append.assoc append_Cons append_Nil rev.simps(2) rev_append rev_rev_ident)
  also have "\<dots> \<longleftrightarrow> rev b = rev b' \<and> rev a = rev a'"
    using assms by (intro append_sep_inject_first) simp_all
  finally show ?thesis by auto
qed

end
