(* ===== verification/ErrorModel.thy ===== *)
theory ErrorModel
  imports Prelude
begin

text \<open>
  The error type shared by every crate (\<open>crates/domain/src/error.rs\<close>). Identifiers that the
  source renders into an error are kept as identifiers; free-text messages keep their fixed
  wording, without the interpolated values.
\<close>

datatype SwarmError =
    InvalidTransition string string string
  | CyclicGraph uuid
  | UnknownDependency uuid uuid
  | NotFound string uuid
  | InvalidId string string
  | Validation string
  | Queue string
  | VersionConflict string string u64 u64
  | Memory string
  | Provider string string
  | RateLimited string u64
  | CircuitOpen string
  | BudgetExceeded string
  | QuotaExceeded string
  | Timeout u64
  | Cancelled string
  | Config string
  | Internal string

text \<open>
  \<open>Result<T>\<close>. A panic (an index that is out of range, a remainder by zero) is a third way for a
  call to end, so the error side of a result is a fault.
\<close>

datatype fault = Fail SwarmError | Panic string

type_synonym 'a result = "fault + 'a"

abbreviation Ok :: "'a \<Rightarrow> 'a result" where "Ok \<equiv> Inr"
abbreviation Err :: "SwarmError \<Rightarrow> 'a result" where "Err e \<equiv> Inl (Fail e)"
abbreviation panic :: "string \<Rightarrow> 'a result" where "panic m \<equiv> Inl (Panic m)"

fun is_retryable :: "SwarmError \<Rightarrow> bool" where
  "is_retryable (Queue _) = True"
| "is_retryable (Memory _) = True"
| "is_retryable (VersionConflict _ _ _ _) = True"
| "is_retryable (Provider _ _) = True"
| "is_retryable (RateLimited _ _) = True"
| "is_retryable (CircuitOpen _) = True"
| "is_retryable (Timeout _) = True"
| "is_retryable (Internal _) = True"
| "is_retryable _ = False"

fun error_kind :: "SwarmError \<Rightarrow> string" where
  "error_kind (InvalidTransition _ _ _) = ''invalid_transition''"
| "error_kind (CyclicGraph _) = ''cyclic_graph''"
| "error_kind (UnknownDependency _ _) = ''unknown_dependency''"
| "error_kind (NotFound _ _) = ''not_found''"
| "error_kind (InvalidId _ _) = ''invalid_id''"
| "error_kind (Validation _) = ''validation''"
| "error_kind (Queue _) = ''queue''"
| "error_kind (VersionConflict _ _ _ _) = ''version_conflict''"
| "error_kind (Memory _) = ''memory''"
| "error_kind (Provider _ _) = ''provider''"
| "error_kind (RateLimited _ _) = ''rate_limited''"
| "error_kind (CircuitOpen _) = ''circuit_open''"
| "error_kind (BudgetExceeded _) = ''budget_exceeded''"
| "error_kind (QuotaExceeded _) = ''quota_exceeded''"
| "error_kind (Timeout _) = ''timeout''"
| "error_kind (Cancelled _) = ''cancelled''"
| "error_kind (Config _) = ''config''"
| "error_kind (Internal _) = ''internal''"

text \<open>The \<open>#[error(...)]\<close> attributes: what \<open>to_string()\<close> renders. \<open>disp\<close> is \<open>Uuid\<close>'s display.\<close>

fun error_text :: "(uuid \<Rightarrow> string) \<Rightarrow> SwarmError \<Rightarrow> string" where
  "error_text disp (InvalidTransition entity src dst) =
     ''invalid '' @ entity @ '' transition: '' @ src @ '' -> '' @ dst"
| "error_text disp (CyclicGraph task) =
     ''task graph is cyclic (cycle involves task '' @ disp task @ '')''"
| "error_text disp (UnknownDependency task dep) =
     ''task '' @ disp task @ '' depends on unknown task '' @ disp dep"
| "error_text disp (NotFound kind i) = ''unknown '' @ kind @ '' `'' @ disp i @ ''`''"
| "error_text disp (InvalidId value detail) = ''invalid identifier `'' @ value @ ''`: '' @ detail"
| "error_text disp (Validation m) = ''validation failed: '' @ m"
| "error_text disp (Queue m) = ''queue error: '' @ m"
| "error_text disp (VersionConflict n k e a) =
     ''version conflict on '' @ n @ ''/'' @ k @ '': expected '' @ dec (unat e) @ '', found '' @ dec (unat a)"
| "error_text disp (Memory m) = ''memory error: '' @ m"
| "error_text disp (Provider p d) = ''provider `'' @ p @ ''` failed: '' @ d"
| "error_text disp (RateLimited p r) =
     ''provider `'' @ p @ ''` rate limited (retry after '' @ dec (unat r) @ ''ms)''"
| "error_text disp (CircuitOpen p) = ''circuit open for provider `'' @ p @ ''`''"
| "error_text disp (BudgetExceeded m) = ''budget exceeded: '' @ m"
| "error_text disp (QuotaExceeded m) = ''quota exceeded: '' @ m"
| "error_text disp (Timeout m) = ''timed out after '' @ dec (unat m) @ ''ms''"
| "error_text disp (Cancelled m) = ''cancelled: '' @ m"
| "error_text disp (Config m) = ''configuration error: '' @ m"
| "error_text disp (Internal m) = ''internal error: '' @ m"

text \<open>The metrics label decides whether an attempt is worth another try.\<close>

lemma retryable_by_kind:
  "is_retryable e \<longleftrightarrow> error_kind e \<in> {''queue'', ''memory'', ''version_conflict'', ''provider'',
     ''rate_limited'', ''circuit_open'', ''timeout'', ''internal''}"
  by (cases e) simp_all

end
