(* ===== verification/RustStr.thy ===== *)
theory RustStr
  imports Prelude
begin

text \<open>
  Rust strings as the list of their UTF-8 bytes, with the operations of \<open>str\<close> that the crates
  use. White space is Unicode white space, recognised by its UTF-8 encodings; because UTF-8 is
  self-synchronising, matching an encoding at a byte position of a well-formed string matches a
  whole character. The Unicode lower-casing table is not part of the model: operations that call
  \<open>to_lowercase\<close> take it as an argument.
\<close>

definition ws_encodings :: "string list" where
  "ws_encodings =
     [[CHR 0x20], [CHR 0x09], [CHR 0x0A], [CHR 0x0B], [CHR 0x0C], [CHR 0x0D],
      [CHR 0xC2, CHR 0x85], [CHR 0xC2, CHR 0xA0], [CHR 0xE1, CHR 0x9A, CHR 0x80],
      [CHR 0xE2, CHR 0x80, CHR 0x80], [CHR 0xE2, CHR 0x80, CHR 0x81],
      [CHR 0xE2, CHR 0x80, CHR 0x82], [CHR 0xE2, CHR 0x80, CHR 0x83],
      [CHR 0xE2, CHR 0x80, CHR 0x84], [CHR 0xE2, CHR 0x80, CHR 0x85],
      [CHR 0xE2, CHR 0x80, CHR 0x86], [CHR 0xE2, CHR 0x80, CHR 0x87],
      [CHR 0xE2, CHR 0x80, CHR 0x88], [CHR 0xE2, CHR 0x80, CHR 0x89],
      [CHR 0xE2, CHR 0x80, CHR 0x8A], [CHR 0xE2, CHR 0x80, CHR 0xA8],
      [CHR 0xE2, CHR 0x80, CHR 0xA9], [CHR 0xE2, CHR 0x80, CHR 0xAF],
      [CHR 0xE2, CHR 0x81, CHR 0x9F], [CHR 0xE3, CHR 0x80, CHR 0x80]]"

definition ws_prefix :: "string \<Rightarrow> nat option" where
  "ws_prefix s = map_option length (find (\<lambda>w. prefix w s) ws_encodings)"

definition ws_suffix :: "string \<Rightarrow> nat option" where
  "ws_suffix s = map_option length (find (\<lambda>w. suffix w s) ws_encodings)"

lemma ws_encodings_nonempty: "w \<in> set ws_encodings \<Longrightarrow> w \<noteq> []"
  by (auto simp: ws_encodings_def)

lemma find_SomeD: "find p xs = Some x \<Longrightarrow> x \<in> set xs \<and> p x"
  by (auto simp: find_Some_iff)

lemma ws_prefix_pos: "ws_prefix s = Some n \<Longrightarrow> 0 < n \<and> n \<le> length s"
  by (auto simp: ws_prefix_def dest!: find_SomeD ws_encodings_nonempty prefix_length_le)

lemma ws_suffix_pos: "ws_suffix s = Some n \<Longrightarrow> 0 < n \<and> n \<le> length s"
  by (auto simp: ws_suffix_def dest!: find_SomeD ws_encodings_nonempty suffix_length_le)

lemma ws_prefix_Nil [simp]: "ws_prefix [] = None"
  using ws_prefix_pos [of "[]"] by (cases "ws_prefix []") auto

lemma ws_suffix_Nil [simp]: "ws_suffix [] = None"
  using ws_suffix_pos [of "[]"] by (cases "ws_suffix []") auto

function trim_start :: "string \<Rightarrow> string" where
  "trim_start s = (case ws_prefix s of None \<Rightarrow> s | Some n \<Rightarrow> trim_start (drop n s))"
  by pat_completeness auto
termination
  by (relation "measure length") (auto dest!: ws_prefix_pos)

function trim_end :: "string \<Rightarrow> string" where
  "trim_end s = (case ws_suffix s of None \<Rightarrow> s | Some n \<Rightarrow> trim_end (take (length s - n) s))"
  by pat_completeness auto
termination
  by (relation "measure length") (auto dest!: ws_suffix_pos)

declare trim_start.simps [simp del] trim_end.simps [simp del]

definition trim :: "string \<Rightarrow> string" where
  "trim s = trim_end (trim_start s)"

text \<open>\<open>str::split_whitespace\<close>: maximal runs of non-white-space; \<open>cur\<close> is the word being read.\<close>

function words_from :: "string \<Rightarrow> string \<Rightarrow> string list" where
  "words_from cur s =
     (case s of
        [] \<Rightarrow> (if cur = [] then [] else [cur])
      | c # cs \<Rightarrow>
          (case ws_prefix s of
             Some n \<Rightarrow> (if cur = [] then [] else [cur]) @ words_from [] (drop n s)
           | None \<Rightarrow> words_from (cur @ [c]) cs))"
  by pat_completeness auto
termination
  by (relation "measure (\<lambda>(cur, s). length s)") (auto dest!: ws_prefix_pos)

declare words_from.simps [simp del]

definition split_whitespace :: "string \<Rightarrow> string list" where
  "split_whitespace s = words_from [] s"

definition is_ascii_alphanumeric :: "char \<Rightarrow> bool" where
  "is_ascii_alphanumeric c \<longleftrightarrow>
     (let n = of_char c :: nat in 48 \<le> n \<and> n \<le> 57 \<or> 65 \<le> n \<and> n \<le> 90 \<or> 97 \<le> n \<and> n \<le> 122)"

definition to_ascii_lowercase :: "char \<Rightarrow> char" where
  "to_ascii_lowercase c = (let n = of_char c :: nat in if 65 \<le> n \<and> n \<le> 90 then char_of (n + 32) else c)"

text \<open>
  A character starts at every byte that is not a continuation byte; \<open>chars().take(n).collect()\<close> keeps
  the first \<open>n\<close> characters.
\<close>

definition is_continuation :: "char \<Rightarrow> bool" where
  "is_continuation c \<longleftrightarrow> (let n = of_char c :: nat in 128 \<le> n \<and> n < 192)"

fun take_chars :: "nat \<Rightarrow> string \<Rightarrow> string" where
  "take_chars n [] = []"
| "take_chars n (c # cs) =
     (if is_continuation c then c # take_chars n cs
      else case n of 0 \<Rightarrow> [] | Suc m \<Rightarrow> c # take_chars m cs)"

definition char_count :: "string \<Rightarrow> nat" where
  "char_count s = length (filter (\<lambda>c. \<not> is_continuation c) s)"

lemma take_chars_prefix: "prefix (take_chars n s) s"
  by (induction n s rule: take_chars.induct) (auto split: nat.split)

lemma take_chars_count: "char_count (take_chars n s) \<le> n"
  by (induction n s rule: take_chars.induct) (auto simp: char_count_def split: nat.split)

text \<open>\<open>str::contains\<close> on a pattern string, \<open>str::strip_prefix\<close>, \<open>slice::join\<close>.\<close>

definition str_contains :: "string \<Rightarrow> string \<Rightarrow> bool" where
  "str_contains s pat = sublist pat s"

definition strip_prefix :: "string \<Rightarrow> string \<Rightarrow> string option" where
  "strip_prefix p s = (if prefix p s then Some (drop (length p) s) else None)"

fun str_join :: "string \<Rightarrow> string list \<Rightarrow> string" where
  "str_join sep [] = []"
| "str_join sep [x] = x"
| "str_join sep (x # y # ys) = x @ sep @ str_join sep (y # ys)"

text \<open>
  \<open>str::split\<close> on a set of ASCII characters and on a pattern string (the pieces between matches, empty
  ones included), and \<open>str::matches(..).count()\<close>: matches do not overlap.
\<close>

fun split_chars :: "(char \<Rightarrow> bool) \<Rightarrow> string \<Rightarrow> string list" where
  "split_chars sep [] = [[]]"
| "split_chars sep (c # cs) =
     (if sep c then [] # split_chars sep cs
      else case split_chars sep cs of [] \<Rightarrow> [[c]] | piece # pieces \<Rightarrow> (c # piece) # pieces)"

function split_str :: "string \<Rightarrow> string \<Rightarrow> string \<Rightarrow> string list" where
  "split_str pat piece s =
     (case s of
        [] \<Rightarrow> [piece]
      | c # cs \<Rightarrow>
          if pat \<noteq> [] \<and> prefix pat s then piece # split_str pat [] (drop (length pat) s)
          else split_str pat (piece @ [c]) cs)"
  by pat_completeness auto
termination
  by (relation "measure (\<lambda>(pat, piece, s). length s)") auto

declare split_str.simps [simp del]

definition count_matches :: "string \<Rightarrow> string \<Rightarrow> nat" where
  "count_matches pat s = length (split_str pat [] s) - 1"

text \<open>Joining the pieces with the separator gives the text back.\<close>

lemma split_chars_nonempty [simp]: "split_chars sep s \<noteq> []"
  by (cases s) (auto split: list.split)

lemma split_chars_free: "piece \<in> set (split_chars sep s) \<Longrightarrow> c \<in> set piece \<Longrightarrow> \<not> sep c"
  by (induction s arbitrary: piece) (fastforce split: if_splits list.splits)+

lemma split_str_nonempty [simp]: "split_str pat piece s \<noteq> []"
proof (induction pat piece s rule: split_str.induct)
  case (1 pat piece s)
  then show ?case by (subst split_str.simps) (auto split: list.split)
qed

lemma str_join_Cons: "xs \<noteq> [] \<Longrightarrow> str_join sep (x # xs) = x @ sep @ str_join sep xs"
  by (cases xs) auto

lemma str_join_split_str: "str_join pat (split_str pat piece s) = piece @ s"
proof (induction pat piece s rule: split_str.induct)
  case (1 pat piece s)
  show ?case
  proof (cases s)
    case (Cons c cs)
    show ?thesis
    proof (cases "pat \<noteq> [] \<and> prefix pat s")
      case True
      then have "pat @ drop (length pat) s = s" by (auto simp: prefix_def)
      with True Cons "1.IH"(1) [OF Cons True] show ?thesis
        by (subst split_str.simps) (simp add: str_join_Cons)
    next
      case False
      with Cons "1.IH"(2) [OF Cons False] show ?thesis by (subst split_str.simps) auto
    qed
  qed (subst split_str.simps, simp)
qed

lemma strip_prefix_append [simp]: "strip_prefix p (p @ s) = Some s"
  by (simp add: strip_prefix_def)

lemma strip_prefix_absent: "c \<in> set p \<Longrightarrow> c \<notin> set s \<Longrightarrow> strip_prefix p s = None"
  by (auto simp: strip_prefix_def dest: set_mono_prefix)

lemma trim_start_length: "length (trim_start s) \<le> length s"
proof (induction s rule: trim_start.induct)
  case (1 s)
  show ?case
    by (subst trim_start.simps) (auto split: option.split dest: ws_prefix_pos "1.IH" intro: order_trans)
qed

lemma trim_end_length: "length (trim_end s) \<le> length s"
proof (induction s rule: trim_end.induct)
  case (1 s)
  show ?case
    by (subst trim_end.simps) (auto split: option.split dest: ws_suffix_pos "1.IH" intro: order_trans)
qed

text \<open>A string has no words exactly when trimming leaves nothing.\<close>

lemma words_from_nonempty: "cur \<noteq> [] \<Longrightarrow> words_from cur s \<noteq> []"
proof (induction cur s rule: words_from.induct)
  case (1 cur s)
  then show ?case
    by (subst words_from.simps) (auto split: list.split option.split)
qed

lemma split_whitespace_Nil_iff: "split_whitespace s = [] \<longleftrightarrow> trim_start s = []"
  unfolding split_whitespace_def
proof (induction s rule: trim_start.induct)
  case (1 s)
  show ?case
    using "1.IH" words_from_nonempty
    by (subst words_from.simps, subst trim_start.simps)
      (auto split: list.split option.split)
qed

lemma to_ascii_lowercase_alnum:
  "is_ascii_alphanumeric c \<Longrightarrow> is_ascii_alphanumeric (to_ascii_lowercase c)"
  by (auto simp: is_ascii_alphanumeric_def to_ascii_lowercase_def Let_def of_char_of)

end
