(* ===== verification/Ids.thy ===== *)
theory Ids
  imports ErrorModel RustStr
begin

text \<open>
  Typed identifiers (\<open>crates/domain/src/ids.rs\<close>). The macro \<open>define_id!\<close> generates the same
  operations for every identifier type, which differ in their prefix only; here the prefix is an
  argument. The rendering and the parser of the \<open>uuid\<close> crate are arguments too.
\<close>

definition prefixed :: "(uuid \<Rightarrow> string) \<Rightarrow> string \<Rightarrow> uuid \<Rightarrow> string" where
  "prefixed as_simple pre i = pre @ ''_'' @ as_simple i"

definition from_str :: "(string \<Rightarrow> string + uuid) \<Rightarrow> string \<Rightarrow> string \<Rightarrow> uuid result" where
  "from_str parse_str pre s =
     (let raw = (case strip_prefix (pre @ ''_'') s of None \<Rightarrow> s | Some r \<Rightarrow> r) in
      case parse_str raw of Inr i \<Rightarrow> Ok i | Inl e \<Rightarrow> Err (InvalidId s e))"

text \<open>
  What the \<open>uuid\<close> crate documents: the parser accepts the hyphenated and the simple form, and
  the hyphenated form consists of hexadecimal digits and hyphens (so it has no underscore and no
  colon).
\<close>

locale uuid_text =
  fixes disp :: "uuid \<Rightarrow> string"
    and as_simple :: "uuid \<Rightarrow> string"
    and parse_str :: "string \<Rightarrow> string + uuid"
  assumes parse_disp: "parse_str (disp i) = Inr i"
    and parse_simple: "parse_str (as_simple i) = Inr i"
    and disp_chars: "set (disp i) \<subseteq> insert (CHR ''-'') hex_alphabet"
begin

lemma disp_inj: "disp i = disp j \<longleftrightarrow> i = j"
  by (metis parse_disp sum.inject(2))

lemma disp_no_sep: "c \<in> {CHR ''_'', CHR '':'', CHR ''#'', CHR ''/''} \<Longrightarrow> c \<notin> set (disp i)"
proof -
  assume "c \<in> {CHR ''_'', CHR '':'', CHR ''#'', CHR ''/''}"
  then have "c \<notin> insert (CHR ''-'') hex_alphabet"
    unfolding hex_alphabet_def by (elim insertE emptyE) simp_all
  with disp_chars [of i] show ?thesis by blast
qed

lemma from_str_prefixed: "from_str parse_str pre (prefixed as_simple pre i) = Ok i"
  by (simp add: from_str_def prefixed_def parse_simple strip_prefix_append [of "pre @ ''_''", simplified])

lemma from_str_disp: "from_str parse_str pre (disp i) = Ok i"
proof -
  have "strip_prefix (pre @ ''_'') (disp i) = None"
    using disp_no_sep by (intro strip_prefix_absent [of "CHR ''_''"]) auto
  then show ?thesis
    by (simp add: from_str_def parse_disp)
qed

end

text \<open>
  The format itself: thirty-two hexadecimal digits, in the hyphenated form grouped as
  \<open>8-4-4-4-12\<close>. It meets the contract above and is the rendering that closed examples use.
\<close>

definition uuid_simple :: "uuid \<Rightarrow> string" where
  "uuid_simple i = hex_digits 32 (unat i)"

definition uuid_hyphenated :: "uuid \<Rightarrow> string" where
  "uuid_hyphenated i =
     (let s = uuid_simple i in
      take 8 s @ ''-'' @ take 4 (drop 8 s) @ ''-'' @ take 4 (drop 12 s) @ ''-'' @
      take 4 (drop 16 s) @ ''-'' @ drop 20 s)"

definition digit_value :: "char \<Rightarrow> nat option" where
  "digit_value c = position (\<lambda>d. d = c) ''0123456789abcdef''"

fun hex_value :: "nat \<Rightarrow> string \<Rightarrow> nat option" where
  "hex_value acc [] = Some acc"
| "hex_value acc (c # cs) =
     (case digit_value c of None \<Rightarrow> None | Some d \<Rightarrow> hex_value (16 * acc + d) cs)"

definition uuid_parse :: "string \<Rightarrow> string + uuid" where
  "uuid_parse s =
     (let raw = filter (\<lambda>c. c \<noteq> CHR ''-'') s in
      if length raw \<noteq> 32 then Inl ''invalid length''
      else case hex_value 0 raw of None \<Rightarrow> Inl ''invalid character'' | Some n \<Rightarrow> Inr (of_nat n))"

lemma digit_value_digit: "d < 16 \<Longrightarrow> digit_value (digit d) = Some d"
proof -
  assume d: "d < 16"
  let ?p = "\<lambda>c. c = digit d" and ?h = "''0123456789abcdef''"
  have "\<not> (\<forall>c \<in> set ?h. c \<noteq> digit d)"
    using digit_in [OF d] unfolding hex_alphabet_def by blast
  then have "position ?p ?h \<noteq> None"
    unfolding position_None_iff by blast
  then obtain i where i: "position ?p ?h = Some i" by blast
  have i16: "i < 16"
    using position_SomeD [OF i, THEN conjunct1] by simp
  moreover have "digit i = digit d"
    using position_SomeD [OF i, THEN conjunct2, THEN conjunct1] unfolding digit_def .
  ultimately have "i = d" using d by (blast intro: digit_inj)
  with i show ?thesis unfolding digit_value_def by simp
qed

lemma hex_value_append:
  "hex_value acc (xs @ ys) = (case hex_value acc xs of None \<Rightarrow> None | Some v \<Rightarrow> hex_value v ys)"
  by (induction xs arbitrary: acc) (auto split: option.splits)

lemma hex_value_digits: "n < 16 ^ k \<Longrightarrow> hex_value acc (hex_digits k n) = Some (acc * 16 ^ k + n)"
proof (induction k arbitrary: n acc)
  case (Suc k)
  have "n div 16 < 16 ^ k"
    using Suc.prems by (auto simp: less_mult_imp_div_less mult.commute)
  with Suc.IH show ?case
    by (simp add: hex_value_append digit_value_digit algebra_simps)
qed simp

lemma uuid_simple_props: "length (uuid_simple i) = 32" "CHR ''-'' \<notin> set (uuid_simple i)"
  using hex_digits_chars [of 32 "unat i"]
  by (auto simp: uuid_simple_def hex_alphabet_def simp del: hex_digits.simps)

lemma uuid_parse_simple: "uuid_parse (uuid_simple i) = Inr i"
proof -
  have "unat i < 16 ^ 32"
    using unsigned_less [of i] by simp
  then have "hex_value 0 (uuid_simple i) = Some (unat i)"
    unfolding uuid_simple_def by (simp only: hex_value_digits) simp
  moreover have "filter (\<lambda>c. c \<noteq> CHR ''-'') (uuid_simple i) = uuid_simple i"
    using uuid_simple_props(2) [of i] by (auto simp: filter_id_conv)
  ultimately show ?thesis
    by (simp add: uuid_parse_def uuid_simple_props)
qed

lemma filter_hyphenated:
  "filter (\<lambda>c. c \<noteq> CHR ''-'') (uuid_hyphenated i) = filter (\<lambda>c. c \<noteq> CHR ''-'') (uuid_simple i)"
proof -
  let ?s = "uuid_simple i"
  have "?s = take 8 ?s @ take 4 (drop 8 ?s) @ take 4 (drop 12 ?s) @ take 4 (drop 16 ?s) @ drop 20 ?s"
    using append_take_drop_id [of 8 ?s] append_take_drop_id [of 4 "drop 8 ?s"]
      append_take_drop_id [of 4 "drop 12 ?s"] append_take_drop_id [of 4 "drop 16 ?s"]
    by (simp add: drop_drop)
  then have "filter (\<lambda>c. c \<noteq> CHR ''-'') ?s = filter (\<lambda>c. c \<noteq> CHR ''-'')
      (take 8 ?s @ take 4 (drop 8 ?s) @ take 4 (drop 12 ?s) @ take 4 (drop 16 ?s) @ drop 20 ?s)"
    by (rule arg_cong)
  then show ?thesis
    by (simp add: uuid_hyphenated_def Let_def)
qed

interpretation hex_uuid: uuid_text uuid_hyphenated uuid_simple uuid_parse
proof
  show "uuid_parse (uuid_simple i) = Inr i" for i by (rule uuid_parse_simple)
  then show "uuid_parse (uuid_hyphenated i) = Inr i" for i
    by (simp add: uuid_parse_def filter_hyphenated)
  show "set (uuid_hyphenated i) \<subseteq> insert (CHR ''-'') hex_alphabet" for i
    using hex_digits_chars [of 32 "unat i"]
    by (auto simp: uuid_hyphenated_def uuid_simple_def Let_def simp del: hex_digits.simps
        dest!: in_set_takeD in_set_dropD)
qed

end
