(* ===== verification/AgentModel.thy ===== *)
theory AgentModel
  imports Ids
begin

text \<open>
  Agents, their capabilities and the resources of their nodes (\<open>crates/domain/src/agent.rs\<close>).
  \<open>f32\<close> and \<open>f64\<close> values that only feed statistics are real numbers here: rounding is not
  modelled. \<open>Utc::now()\<close> and fresh identifiers are arguments.
\<close>

datatype Capability =
  Planning | Research | Coding | Review | Verification | Summarization | ToolUse | DataAnalysis
| SecurityReview | Merging | General

definition all_capabilities :: "Capability list" where
  "all_capabilities =
     [Capability.Planning, Capability.Research, Capability.Coding, Capability.Review,
      Capability.Verification, Capability.Summarization, Capability.ToolUse,
      Capability.DataAnalysis, Capability.SecurityReview, Capability.Merging, Capability.General]"

fun capability_as_str :: "Capability \<Rightarrow> string" where
  "capability_as_str Capability.Planning = ''planning''"
| "capability_as_str Capability.Research = ''research''"
| "capability_as_str Capability.Coding = ''coding''"
| "capability_as_str Capability.Review = ''review''"
| "capability_as_str Capability.Verification = ''verification''"
| "capability_as_str Capability.Summarization = ''summarization''"
| "capability_as_str Capability.ToolUse = ''tool_use''"
| "capability_as_str Capability.DataAnalysis = ''data_analysis''"
| "capability_as_str Capability.SecurityReview = ''security_review''"
| "capability_as_str Capability.Merging = ''merging''"
| "capability_as_str Capability.General = ''general''"

datatype AgentType =
  Planner | Research | Coding | Critic | Verification | Summarization | ToolUse | DataAnalysis
| SecurityReview | ResultMerger | General

definition all_agent_types :: "AgentType list" where
  "all_agent_types =
     [AgentType.Planner, AgentType.Research, AgentType.Coding, AgentType.Critic,
      AgentType.Verification, AgentType.Summarization, AgentType.ToolUse, AgentType.DataAnalysis,
      AgentType.SecurityReview, AgentType.ResultMerger, AgentType.General]"

fun type_capabilities :: "AgentType \<Rightarrow> Capability list" where
  "type_capabilities AgentType.Planner = [Capability.Planning, Capability.General]"
| "type_capabilities AgentType.Research = [Capability.Research, Capability.General]"
| "type_capabilities AgentType.Coding = [Capability.Coding, Capability.ToolUse, Capability.General]"
| "type_capabilities AgentType.Critic = [Capability.Review, Capability.General]"
| "type_capabilities AgentType.Verification =
     [Capability.Verification, Capability.Review, Capability.General]"
| "type_capabilities AgentType.Summarization = [Capability.Summarization, Capability.General]"
| "type_capabilities AgentType.ToolUse = [Capability.ToolUse, Capability.General]"
| "type_capabilities AgentType.DataAnalysis = [Capability.DataAnalysis, Capability.General]"
| "type_capabilities AgentType.SecurityReview =
     [Capability.SecurityReview, Capability.Review, Capability.General]"
| "type_capabilities AgentType.ResultMerger =
     [Capability.Merging, Capability.Summarization, Capability.General]"
| "type_capabilities AgentType.General = [Capability.General]"

fun for_capability :: "Capability \<Rightarrow> AgentType" where
  "for_capability Capability.Planning = AgentType.Planner"
| "for_capability Capability.Research = AgentType.Research"
| "for_capability Capability.Coding = AgentType.Coding"
| "for_capability Capability.Review = AgentType.Critic"
| "for_capability Capability.Verification = AgentType.Verification"
| "for_capability Capability.Summarization = AgentType.Summarization"
| "for_capability Capability.ToolUse = AgentType.ToolUse"
| "for_capability Capability.DataAnalysis = AgentType.DataAnalysis"
| "for_capability Capability.SecurityReview = AgentType.SecurityReview"
| "for_capability Capability.Merging = AgentType.ResultMerger"
| "for_capability Capability.General = AgentType.General"

fun agent_type_as_str :: "AgentType \<Rightarrow> string" where
  "agent_type_as_str AgentType.Planner = ''planner''"
| "agent_type_as_str AgentType.Research = ''research''"
| "agent_type_as_str AgentType.Coding = ''coding''"
| "agent_type_as_str AgentType.Critic = ''critic''"
| "agent_type_as_str AgentType.Verification = ''verification''"
| "agent_type_as_str AgentType.Summarization = ''summarization''"
| "agent_type_as_str AgentType.ToolUse = ''tool_use''"
| "agent_type_as_str AgentType.DataAnalysis = ''data_analysis''"
| "agent_type_as_str AgentType.SecurityReview = ''security_review''"
| "agent_type_as_str AgentType.ResultMerger = ''result_merger''"
| "agent_type_as_str AgentType.General = ''general''"

datatype AgentStatus =
  Created | Registered | Idle | Assigned | Running | Waiting | Completed | Failed | Retrying
| Terminated

record ModelConfig =
  mc_provider :: string
  mc_model :: string
  mc_temperature :: real
  mc_max_tokens :: u32

definition default_model_config :: ModelConfig where
  "default_model_config =
     \<lparr>mc_provider = ''mock'', mc_model = ''mock-small'', mc_temperature = 1 / 5,
      mc_max_tokens = 2048\<rparr>"

record AgentDescriptor =
  ad_id :: AgentId
  ad_agent_type :: AgentType
  ad_capabilities :: "Capability list"
  ad_status :: AgentStatus
  ad_node_id :: NodeId
  ad_current_load :: real
  ad_success_rate :: real
  ad_average_latency_ms :: u64
  ad_model_config :: ModelConfig
  ad_job_id :: "JobId option"
  ad_current_task :: "TaskId option"
  ad_tasks_completed :: u64
  ad_tasks_failed :: u64
  ad_created_at :: DateTime
  ad_last_active_at :: DateTime

definition new_agent_descriptor ::
  "AgentId \<Rightarrow> DateTime \<Rightarrow> AgentType \<Rightarrow> NodeId \<Rightarrow> ModelConfig \<Rightarrow> AgentDescriptor" where
  "new_agent_descriptor fresh_id now agent_type node_id model_config =
     \<lparr>ad_id = fresh_id, ad_agent_type = agent_type,
      ad_capabilities = type_capabilities agent_type, ad_status = AgentStatus.Created,
      ad_node_id = node_id, ad_current_load = 0, ad_success_rate = 1, ad_average_latency_ms = 0,
      ad_model_config = model_config, ad_job_id = None, ad_current_task = None,
      ad_tasks_completed = 0, ad_tasks_failed = 0, ad_created_at = now, ad_last_active_at = now\<rparr>"

definition supports :: "AgentDescriptor \<Rightarrow> Capability list \<Rightarrow> bool" where
  "supports a required = list_all (\<lambda>needed. needed \<in> set (ad_capabilities a)) required"

definition is_available :: "AgentDescriptor \<Rightarrow> bool" where
  "is_available a \<longleftrightarrow> ad_status a = AgentStatus.Idle \<or> ad_status a = AgentStatus.Registered"

definition record_attempt :: "DateTime \<Rightarrow> bool \<Rightarrow> u64 \<Rightarrow> AgentDescriptor \<Rightarrow> AgentDescriptor" where
  "record_attempt now succeeded latency_ms a =
     a\<lparr>ad_tasks_completed := (if succeeded then ad_tasks_completed a + 1 else ad_tasks_completed a),
       ad_tasks_failed := (if succeeded then ad_tasks_failed a else ad_tasks_failed a + 1),
       ad_success_rate :=
         (1 - 1 / 5) * ad_success_rate a + 1 / 5 * (if succeeded then 1 else 0),
       ad_average_latency_ms :=
         (if ad_average_latency_ms a = 0 then latency_ms
          else (ad_average_latency_ms a * 4 + latency_ms) div 5),
       ad_last_active_at := now\<rparr>"

datatype NodeStatus = Joining | Ready | Degraded | Draining | Unreachable | Removed

record NodeResources =
  nr_cpu_cores :: nat
  nr_available_memory_bytes :: u64
  nr_gpu_count :: nat
  nr_available_gpu_memory_bytes :: u64
  nr_active_agents :: nat
  nr_active_tasks :: nat
  nr_cpu_utilization :: real
  nr_queue_depth :: nat

definition default_node_resources :: NodeResources where
  "default_node_resources =
     \<lparr>nr_cpu_cores = 1, nr_available_memory_bytes = 2 ^ 30, nr_gpu_count = 0,
      nr_available_gpu_memory_bytes = 0, nr_active_agents = 0, nr_active_tasks = 0,
      nr_cpu_utilization = 0, nr_queue_depth = 0\<rparr>"

definition clamp :: "real \<Rightarrow> real \<Rightarrow> real \<Rightarrow> real" where
  "clamp lo hi x = (if x < lo then lo else if x > hi then hi else x)"

definition headroom :: "NodeResources \<Rightarrow> real" where
  "headroom n =
     clamp 0 1 (1 - nr_cpu_utilization n) * (1 / 2) +
     1 / (1 + real (nr_active_tasks n)) * (1 / 2)"

text \<open>The agent type chosen for a capability advertises it, and every type offers \<open>General\<close>.\<close>

lemma for_capability_offers: "c \<in> set (type_capabilities (for_capability c))"
  by (cases c) simp_all

lemma general_offered: "Capability.General \<in> set (type_capabilities t)"
  by (cases t) simp_all

lemma all_capabilities_complete: "set all_capabilities = UNIV" "distinct all_capabilities"
proof -
  have "c \<in> set all_capabilities" for c by (cases c) (simp_all add: all_capabilities_def)
  then show "set all_capabilities = UNIV" by blast
qed (simp add: all_capabilities_def)

lemma clamp_bounds: "lo \<le> hi \<Longrightarrow> lo \<le> clamp lo hi x \<and> clamp lo hi x \<le> hi"
  by (simp add: clamp_def)

lemma headroom_bounds: "0 < headroom n \<and> headroom n \<le> 1"
proof -
  have mean: "0 < c * (1 / 2) + t * (1 / 2) \<and> c * (1 / 2) + t * (1 / 2) \<le> 1"
    if "0 \<le> c" "c \<le> 1" "0 < t" "t \<le> 1" for c t :: real
    using that by simp
  show ?thesis
    unfolding headroom_def using clamp_bounds [of 0 1] by (intro mean) simp_all
qed

text \<open>The rolling success rate stays a rate, and moves towards the last observation.\<close>

lemma record_attempt_rate:
  assumes "0 \<le> ad_success_rate a" "ad_success_rate a \<le> 1"
  shows "0 \<le> ad_success_rate (record_attempt now ok l a)"
    and "ad_success_rate (record_attempt now ok l a) \<le> 1"
    and "ok \<Longrightarrow> ad_success_rate a \<le> ad_success_rate (record_attempt now ok l a)"
    and "\<not> ok \<Longrightarrow> ad_success_rate (record_attempt now ok l a) \<le> ad_success_rate a"
  using assms by (simp_all add: record_attempt_def)

lemma record_attempt_latency:
  assumes "unat (ad_average_latency_ms a) * 4 + unat l < 2 ^ 64"
  shows "unat (ad_average_latency_ms (record_attempt now ok l a))
    \<le> max (unat (ad_average_latency_ms a)) (unat l)"
proof -
  let ?m = "ad_average_latency_ms a"
  have "unat ((?m * 4 + l) div 5) = (unat ?m * 4 + unat l) div 5"
    using assms by (simp add: unat_div unat_word_ariths)
  then show ?thesis
    by (auto simp: record_attempt_def max_def)
qed

end
