(* ===== verification/JobModel.thy ===== *)
theory JobModel
  imports AgentModel
begin

text \<open>
  Jobs: submission, validation of untrusted requests, lifecycle states and the statistics of a
  run (\<open>crates/domain/src/job.rs\<close>).
\<close>

section \<open>Priorities\<close>

datatype Priority = Low | Normal | High | Critical

fun weight :: "Priority \<Rightarrow> u8" where
  "weight Priority.Low = 0"
| "weight Priority.Normal = 1"
| "weight Priority.High = 2"
| "weight Priority.Critical = 3"

lemma weight_inject: "weight p = weight q \<longleftrightarrow> p = q"
  by (cases p; cases q) simp_all

text \<open>The derived order of the enum is the order of its constructors.\<close>

fun priority_rank :: "Priority \<Rightarrow> nat" where
  "priority_rank Priority.Low = 0"
| "priority_rank Priority.Normal = 1"
| "priority_rank Priority.High = 2"
| "priority_rank Priority.Critical = 3"

lemma priority_rank_inject: "priority_rank p = priority_rank q \<longleftrightarrow> p = q"
  by (cases p; cases q) simp_all

instantiation Priority :: linorder
begin

definition less_eq_Priority :: "Priority \<Rightarrow> Priority \<Rightarrow> bool" where
  "p \<le> q \<longleftrightarrow> priority_rank p \<le> priority_rank q"

definition less_Priority :: "Priority \<Rightarrow> Priority \<Rightarrow> bool" where
  "p < q \<longleftrightarrow> priority_rank p < priority_rank q"

instance
  by intro_classes (auto simp: less_eq_Priority_def less_Priority_def priority_rank_inject)

end

lemma weight_mono: "weight p \<le> weight q \<longleftrightarrow> p \<le> q"
  by (cases p; cases q) (simp_all add: less_eq_Priority_def word_le_nat_alt)

fun priority_display :: "Priority \<Rightarrow> string" where
  "priority_display Priority.Low = ''low''"
| "priority_display Priority.Normal = ''normal''"
| "priority_display Priority.High = ''high''"
| "priority_display Priority.Critical = ''critical''"

definition priority_from_str :: "string \<Rightarrow> Priority result" where
  "priority_from_str s =
     (let w = map to_ascii_lowercase (trim s) in
      if w = ''low'' then Ok Priority.Low
      else if w = ''normal'' \<or> w = ''medium'' then Ok Priority.Normal
      else if w = ''high'' then Ok Priority.High
      else if w = ''critical'' \<or> w = ''urgent'' then Ok Priority.Critical
      else Err (Config (''unknown priority `'' @ w @ ''`'')))"

section \<open>Execution strategies\<close>

datatype ExecutionStrategy =
  Sequential | Parallel | Hierarchical | Debate | MapReduce | PlannerExecutor | SupervisorWorker
| Consensus | Adaptive

definition all_strategies :: "ExecutionStrategy list" where
  "all_strategies =
     [Sequential, Parallel, Hierarchical, Debate, MapReduce, PlannerExecutor, SupervisorWorker,
      Consensus, Adaptive]"

fun strategy_as_str :: "ExecutionStrategy \<Rightarrow> string" where
  "strategy_as_str Sequential = ''sequential''"
| "strategy_as_str Parallel = ''parallel''"
| "strategy_as_str Hierarchical = ''hierarchical''"
| "strategy_as_str Debate = ''debate''"
| "strategy_as_str MapReduce = ''map_reduce''"
| "strategy_as_str PlannerExecutor = ''planner_executor''"
| "strategy_as_str SupervisorWorker = ''supervisor_worker''"
| "strategy_as_str Consensus = ''consensus''"
| "strategy_as_str Adaptive = ''adaptive''"

fun needs_consensus :: "ExecutionStrategy \<Rightarrow> bool" where
  "needs_consensus s \<longleftrightarrow> s = Debate \<or> s = Consensus"

definition strategy_from_str :: "string \<Rightarrow> ExecutionStrategy result" where
  "strategy_from_str s =
     (let normalized = map to_ascii_lowercase (filter is_ascii_alphanumeric s) in
      case find (\<lambda>c. filter (\<lambda>ch. ch \<noteq> CHR ''_'') (strategy_as_str c) = normalized \<or>
                     strategy_as_str c = normalized) all_strategies of
        Some c \<Rightarrow> Ok c
      | None \<Rightarrow> Err (Config (''unknown execution strategy `'' @ s @ ''` (expected one of: '' @
                    str_join '', '' (map strategy_as_str all_strategies) @ '')'')))"

section \<open>Requests\<close>

text \<open>A client supplies \<open>max_cost\<close> as an \<open>f64\<close>, so it may be infinite or not a number.\<close>

datatype f64 = Finite real | Infinite bool | NaN

fun is_finite :: "f64 \<Rightarrow> bool" where
  "is_finite (Finite _) = True"
| "is_finite _ = False"

fun le_zero :: "f64 \<Rightarrow> bool" where
  "le_zero (Finite r) = (r \<le> 0)"
| "le_zero (Infinite negative) = negative"
| "le_zero NaN = False"

definition default_max_agents :: nat where "default_max_agents = 8"
definition MAX_AGENTS_PER_JOB :: nat where "MAX_AGENTS_PER_JOB = 1000"
definition MAX_OBJECTIVE_LEN :: nat where "MAX_OBJECTIVE_LEN = 8192"

record JobRequest =
  jr_objective :: string
  jr_context :: "string option"
  jr_priority :: Priority
  jr_deadline :: "DateTime option"
  jr_max_agents :: nat
  jr_max_cost :: "f64 option"
  jr_max_runtime_seconds :: "u64 option"
  jr_required_capabilities :: "Capability list"
  jr_execution_strategy :: ExecutionStrategy
  jr_idempotency_key :: "string option"

definition new_job_request :: "string \<Rightarrow> JobRequest" where
  "new_job_request objective =
     \<lparr>jr_objective = objective, jr_context = None, jr_priority = Priority.Normal,
      jr_deadline = None, jr_max_agents = default_max_agents, jr_max_cost = None,
      jr_max_runtime_seconds = None, jr_required_capabilities = [],
      jr_execution_strategy = Parallel, jr_idempotency_key = None\<rparr>"

definition with_strategy :: "ExecutionStrategy \<Rightarrow> JobRequest \<Rightarrow> JobRequest" where
  "with_strategy strategy r = r\<lparr>jr_execution_strategy := strategy\<rparr>"

definition with_max_agents :: "nat \<Rightarrow> JobRequest \<Rightarrow> JobRequest" where
  "with_max_agents n r = r\<lparr>jr_max_agents := n\<rparr>"

definition with_context :: "string \<Rightarrow> JobRequest \<Rightarrow> JobRequest" where
  "with_context background r = r\<lparr>jr_context := Some background\<rparr>"

definition with_priority :: "Priority \<Rightarrow> JobRequest \<Rightarrow> JobRequest" where
  "with_priority p r = r\<lparr>jr_priority := p\<rparr>"

definition with_max_cost :: "f64 \<Rightarrow> JobRequest \<Rightarrow> JobRequest" where
  "with_max_cost usd r = r\<lparr>jr_max_cost := Some usd\<rparr>"

definition validate :: "JobRequest \<Rightarrow> unit result" where
  "validate r =
     (if trim (jr_objective r) = [] then Err (Validation ''objective must not be empty'')
      else if length (jr_objective r) > MAX_OBJECTIVE_LEN then
        Err (Validation (''objective is '' @ dec (length (jr_objective r)) @ '' bytes, limit is '' @
             dec MAX_OBJECTIVE_LEN))
      else if jr_max_agents r = 0 then Err (Validation ''max_agents must be at least 1'')
      else if jr_max_agents r > MAX_AGENTS_PER_JOB then
        Err (QuotaExceeded (''max_agents '' @ dec (jr_max_agents r) @
             '' exceeds the per-job ceiling of '' @ dec MAX_AGENTS_PER_JOB))
      else if (case jr_max_cost r of Some cost \<Rightarrow> \<not> is_finite cost \<or> le_zero cost | None \<Rightarrow> False) then
        Err (Validation ''max_cost must be a positive, finite number of USD'')
      else if jr_max_runtime_seconds r = Some 0 then
        Err (Validation ''max_runtime_seconds must be greater than zero'')
      else if (case jr_idempotency_key r of Some key \<Rightarrow> trim key = [] \<or> length key > 256
               | None \<Rightarrow> False) then
        Err (Validation ''idempotency_key must be 1..=256 non-blank characters'')
      else Ok ())"

section \<open>Jobs\<close>

datatype JobStatus =
  Submitted | Admitted | Rejected | Planning | Running | Paused | Aggregating | Completed
| PartiallyCompleted | Failed | Cancelled

fun job_status_as_str :: "JobStatus \<Rightarrow> string" where
  "job_status_as_str JobStatus.Submitted = ''submitted''"
| "job_status_as_str JobStatus.Admitted = ''admitted''"
| "job_status_as_str JobStatus.Rejected = ''rejected''"
| "job_status_as_str JobStatus.Planning = ''planning''"
| "job_status_as_str JobStatus.Running = ''running''"
| "job_status_as_str JobStatus.Paused = ''paused''"
| "job_status_as_str JobStatus.Aggregating = ''aggregating''"
| "job_status_as_str JobStatus.Completed = ''completed''"
| "job_status_as_str JobStatus.PartiallyCompleted = ''partially_completed''"
| "job_status_as_str JobStatus.Failed = ''failed''"
| "job_status_as_str JobStatus.Cancelled = ''cancelled''"

fun is_finished :: "JobStatus \<Rightarrow> bool" where
  "is_finished s \<longleftrightarrow>
     s \<in> {JobStatus.Completed, JobStatus.PartiallyCompleted, JobStatus.Failed,
          JobStatus.Cancelled, JobStatus.Rejected}"

record Job =
  j_id :: JobId
  j_request :: JobRequest
  j_status :: JobStatus
  j_correlation_id :: CorrelationId
  j_created_at :: DateTime
  j_started_at :: "DateTime option"
  j_finished_at :: "DateTime option"
  j_status_reason :: "string option"

definition new_job :: "JobId \<Rightarrow> CorrelationId \<Rightarrow> DateTime \<Rightarrow> JobRequest \<Rightarrow> Job" where
  "new_job fresh_id fresh_correlation now request =
     \<lparr>j_id = fresh_id, j_request = request, j_status = JobStatus.Submitted,
      j_correlation_id = fresh_correlation, j_created_at = now, j_started_at = None,
      j_finished_at = None, j_status_reason = None\<rparr>"

text \<open>\<open>Duration::num_seconds\<close> truncates towards zero; only non-negative results are compared.\<close>

definition num_seconds :: "Nanos \<Rightarrow> int" where
  "num_seconds d = (if d < 0 then - ((- d) div 1000000000) else d div 1000000000)"

definition is_past_deadline :: "Job \<Rightarrow> DateTime \<Rightarrow> bool" where
  "is_past_deadline j now \<longleftrightarrow>
     (case jr_deadline (j_request j) of Some deadline \<Rightarrow> deadline \<le> now | None \<Rightarrow> False) \<or>
     (case (jr_max_runtime_seconds (j_request j), j_started_at j) of
        (Some limit, Some started) \<Rightarrow>
          (let elapsed = num_seconds (now - started) in 0 \<le> elapsed \<and> limit \<le> word_of_int elapsed)
      | _ \<Rightarrow> False)"

section \<open>Results and statistics\<close>

record Evidence =
  ev_source :: string
  ev_claim :: string
  ev_support :: real
  ev_locator :: "string option"

record 'v StructuredOutput =
  so_task_id :: TaskId
  so_kind :: string
  so_title :: string
  so_content :: string
  so_data :: 'v
  so_confidence :: real

record Conflict =
  cf_description :: string
  cf_claims :: "string list"
  cf_task_ids :: "TaskId list"
  cf_attempted_resolution :: string

record ExecutionStatistics =
  es_wall_clock_ms :: u64
  es_tasks_total :: nat
  es_tasks_succeeded :: nat
  es_tasks_failed :: nat
  es_tasks_retried :: nat
  es_agents_spawned :: nat
  es_model_requests :: u64
  es_model_cache_hits :: u64
  es_tokens_in :: u64
  es_tokens_out :: u64
  es_cost_usd :: real
  es_median_task_latency_ms :: u64
  es_p95_task_latency_ms :: u64
  es_p99_task_latency_ms :: u64
  es_queue_wait_ms_total :: u64
  es_scheduling_decisions :: u64
  es_messages_sent :: u64

definition default_statistics :: ExecutionStatistics where
  "default_statistics =
     \<lparr>es_wall_clock_ms = 0, es_tasks_total = 0, es_tasks_succeeded = 0, es_tasks_failed = 0,
      es_tasks_retried = 0, es_agents_spawned = 0, es_model_requests = 0, es_model_cache_hits = 0,
      es_tokens_in = 0, es_tokens_out = 0, es_cost_usd = 0, es_median_task_latency_ms = 0,
      es_p95_task_latency_ms = 0, es_p99_task_latency_ms = 0, es_queue_wait_ms_total = 0,
      es_scheduling_decisions = 0, es_messages_sent = 0\<rparr>"

definition percentile :: "u64 list \<Rightarrow> real \<Rightarrow> u64" where
  "percentile xs q =
     (if xs = [] then 0
      else let rank = nat \<lceil>q * real (length xs)\<rceil>;
               index = min (rank - 1) (length xs - 1)
           in xs ! index)"

definition set_latency_percentiles :: "u64 list \<Rightarrow> ExecutionStatistics \<Rightarrow> ExecutionStatistics" where
  "set_latency_percentiles latencies_ms stats =
     (if latencies_ms = [] then stats
      else let xs = sort latencies_ms in
        stats\<lparr>es_median_task_latency_ms := percentile xs (50 / 100),
              es_p95_task_latency_ms := percentile xs (95 / 100),
              es_p99_task_latency_ms := percentile xs (99 / 100)\<rparr>)"

definition coordination_overhead :: "ExecutionStatistics \<Rightarrow> u64 \<Rightarrow> nat \<Rightarrow> real" where
  "coordination_overhead stats total_task_time_ms parallelism =
     (if es_wall_clock_ms stats = 0 \<or> parallelism = 0 then 0
      else let ideal = real (unat total_task_time_ms) / real parallelism;
               actual = real (unat (es_wall_clock_ms stats))
           in clamp 0 1 ((actual - ideal) / actual))"

record 'v FinalResult =
  fr_job_id :: JobId
  fr_status :: JobStatus
  fr_summary :: string
  fr_outputs :: "'v StructuredOutput list"
  fr_supporting_evidence :: "Evidence list"
  fr_confidence_score :: real
  fr_unresolved_conflicts :: "Conflict list"
  fr_execution_statistics :: ExecutionStatistics

section \<open>Properties\<close>

text \<open>
  What a validated request guarantees to the rest of the platform: the trust boundary.
\<close>

definition admissible :: "JobRequest \<Rightarrow> bool" where
  "admissible r \<longleftrightarrow>
     trim (jr_objective r) \<noteq> [] \<and> length (jr_objective r) \<le> MAX_OBJECTIVE_LEN \<and>
     1 \<le> jr_max_agents r \<and> jr_max_agents r \<le> MAX_AGENTS_PER_JOB \<and>
     (case jr_max_cost r of None \<Rightarrow> True | Some c \<Rightarrow> (case c of Finite usd \<Rightarrow> 0 < usd | _ \<Rightarrow> False)) \<and>
     jr_max_runtime_seconds r \<noteq> Some 0 \<and>
     (case jr_idempotency_key r of None \<Rightarrow> True | Some k \<Rightarrow> trim k \<noteq> [] \<and> length k \<le> 256)"

lemma validate_Ok_iff: "validate r = Ok () \<longleftrightarrow> admissible r"
proof -
  have "(case jr_max_cost r of Some cost \<Rightarrow> \<not> is_finite cost \<or> le_zero cost | None \<Rightarrow> False) \<longleftrightarrow>
      \<not> (case jr_max_cost r of None \<Rightarrow> True | Some c \<Rightarrow> (case c of Finite usd \<Rightarrow> 0 < usd | _ \<Rightarrow> False))"
    by (auto split: option.split f64.split)
  then show ?thesis
    by (auto simp: validate_def admissible_def split: option.split)
qed

lemma validate_error_kind:
  "validate r = Inl e \<Longrightarrow> \<exists>m. e = Fail (Validation m) \<or> e = Fail (QuotaExceeded m)"
  by (auto simp: validate_def split: if_splits)

text \<open>Every label of a priority or a strategy parses back to what it labels.\<close>

lemma trim_no_ws:
  assumes "ws_prefix s = None" "ws_suffix s = None"
  shows "trim s = s"
  using assms by (simp add: trim_def trim_start.simps [of s] trim_end.simps [of s])

lemma priority_roundtrip: "priority_from_str (priority_display p) = Ok p"
proof -
  have "ws_prefix (priority_display p) = None" "ws_suffix (priority_display p) = None"
    by (cases p; simp add: ws_prefix_def ws_suffix_def ws_encodings_def suffix_def)+
  then have "trim (priority_display p) = priority_display p" by (rule trim_no_ws)
  then show ?thesis
    by (cases p) (simp_all add: priority_from_str_def to_ascii_lowercase_def Let_def)
qed

lemma strategy_roundtrip: "strategy_from_str (strategy_as_str s) = Ok s"
  by (cases s) (simp_all add: strategy_from_str_def all_strategies_def to_ascii_lowercase_def
      is_ascii_alphanumeric_def Let_def)

text \<open>
  Nearest rank: at least a share \<open>q\<close> of the observations is at most the percentile, and fewer
  than that share are strictly below it.
\<close>

lemma count_below_sorted:
  assumes "sorted xs" "i < length xs"
  shows "Suc i \<le> length (filter (\<lambda>x. x \<le> xs ! i) xs)"
    and "length (filter (\<lambda>x. x < xs ! i) xs) \<le> i"
proof -
  let ?v = "xs ! i"
  have split: "xs = take (Suc i) xs @ drop (Suc i) xs" "xs = take i xs @ drop i xs" by simp_all
  have "\<forall>x \<in> set (take (Suc i) xs). x \<le> ?v"
    using assms by (auto simp: in_set_conv_nth intro!: sorted_nth_mono)
  then have "filter (\<lambda>x. x \<le> ?v) (take (Suc i) xs) = take (Suc i) xs" by (simp add: filter_id_conv)
  then have "length (filter (\<lambda>x. x \<le> ?v) xs) =
      length (take (Suc i) xs) + length (filter (\<lambda>x. x \<le> ?v) (drop (Suc i) xs))"
    by (subst split(1)) (simp only: filter_append length_append)
  then show "Suc i \<le> length (filter (\<lambda>x. x \<le> ?v) xs)" using assms(2) by simp
  have "\<forall>x \<in> set (drop i xs). \<not> x < ?v"
    using assms by (auto simp: in_set_conv_nth not_less intro!: sorted_nth_mono)
  then have "filter (\<lambda>x. x < ?v) (drop i xs) = []" by (simp add: filter_empty_conv)
  then have "length (filter (\<lambda>x. x < ?v) xs) = length (filter (\<lambda>x. x < ?v) (take i xs))"
    by (subst split(2)) (simp only: filter_append length_append list.size add_0_right)
  also have "\<dots> \<le> i" by (rule order_trans [OF length_filter_le]) simp
  finally show "length (filter (\<lambda>x. x < ?v) xs) \<le> i" .
qed

lemma nearest_rank_index:
  assumes "0 < q" "q \<le> 1" "n \<noteq> 0"
  shows "min (nat \<lceil>q * real n\<rceil> - 1) (n - 1) < n"
    and "real (min (nat \<lceil>q * real n\<rceil> - 1) (n - 1)) < q * real n"
    and "q * real n \<le> real (Suc (min (nat \<lceil>q * real n\<rceil> - 1) (n - 1)))"
proof -
  let ?c = "\<lceil>q * real n\<rceil>"
  have pos: "0 < q * real n" using assms by simp
  then have c1: "1 \<le> ?c" by linarith
  have "q * real n \<le> real n" using assms by (simp add: mult_le_cancel_right2)
  then have "?c \<le> int n" by linarith
  with c1 have m: "min (nat ?c - 1) (n - 1) = nat ?c - 1" by linarith
  show "min (nat ?c - 1) (n - 1) < n" using assms(3) by simp
  have "int (nat ?c - 1) = ?c - 1" using c1 by linarith
  then have "real (nat ?c - 1) = of_int ?c - 1" by (metis of_int_1 of_int_diff of_int_of_nat_eq)
  then show "real (min (nat ?c - 1) (n - 1)) < q * real n"
    "q * real n \<le> real (Suc (min (nat ?c - 1) (n - 1)))"
    unfolding m of_nat_Suc by linarith+
qed

lemma percentile_nearest_rank_sorted:
  assumes "sorted xs" "xs \<noteq> []" "0 < q" "q \<le> 1"
  shows "percentile xs q \<in> set xs"
    and "q * real (length xs) \<le> real (length (filter (\<lambda>x. x \<le> percentile xs q) xs))"
    and "real (length (filter (\<lambda>x. x < percentile xs q) xs)) < q * real (length xs)"
proof -
  let ?i = "min (nat \<lceil>q * real (length xs)\<rceil> - 1) (length xs - 1)"
  have p: "percentile xs q = xs ! ?i" using assms(2) by (simp add: percentile_def Let_def)
  have "length xs \<noteq> 0" using assms(2) by simp
  note i = nearest_rank_index [OF assms(3,4) this]
  note c = count_below_sorted [OF assms(1) i(1)]
  show "percentile xs q \<in> set xs" unfolding p using i(1) by (rule nth_mem)
  show "q * real (length xs) \<le> real (length (filter (\<lambda>x. x \<le> percentile xs q) xs))"
    unfolding p by (rule order_trans [OF i(3) of_nat_mono [OF c(1)]])
  show "real (length (filter (\<lambda>x. x < percentile xs q) xs)) < q * real (length xs)"
    unfolding p by (rule le_less_trans [OF of_nat_mono [OF c(2)] i(2)])
qed

end
