(* ===== verification/Hashing.thy ===== *)
theory Hashing
  imports Prelude
begin

text \<open>FNV-1a over 64-bit words (\<open>crates/domain/src/hash.rs\<close>), on the bytes of a string.\<close>

unbundle bit_operations_syntax

definition OFFSET :: u64 where
  "OFFSET = 0xcbf29ce484222325"

definition PRIME :: u64 where
  "PRIME = 0x100000001b3"

definition fnv1a :: "u64 \<Rightarrow> string \<Rightarrow> u64" where
  "fnv1a hash bytes = fold (\<lambda>byte h. (h XOR of_char byte) * PRIME) bytes hash"

definition stable_hash :: "string \<Rightarrow> u64" where
  "stable_hash bytes = fnv1a OFFSET bytes"

text \<open>Chaining calls hashes the concatenation: fields have no boundaries of their own.\<close>

lemma fnv1a_append: "fnv1a h (xs @ ys) = fnv1a (fnv1a h xs) ys"
  by (simp add: fnv1a_def)

lemma fnv1a_Nil [simp]: "fnv1a h [] = h"
  by (simp add: fnv1a_def)

lemma fnv1a_Cons: "fnv1a h (x # xs) = fnv1a ((h XOR of_char x) * PRIME) xs"
  by (simp add: fnv1a_def)

text \<open>The multiplier is odd, hence invertible modulo \<open>2 ^ 64\<close>: a step loses no information.\<close>

lemma prime_invertible: "PRIME * 0xce965057aff6957b = 1"
  by (simp add: PRIME_def)

lemma times_prime_inj: "a * PRIME = b * PRIME \<longleftrightarrow> a = b"
proof
  assume "a * PRIME = b * PRIME"
  from arg_cong [OF this, of "\<lambda>x. x * 0xce965057aff6957b"] show "a = b"
    by (simp only: mult.assoc prime_invertible mult_1_right)
qed simp

lemma xor_left_inj: "(h XOR b) = (h' XOR b) \<longleftrightarrow> h = (h' :: u64)"
proof
  assume "h XOR b = h' XOR b"
  then have "(h XOR b) XOR b = (h' XOR b) XOR b" by (rule arg_cong)
  then show "h = h'" by (simp only: xor.assoc xor_self_eq xor.right_neutral)
qed simp

lemma fnv_step_inj: "(h XOR b) * PRIME = (h' XOR b) * PRIME \<longleftrightarrow> h = h'"
  by (simp only: times_prime_inj xor_left_inj)

lemma fnv1a_inj_state: "fnv1a h xs = fnv1a h' xs \<longleftrightarrow> h = h'"
  by (induction xs arbitrary: h h') (simp_all add: fnv1a_Cons fnv_step_inj)

lemma of_char_u64_inj: "of_char c = (of_char d :: u64) \<longleftrightarrow> c = d"
proof
  assume eq: "of_char c = (of_char d :: u64)"
  have lt: "(of_char e :: nat) < 256" for e
    by (metis mod_less_divisor of_char_mod_256 zero_less_numeral)
  have "(of_nat (of_char c) :: u64) = of_nat (of_char d)"
    using eq by (simp only: of_nat_of_char)
  from arg_cong [OF this, of unat] have "(of_char c :: nat) mod 2 ^ 64 = of_char d mod 2 ^ 64"
    by (simp only: unat_of_nat) simp
  then have "(of_char c :: nat) = of_char d"
    using lt [of c] lt [of d] by simp
  then show "c = d" by (rule of_char_eqI)
qed simp

lemma fnv_byte_inj:
  fixes h :: u64
  shows "(h XOR of_char c) * PRIME = (h XOR of_char d) * PRIME \<longleftrightarrow> c = d"
proof -
  have "(h XOR of_char c) * PRIME = (h XOR of_char d) * PRIME \<longleftrightarrow>
      of_char c XOR h = of_char d XOR h"
    by (simp only: times_prime_inj xor.commute [of h])
  then show ?thesis by (simp only: xor_left_inj of_char_u64_inj)
qed

lemma single_byte_hash_sensitive: "stable_hash (p @ c # s) = stable_hash (p @ d # s) \<longleftrightarrow> c = d"
  by (simp add: stable_hash_def fnv1a_append fnv1a_Cons fnv1a_inj_state fnv_byte_inj)

end
