(* ===== verification/TaskModel.thy ===== *)
theory TaskModel
  imports JobModel Hashing
begin

text \<open>
  Tasks: their kinds, retry policy, output validation, idempotency keys and results
  (\<open>crates/domain/src/task.rs\<close>). The JSON reader is an argument: \<open>from_json\<close> parses a text and
  \<open>object_keys\<close> gives the keys of a value that is an object. \<open>lower\<close> is \<open>str::to_lowercase\<close>.
\<close>

section \<open>Kinds and states\<close>

datatype TaskKind =
  Plan | Subplan | Work | Map | Reduce | Answer | Critique | Verify | Judge | Vote | Merge
| Summarize | Supervise

fun kind_capabilities :: "TaskKind \<Rightarrow> Capability list" where
  "kind_capabilities TaskKind.Plan = [Capability.Planning]"
| "kind_capabilities TaskKind.Subplan = [Capability.Planning]"
| "kind_capabilities TaskKind.Supervise = [Capability.Planning]"
| "kind_capabilities TaskKind.Work = [Capability.Research]"
| "kind_capabilities TaskKind.Map = [Capability.Research]"
| "kind_capabilities TaskKind.Answer = [Capability.Research]"
| "kind_capabilities TaskKind.Reduce = [Capability.Merging]"
| "kind_capabilities TaskKind.Merge = [Capability.Merging]"
| "kind_capabilities TaskKind.Critique = [Capability.Review]"
| "kind_capabilities TaskKind.Verify = [Capability.Verification]"
| "kind_capabilities TaskKind.Vote = [Capability.Verification]"
| "kind_capabilities TaskKind.Judge = [Capability.Review, Capability.Verification]"
| "kind_capabilities TaskKind.Summarize = [Capability.Summarization]"

fun kind_as_str :: "TaskKind \<Rightarrow> string" where
  "kind_as_str TaskKind.Plan = ''plan''"
| "kind_as_str TaskKind.Subplan = ''subplan''"
| "kind_as_str TaskKind.Work = ''work''"
| "kind_as_str TaskKind.Map = ''map''"
| "kind_as_str TaskKind.Reduce = ''reduce''"
| "kind_as_str TaskKind.Answer = ''answer''"
| "kind_as_str TaskKind.Critique = ''critique''"
| "kind_as_str TaskKind.Verify = ''verify''"
| "kind_as_str TaskKind.Judge = ''judge''"
| "kind_as_str TaskKind.Vote = ''vote''"
| "kind_as_str TaskKind.Merge = ''merge''"
| "kind_as_str TaskKind.Summarize = ''summarize''"
| "kind_as_str TaskKind.Supervise = ''supervise''"

fun is_reportable :: "TaskKind \<Rightarrow> bool" where
  "is_reportable k \<longleftrightarrow>
     k \<in> {TaskKind.Work, TaskKind.Map, TaskKind.Reduce, TaskKind.Answer, TaskKind.Judge,
          TaskKind.Merge, TaskKind.Summarize}"

datatype TaskState =
  Created | WaitingForDependency | Queued | Leased | Running | Completed | Failed | TimedOut
| RetryScheduled | Preempted | Cancelled | DeadLettered

fun task_state_as_str :: "TaskState \<Rightarrow> string" where
  "task_state_as_str TaskState.Created = ''created''"
| "task_state_as_str TaskState.WaitingForDependency = ''waiting_for_dependency''"
| "task_state_as_str TaskState.Queued = ''queued''"
| "task_state_as_str TaskState.Leased = ''leased''"
| "task_state_as_str TaskState.Running = ''running''"
| "task_state_as_str TaskState.Completed = ''completed''"
| "task_state_as_str TaskState.Failed = ''failed''"
| "task_state_as_str TaskState.TimedOut = ''timed_out''"
| "task_state_as_str TaskState.RetryScheduled = ''retry_scheduled''"
| "task_state_as_str TaskState.Preempted = ''preempted''"
| "task_state_as_str TaskState.Cancelled = ''cancelled''"
| "task_state_as_str TaskState.DeadLettered = ''dead_lettered''"

fun is_in_flight :: "TaskState \<Rightarrow> bool" where
  "is_in_flight s \<longleftrightarrow> s = TaskState.Leased \<or> s = TaskState.Running"

section \<open>Retry policy\<close>

record RetryPolicy =
  rp_max_attempts :: u32
  rp_backoff_base_ms :: u64
  rp_backoff_max_ms :: u64
  rp_jitter :: bool

definition default_retry_policy :: RetryPolicy where
  "default_retry_policy =
     \<lparr>rp_max_attempts = 3, rp_backoff_base_ms = 500, rp_backoff_max_ms = 60000, rp_jitter = True\<rparr>"

definition no_retries :: RetryPolicy where
  "no_retries =
     \<lparr>rp_max_attempts = 1, rp_backoff_base_ms = 0, rp_backoff_max_ms = 0, rp_jitter = False\<rparr>"

definition allows_retry :: "RetryPolicy \<Rightarrow> u32 \<Rightarrow> bool" where
  "allows_retry p attempts_used \<longleftrightarrow> attempts_used < rp_max_attempts p"

definition backoff_ms :: "RetryPolicy \<Rightarrow> u32 \<Rightarrow> u64 \<Rightarrow> u64" where
  "backoff_ms p attempt nonce =
     (if rp_backoff_base_ms p = 0 then 0
      else
        let shift = (if attempt > 20 then 20 else saturating_sub attempt 1);
            raw = saturating_mul (rp_backoff_base_ms p) (push_bit (unat shift) 1);
            capped = (if raw > rp_backoff_max_ms p then rp_backoff_max_ms p else raw)
        in if \<not> rp_jitter p \<or> capped = 0 then capped
           else let half = capped div 2 in half + nonce mod (capped - half + 1))"

section \<open>Validation of outputs\<close>

datatype ValidationRule =
  NonEmpty | MinWords nat | MustMention string | RequiredJsonKeys "string list"

fun check ::
  "(string \<Rightarrow> string) \<Rightarrow> (string \<Rightarrow> string + 'v) \<Rightarrow> ('v \<Rightarrow> string list option) \<Rightarrow>
   ValidationRule \<Rightarrow> string \<Rightarrow> string option" where
  "check lower from_json object_keys NonEmpty output =
     (if trim output = [] then Some ''output is empty'' else None)"
| "check lower from_json object_keys (MinWords minimum) output =
     (let words = length (split_whitespace output) in
      if words < minimum
      then Some (''output has '' @ dec words @ '' words, needs '' @ dec minimum) else None)"
| "check lower from_json object_keys (MustMention needle) output =
     (if \<not> str_contains (lower output) (lower needle)
      then Some (''output does not mention `'' @ needle @ ''`'') else None)"
| "check lower from_json object_keys (RequiredJsonKeys keys) output =
     (case from_json output of
        Inr v \<Rightarrow>
          (case object_keys v of
             Some present \<Rightarrow>
               (let missing = filter (\<lambda>key. key \<notin> set present) keys in
                if missing \<noteq> []
                then Some (''JSON output is missing keys: '' @ str_join '', '' missing) else None)
           | None \<Rightarrow> Some ''output is JSON but not an object'')
      | Inl e \<Rightarrow> Some (''output is not valid JSON: '' @ e))"

definition validate_output ::
  "(string \<Rightarrow> string) \<Rightarrow> (string \<Rightarrow> string + 'v) \<Rightarrow> ('v \<Rightarrow> string list option) \<Rightarrow>
   string \<Rightarrow> ValidationRule list \<Rightarrow> string list" where
  "validate_output lower from_json object_keys output rules =
     List.map_filter (\<lambda>rule. check lower from_json object_keys rule output) rules"

section \<open>Task nodes\<close>

record TaskNode =
  tn_id :: TaskId
  tn_job_id :: JobId
  tn_title :: string
  tn_description :: string
  tn_kind :: TaskKind
  tn_dependencies :: "TaskId list"
  tn_required_capabilities :: "Capability list"
  tn_estimated_complexity :: u32
  tn_estimated_tokens :: "u64 option"
  tn_retry_policy :: RetryPolicy
  tn_timeout_seconds :: u64
  tn_state :: TaskState
  tn_attempt :: u32
  tn_stage :: u32
  tn_idempotency_key :: string
  tn_validation :: "ValidationRule list"

text \<open>
  The loop of \<open>slug\<close>, over bytes: a non-ASCII character pushes one dash for its first byte, and
  the dash just pushed makes its other bytes push none, as the loop over characters does.
\<close>

fun slug_loop :: "string \<Rightarrow> bool \<Rightarrow> string \<Rightarrow> string" where
  "slug_loop out last_dash [] = out"
| "slug_loop out last_dash (ch # rest) =
     (let (out', last_dash') =
        (if is_ascii_alphanumeric ch then (out @ [to_ascii_lowercase ch], False)
         else if \<not> last_dash \<and> out \<noteq> [] then (out @ ''-'', True)
         else (out, last_dash))
      in if 48 \<le> length out' then out' else slug_loop out' last_dash' rest)"

definition pop_dashes :: "string \<Rightarrow> string" where
  "pop_dashes out = rev (dropWhile (\<lambda>c. c = CHR ''-'') (rev out))"

definition slug :: "string \<Rightarrow> string" where
  "slug input = pop_dashes (slug_loop [] False input)"

definition new_task ::
  "(uuid \<Rightarrow> string) \<Rightarrow> TaskId \<Rightarrow> JobId \<Rightarrow> TaskKind \<Rightarrow> string \<Rightarrow> string \<Rightarrow> u32 \<Rightarrow> TaskNode" where
  "new_task disp fresh_id job_id kind title description stage =
     \<lparr>tn_id = fresh_id, tn_job_id = job_id, tn_title = title, tn_description = description,
      tn_kind = kind, tn_dependencies = [], tn_required_capabilities = kind_capabilities kind,
      tn_estimated_complexity = 1, tn_estimated_tokens = None,
      tn_retry_policy = default_retry_policy, tn_timeout_seconds = 300,
      tn_state = TaskState.Created, tn_attempt = 0, tn_stage = stage,
      tn_idempotency_key =
        disp job_id @ '':'' @ dec (unat stage) @ '':'' @ kind_as_str kind @ '':'' @ slug title @
        '':'' @ hex16 (stable_hash title),
      tn_validation = [NonEmpty]\<rparr>"

definition with_dependencies :: "TaskId list \<Rightarrow> TaskNode \<Rightarrow> TaskNode" where
  "with_dependencies ds t = t\<lparr>tn_dependencies := ds\<rparr>"

definition with_validation :: "ValidationRule list \<Rightarrow> TaskNode \<Rightarrow> TaskNode" where
  "with_validation vs t = t\<lparr>tn_validation := vs\<rparr>"

definition with_complexity :: "u32 \<Rightarrow> TaskNode \<Rightarrow> TaskNode" where
  "with_complexity complexity t =
     (let c = max complexity 1 in
      t\<lparr>tn_estimated_complexity := c, tn_estimated_tokens := Some (ucast c * 400)\<rparr>)"

definition with_retry_policy :: "RetryPolicy \<Rightarrow> TaskNode \<Rightarrow> TaskNode" where
  "with_retry_policy p t = t\<lparr>tn_retry_policy := p\<rparr>"

definition with_timeout_seconds :: "u64 \<Rightarrow> TaskNode \<Rightarrow> TaskNode" where
  "with_timeout_seconds s t = t\<lparr>tn_timeout_seconds := s\<rparr>"

definition requiring :: "Capability list \<Rightarrow> TaskNode \<Rightarrow> TaskNode" where
  "requiring extra t =
     fold (\<lambda>c t. if c \<in> set (tn_required_capabilities t) then t
                 else t\<lparr>tn_required_capabilities := tn_required_capabilities t @ [c]\<rparr>) extra t"

definition node_is_terminal :: "TaskNode \<Rightarrow> bool" where
  "node_is_terminal t \<longleftrightarrow>
     tn_state t \<in> {TaskState.Completed, TaskState.Cancelled, TaskState.DeadLettered}"

definition dependencies_satisfied :: "TaskNode \<Rightarrow> TaskId set \<Rightarrow> bool" where
  "dependencies_satisfied t completed = list_all (\<lambda>d. d \<in> completed) (tn_dependencies t)"

definition attempt_key :: "TaskNode \<Rightarrow> string" where
  "attempt_key t = tn_idempotency_key t @ ''#'' @ dec (unat (tn_attempt t))"

record 'v TaskResult =
  tr_task_id :: TaskId
  tr_job_id :: JobId
  tr_agent_id :: AgentId
  tr_attempt :: u32
  tr_kind :: TaskKind
  tr_title :: string
  tr_output :: string
  tr_structured :: 'v
  tr_evidence :: "Evidence list"
  tr_reasoning_summary :: string
  tr_confidence :: real
  tr_validation_failures :: "string list"
  tr_tokens_in :: u64
  tr_tokens_out :: u64
  tr_cost_usd :: real
  tr_duration_ms :: u64
  tr_deduplicated :: bool
  tr_finished_at :: DateTime

definition passed_validation :: "'v TaskResult \<Rightarrow> bool" where
  "passed_validation r \<longleftrightarrow> tr_validation_failures r = []"

record TaskFailure =
  tf_task_id :: TaskId
  tf_title :: string
  tf_attempt :: u32
  tf_error_kind :: string
  tf_error_message :: string
  tf_dead_lettered :: bool
  tf_validation_failures :: "string list"
  tf_at :: DateTime

record 'v Checkpoint =
  cp_task_id :: TaskId
  cp_attempt :: u32
  cp_seq :: u32
  cp_label :: string
  cp_state :: 'v
  cp_created_at :: DateTime

definition new_checkpoint ::
  "DateTime \<Rightarrow> TaskId \<Rightarrow> u32 \<Rightarrow> u32 \<Rightarrow> string \<Rightarrow> 'v \<Rightarrow> 'v Checkpoint" where
  "new_checkpoint now task_id attempt seq label state =
     \<lparr>cp_task_id = task_id, cp_attempt = attempt, cp_seq = seq, cp_label = label,
      cp_state = state, cp_created_at = now\<rparr>"

section \<open>Backoff\<close>

definition backoff_cap :: "RetryPolicy \<Rightarrow> nat \<Rightarrow> nat" where
  "backoff_cap p a =
     min (unat (rp_backoff_base_ms p) * 2 ^ min 20 (a - 1)) (unat (rp_backoff_max_ms p))"

text \<open>
  The reference formula: the base doubled per attempt after the first, at most twenty times,
  capped by the policy's ceiling. It never wraps, because the multiplication saturates.
\<close>

lemma unat_push_bit_one: "n \<le> 20 \<Longrightarrow> unat (push_bit n (1 :: u64)) = 2 ^ n"
proof -
  assume "n \<le> 20"
  then have "(2 :: nat) ^ n < 2 ^ 64" by (intro power_strict_increasing) auto
  moreover have "push_bit n (1 :: u64) = of_nat (2 ^ n)" by (simp add: push_bit_eq_mult)
  ultimately show ?thesis by (simp only: unat_of_nat) simp
qed

lemma unat_min_if: "unat (if b < a then b else a) = min (unat a) (unat (b :: 'a::len word))"
  by (auto simp: word_less_nat_alt)

lemma shift_unat:
  "unat (if (a :: u32) > 20 then 20 else saturating_sub a 1) = min 20 (unat a - 1)"
  by (auto simp: unat_saturating_sub word_less_nat_alt)

lemma backoff_plain:
  assumes "\<not> rp_jitter p"
  shows "unat (backoff_ms p attempt nonce) = backoff_cap p (unat attempt)"
proof -
  let ?sh = "if attempt > 20 then 20 else saturating_sub attempt 1"
  let ?raw = "saturating_mul (rp_backoff_base_ms p) (push_bit (unat ?sh) 1)"
  have "unat ?sh \<le> 20" by (simp only: shift_unat min.cobounded1)
  then have raw: "unat ?raw =
      min (unat (rp_backoff_base_ms p) * 2 ^ min 20 (unat attempt - 1)) (2 ^ 64 - 1)"
    unfolding unat_saturating_mul by (simp only: unat_push_bit_one) (simp only: shift_unat, simp)
  have lt: "unat (rp_backoff_max_ms p) \<le> 2 ^ 64 - 1"
    using unsigned_less [of "rp_backoff_max_ms p", where 'a = nat] by simp
  have "unat (backoff_ms p attempt nonce) =
      (if rp_backoff_base_ms p = 0 then 0 else min (unat ?raw) (unat (rp_backoff_max_ms p)))"
    using assms by (simp add: backoff_ms_def Let_def unat_min_if)
  also have "\<dots> = backoff_cap p (unat attempt)"
    using lt unfolding raw by (auto simp: backoff_cap_def min_def)
  finally show ?thesis .
qed

lemma jitter_window:
  assumes "capped \<noteq> (0 :: u64)"
  shows "unat (capped div 2) \<le> unat (capped div 2 + nonce mod (capped - capped div 2 + 1))"
    and "unat (capped div 2 + nonce mod (capped - capped div 2 + 1)) \<le> unat capped"
proof -
  let ?c = "unat capped"
  have c: "?c < 2 ^ 64" "0 < ?c" using unsigned_less [of capped] assms by (simp_all add: unat_gt_0)
  have half: "unat (capped div 2) = ?c div 2" by (simp add: unat_div)
  have "unat (capped - capped div 2) = ?c - ?c div 2"
    by (simp add: unat_sub_if' half)
  then have m: "unat (capped - capped div 2 + 1) = ?c - ?c div 2 + 1"
    using c by (subst unat_add_lem [THEN iffD1]) auto
  have r: "unat (nonce mod (capped - capped div 2 + 1)) \<le> ?c - ?c div 2"
    using mod_less_divisor [of "?c - ?c div 2 + 1" "unat nonce"] by (simp add: unat_mod m)
  have "unat (capped div 2 + nonce mod (capped - capped div 2 + 1)) =
      ?c div 2 + unat (nonce mod (capped - capped div 2 + 1))"
    using c r by (subst unat_add_lem [THEN iffD1]) (auto simp: half)
  with r show "unat (capped div 2) \<le> unat (capped div 2 + nonce mod (capped - capped div 2 + 1))"
    "unat (capped div 2 + nonce mod (capped - capped div 2 + 1)) \<le> ?c"
    by (simp_all add: half)
qed

lemma backoff_jitter:
  "unat (backoff_ms p attempt nonce) \<in>
     {backoff_cap p (unat attempt) div 2 .. backoff_cap p (unat attempt)}"
proof (cases "rp_jitter p")
  case False
  then show ?thesis by (simp add: backoff_plain)
next
  case True
  let ?capped = "backoff_ms (p\<lparr>rp_jitter := False\<rparr>) attempt 0"
  have cap: "unat ?capped = backoff_cap p (unat attempt)"
    by (simp add: backoff_plain backoff_cap_def)
  have "backoff_ms p attempt nonce =
      (if ?capped = 0 then ?capped else ?capped div 2 + nonce mod (?capped - ?capped div 2 + 1))"
    using True by (auto simp: backoff_ms_def Let_def)
  then show ?thesis
    using jitter_window [of ?capped nonce] cap by (auto simp: unat_div)
qed

lemma backoff_cap_mono: "a \<le> b \<Longrightarrow> backoff_cap p a \<le> backoff_cap p b"
  unfolding backoff_cap_def by (intro min.mono mult_le_mono power_increasing) auto

section \<open>Keys\<close>

lemma kind_as_str_inject: "kind_as_str k = kind_as_str l \<longleftrightarrow> k = l"
  by (cases k; cases l) simp_all

lemma colon_free:
  "CHR '':'' \<notin> set (dec n)" "CHR '':'' \<notin> set (kind_as_str k)" "CHR '':'' \<notin> set (hex16 w)"
proof -
  have colon: "CHR '':'' \<notin> hex_alphabet" by (simp add: hex_alphabet_def)
  show "CHR '':'' \<notin> set (dec n)" using dec_chars [of n] colon by blast
  show "CHR '':'' \<notin> set (hex16 w)"
    unfolding hex16_def using hex_digits_chars [of 16 "unat w"] colon by blast
  show "CHR '':'' \<notin> set (kind_as_str k)" by (cases k) simp_all
qed

lemma hash_sign_free: "CHR ''#'' \<notin> set (dec n)"
proof -
  have "CHR ''#'' \<notin> hex_alphabet" by (simp add: hex_alphabet_def)
  with dec_chars [of n] show ?thesis by blast
qed

lemma attempt_key_eq_iff:
  "attempt_key t = attempt_key u \<longleftrightarrow>
     tn_idempotency_key t = tn_idempotency_key u \<and> tn_attempt t = tn_attempt u"
  by (simp add: attempt_key_def append_sep_inject_last hash_sign_free dec_inject word_unat_eq_iff)

definition slug_char :: "char \<Rightarrow> bool" where
  "slug_char c \<longleftrightarrow> is_ascii_alphanumeric c \<or> c = CHR ''-''"

lemma slug_loop_props:
  "length out \<le> 47 \<Longrightarrow> list_all slug_char out \<Longrightarrow>
   length (slug_loop out b s) \<le> 48 \<and> list_all slug_char (slug_loop out b s)"
proof (induction s arbitrary: out b)
  case (Cons ch rest)
  have "is_ascii_alphanumeric ch \<Longrightarrow> slug_char (to_ascii_lowercase ch)"
    by (simp add: slug_char_def to_ascii_lowercase_alnum)
  moreover have "slug_char (CHR ''-'')" by (simp add: slug_char_def)
  ultimately show ?case
    using Cons.prems by (simp add: Let_def Cons.IH)
qed simp

lemma pop_dashes_prefix: "\<exists>ds. out = pop_dashes out @ ds"
  unfolding pop_dashes_def
  by (metis rev_append rev_rev_ident takeWhile_dropWhile_id)

lemma pop_dashes_last: "pop_dashes out \<noteq> [] \<Longrightarrow> last (pop_dashes out) \<noteq> CHR ''-''"
  unfolding pop_dashes_def
  by (metis (mono_tags, lifting) hd_dropWhile last_rev rev.simps(1))

lemma slug_props:
  shows "length (slug s) \<le> 48" and "list_all slug_char (slug s)"
    and "slug s \<noteq> [] \<Longrightarrow> last (slug s) \<noteq> CHR ''-''"
proof -
  obtain ds where ds: "slug_loop [] False s = slug s @ ds"
    using pop_dashes_prefix unfolding slug_def by blast
  then show "length (slug s) \<le> 48" "list_all slug_char (slug s)"
    using slug_loop_props [of "[]" False s] by simp_all
  show "slug s \<noteq> [] \<Longrightarrow> last (slug s) \<noteq> CHR ''-''" unfolding slug_def by (rule pop_dashes_last)
qed

lemma slug_colon_free: "CHR '':'' \<notin> set (slug s)"
proof -
  have "\<not> slug_char (CHR '':'')" by (simp add: slug_char_def is_ascii_alphanumeric_def)
  with slug_props(2) [of s] show ?thesis unfolding list_all_iff by blast
qed

text \<open>
  A task's key determines its job, stage, kind, and the slug and hash of its title; the fresh
  identifier does not enter it, so a rebuilt task has the key of the original.
\<close>

context uuid_text
begin

lemma idempotency_key_eq_iff:
  "tn_idempotency_key (new_task disp i job kind title d stage) =
     tn_idempotency_key (new_task disp i' job' kind' title' d' stage') \<longleftrightarrow>
   job = job' \<and> stage = stage' \<and> kind = kind' \<and> slug title = slug title' \<and>
   stable_hash title = stable_hash title'"
  by (simp add: new_task_def append_sep_inject_first disp_no_sep disp_inj colon_free
      slug_colon_free dec_inject kind_as_str_inject hex16_inject word_unat_eq_iff)

end

section \<open>Validation\<close>

text \<open>An output passes exactly when every rule accepts it; an empty one never passes the default.\<close>

lemma validate_output_Nil_iff:
  "validate_output lower fj ok out rules = [] \<longleftrightarrow> (\<forall>r \<in> set rules. check lower fj ok r out = None)"
  by (induction rules) (auto simp: validate_output_def List.map_filter_def split: option.splits)

lemma requiring_caps:
  "set (tn_required_capabilities (requiring extra t)) = set (tn_required_capabilities t) \<union> set extra"
  by (induction extra arbitrary: t) (auto simp: requiring_def)

lemma requiring_distinct:
  "distinct (tn_required_capabilities t) \<Longrightarrow> distinct (tn_required_capabilities (requiring extra t))"
  by (induction extra arbitrary: t) (auto simp: requiring_def)

end
