(* ===== verification/Lifecycle.thy ===== *)
theory Lifecycle
  imports TaskModel
begin

text \<open>
  The state machines of jobs, tasks, leases, agents and nodes (\<open>crates/domain/src/state.rs\<close>).
  The trait \<open>StateMachine\<close> is a record of what an implementation supplies (\<open>ENTITY\<close>,
  \<open>allowed\<close> and the derived \<open>Debug\<close>); its provided methods are functions of that record.
\<close>

record 's StateMachine =
  sm_entity :: string
  sm_allowed :: "'s \<Rightarrow> 's list"
  sm_debug :: "'s \<Rightarrow> string"

definition is_terminal :: "'s StateMachine \<Rightarrow> 's \<Rightarrow> bool" where
  "is_terminal m s \<longleftrightarrow> sm_allowed m s = []"

definition can_transition_to :: "'s StateMachine \<Rightarrow> 's \<Rightarrow> 's \<Rightarrow> bool" where
  "can_transition_to m s t \<longleftrightarrow> t \<in> set (sm_allowed m s)"

definition transition :: "'s StateMachine \<Rightarrow> 's \<Rightarrow> 's \<Rightarrow> 's result" where
  "transition m s t =
     (if can_transition_to m s t then Ok t
      else Err (InvalidTransition (sm_entity m) (sm_debug m s) (sm_debug m t)))"

record 's Transition =
  t_entity :: string
  t_from :: "'s option"
  t_to :: 's
  t_actor :: string
  t_reason :: "string option"
  t_term :: "u64 option"
  t_correlation_id :: CorrelationId
  t_at :: DateTime

definition new_transition ::
  "'s StateMachine \<Rightarrow> DateTime \<Rightarrow> 's option \<Rightarrow> 's \<Rightarrow> string \<Rightarrow> string option \<Rightarrow> CorrelationId \<Rightarrow>
   's Transition" where
  "new_transition m now src dst actor reason correlation_id =
     \<lparr>t_entity = sm_entity m, t_from = src, t_to = dst, t_actor = actor, t_reason = reason,
      t_term = None, t_correlation_id = correlation_id, t_at = now\<rparr>"

definition with_term :: "u64 \<Rightarrow> 's Transition \<Rightarrow> 's Transition" where
  "with_term term t = t\<lparr>t_term := Some term\<rparr>"

definition apply_transition ::
  "'s StateMachine \<Rightarrow> DateTime \<Rightarrow> 's \<Rightarrow> 's \<Rightarrow> string \<Rightarrow> string option \<Rightarrow> CorrelationId \<Rightarrow>
   ('s \<times> 's Transition) result" where
  "apply_transition m now current dst actor reason correlation_id =
     bindR (transition m current dst) (\<lambda>next.
       Ok (next, new_transition m now (Some current) next actor reason correlation_id))"

section \<open>The five machines\<close>

datatype LeaseState = Held | Extended | Released | Rejected | Expired

fun lease_is_active :: "LeaseState \<Rightarrow> bool" where
  "lease_is_active s \<longleftrightarrow> s = LeaseState.Held \<or> s = LeaseState.Extended"

fun lease_allowed :: "LeaseState \<Rightarrow> LeaseState list" where
  "lease_allowed LeaseState.Held =
     [LeaseState.Extended, LeaseState.Released, LeaseState.Rejected, LeaseState.Expired]"
| "lease_allowed LeaseState.Extended =
     [LeaseState.Extended, LeaseState.Released, LeaseState.Rejected, LeaseState.Expired]"
| "lease_allowed LeaseState.Released = []"
| "lease_allowed LeaseState.Rejected = []"
| "lease_allowed LeaseState.Expired = []"

fun lease_debug :: "LeaseState \<Rightarrow> string" where
  "lease_debug LeaseState.Held = ''Held''"
| "lease_debug LeaseState.Extended = ''Extended''"
| "lease_debug LeaseState.Released = ''Released''"
| "lease_debug LeaseState.Rejected = ''Rejected''"
| "lease_debug LeaseState.Expired = ''Expired''"

definition lease_machine :: "LeaseState StateMachine" where
  "lease_machine = \<lparr>sm_entity = ''lease'', sm_allowed = lease_allowed, sm_debug = lease_debug\<rparr>"

fun task_allowed :: "TaskState \<Rightarrow> TaskState list" where
  "task_allowed TaskState.Created =
     [TaskState.Queued, TaskState.WaitingForDependency, TaskState.Cancelled]"
| "task_allowed TaskState.WaitingForDependency = [TaskState.Queued, TaskState.Cancelled]"
| "task_allowed TaskState.Queued = [TaskState.Leased, TaskState.Cancelled, TaskState.Preempted]"
| "task_allowed TaskState.Leased = [TaskState.Running, TaskState.Queued, TaskState.Cancelled]"
| "task_allowed TaskState.Running =
     [TaskState.Completed, TaskState.Failed, TaskState.TimedOut, TaskState.WaitingForDependency,
      TaskState.Cancelled]"
| "task_allowed TaskState.Failed = [TaskState.RetryScheduled, TaskState.DeadLettered]"
| "task_allowed TaskState.TimedOut = [TaskState.RetryScheduled, TaskState.DeadLettered]"
| "task_allowed TaskState.RetryScheduled = [TaskState.Queued, TaskState.Cancelled]"
| "task_allowed TaskState.Preempted = [TaskState.Queued, TaskState.Cancelled]"
| "task_allowed TaskState.Completed = []"
| "task_allowed TaskState.Cancelled = []"
| "task_allowed TaskState.DeadLettered = []"

fun task_debug :: "TaskState \<Rightarrow> string" where
  "task_debug TaskState.Created = ''Created''"
| "task_debug TaskState.WaitingForDependency = ''WaitingForDependency''"
| "task_debug TaskState.Queued = ''Queued''"
| "task_debug TaskState.Leased = ''Leased''"
| "task_debug TaskState.Running = ''Running''"
| "task_debug TaskState.Completed = ''Completed''"
| "task_debug TaskState.Failed = ''Failed''"
| "task_debug TaskState.TimedOut = ''TimedOut''"
| "task_debug TaskState.RetryScheduled = ''RetryScheduled''"
| "task_debug TaskState.Preempted = ''Preempted''"
| "task_debug TaskState.Cancelled = ''Cancelled''"
| "task_debug TaskState.DeadLettered = ''DeadLettered''"

definition task_machine :: "TaskState StateMachine" where
  "task_machine = \<lparr>sm_entity = ''task'', sm_allowed = task_allowed, sm_debug = task_debug\<rparr>"

fun job_allowed :: "JobStatus \<Rightarrow> JobStatus list" where
  "job_allowed JobStatus.Submitted =
     [JobStatus.Admitted, JobStatus.Rejected, JobStatus.Cancelled]"
| "job_allowed JobStatus.Admitted = [JobStatus.Planning, JobStatus.Failed, JobStatus.Cancelled]"
| "job_allowed JobStatus.Planning = [JobStatus.Running, JobStatus.Failed, JobStatus.Cancelled]"
| "job_allowed JobStatus.Running =
     [JobStatus.Paused, JobStatus.Aggregating, JobStatus.Failed, JobStatus.Cancelled]"
| "job_allowed JobStatus.Paused = [JobStatus.Running, JobStatus.Cancelled]"
| "job_allowed JobStatus.Aggregating =
     [JobStatus.Completed, JobStatus.PartiallyCompleted, JobStatus.Failed, JobStatus.Cancelled]"
| "job_allowed JobStatus.Failed = [JobStatus.Running, JobStatus.Cancelled]"
| "job_allowed JobStatus.PartiallyCompleted = [JobStatus.Running, JobStatus.Cancelled]"
| "job_allowed JobStatus.Completed = []"
| "job_allowed JobStatus.Cancelled = []"
| "job_allowed JobStatus.Rejected = []"

fun job_debug :: "JobStatus \<Rightarrow> string" where
  "job_debug JobStatus.Submitted = ''Submitted''"
| "job_debug JobStatus.Admitted = ''Admitted''"
| "job_debug JobStatus.Rejected = ''Rejected''"
| "job_debug JobStatus.Planning = ''Planning''"
| "job_debug JobStatus.Running = ''Running''"
| "job_debug JobStatus.Paused = ''Paused''"
| "job_debug JobStatus.Aggregating = ''Aggregating''"
| "job_debug JobStatus.Completed = ''Completed''"
| "job_debug JobStatus.PartiallyCompleted = ''PartiallyCompleted''"
| "job_debug JobStatus.Failed = ''Failed''"
| "job_debug JobStatus.Cancelled = ''Cancelled''"

definition job_machine :: "JobStatus StateMachine" where
  "job_machine = \<lparr>sm_entity = ''job'', sm_allowed = job_allowed, sm_debug = job_debug\<rparr>"

fun agent_allowed :: "AgentStatus \<Rightarrow> AgentStatus list" where
  "agent_allowed AgentStatus.Created = [AgentStatus.Registered, AgentStatus.Terminated]"
| "agent_allowed AgentStatus.Registered =
     [AgentStatus.Idle, AgentStatus.Assigned, AgentStatus.Terminated]"
| "agent_allowed AgentStatus.Idle = [AgentStatus.Assigned, AgentStatus.Terminated]"
| "agent_allowed AgentStatus.Assigned =
     [AgentStatus.Running, AgentStatus.Idle, AgentStatus.Terminated]"
| "agent_allowed AgentStatus.Running =
     [AgentStatus.Waiting, AgentStatus.Completed, AgentStatus.Failed, AgentStatus.Terminated]"
| "agent_allowed AgentStatus.Waiting =
     [AgentStatus.Running, AgentStatus.Failed, AgentStatus.Terminated]"
| "agent_allowed AgentStatus.Completed = [AgentStatus.Idle, AgentStatus.Terminated]"
| "agent_allowed AgentStatus.Failed =
     [AgentStatus.Retrying, AgentStatus.Idle, AgentStatus.Terminated]"
| "agent_allowed AgentStatus.Retrying =
     [AgentStatus.Running, AgentStatus.Failed, AgentStatus.Terminated]"
| "agent_allowed AgentStatus.Terminated = []"

fun agent_debug :: "AgentStatus \<Rightarrow> string" where
  "agent_debug AgentStatus.Created = ''Created''"
| "agent_debug AgentStatus.Registered = ''Registered''"
| "agent_debug AgentStatus.Idle = ''Idle''"
| "agent_debug AgentStatus.Assigned = ''Assigned''"
| "agent_debug AgentStatus.Running = ''Running''"
| "agent_debug AgentStatus.Waiting = ''Waiting''"
| "agent_debug AgentStatus.Completed = ''Completed''"
| "agent_debug AgentStatus.Failed = ''Failed''"
| "agent_debug AgentStatus.Retrying = ''Retrying''"
| "agent_debug AgentStatus.Terminated = ''Terminated''"

definition agent_machine :: "AgentStatus StateMachine" where
  "agent_machine = \<lparr>sm_entity = ''agent'', sm_allowed = agent_allowed, sm_debug = agent_debug\<rparr>"

fun node_allowed :: "NodeStatus \<Rightarrow> NodeStatus list" where
  "node_allowed NodeStatus.Joining = [NodeStatus.Ready, NodeStatus.Removed]"
| "node_allowed NodeStatus.Ready =
     [NodeStatus.Degraded, NodeStatus.Draining, NodeStatus.Unreachable]"
| "node_allowed NodeStatus.Degraded =
     [NodeStatus.Ready, NodeStatus.Draining, NodeStatus.Unreachable]"
| "node_allowed NodeStatus.Draining = [NodeStatus.Removed, NodeStatus.Ready]"
| "node_allowed NodeStatus.Unreachable = [NodeStatus.Ready, NodeStatus.Removed]"
| "node_allowed NodeStatus.Removed = []"

fun node_debug :: "NodeStatus \<Rightarrow> string" where
  "node_debug NodeStatus.Joining = ''Joining''"
| "node_debug NodeStatus.Ready = ''Ready''"
| "node_debug NodeStatus.Degraded = ''Degraded''"
| "node_debug NodeStatus.Draining = ''Draining''"
| "node_debug NodeStatus.Unreachable = ''Unreachable''"
| "node_debug NodeStatus.Removed = ''Removed''"

definition node_machine :: "NodeStatus StateMachine" where
  "node_machine = \<lparr>sm_entity = ''node'', sm_allowed = node_allowed, sm_debug = node_debug\<rparr>"

section \<open>Walks\<close>

text \<open>
  A history of accepted transitions: \<open>walk m s path t\<close> when \<open>path\<close> lists the states entered, in
  order, on the way from \<open>s\<close> to \<open>t\<close>.
\<close>

inductive walk :: "'s StateMachine \<Rightarrow> 's \<Rightarrow> 's list \<Rightarrow> 's \<Rightarrow> bool" for m where
  walk_refl: "walk m s [] s"
| walk_step: "walk m s path t \<Longrightarrow> transition m t u = Ok u' \<Longrightarrow> walk m s (path @ [u']) u'"

inductive_cases walk_snocE: "walk m s (path @ [u]) t"
inductive_simps walk_Nil_iff [simp]: "walk m s [] t"

text \<open>\<open>apply_all\<close> drives one entity through a list of requests, collecting the audit records.\<close>

fun apply_all ::
  "'s StateMachine \<Rightarrow> 's \<Rightarrow> (DateTime \<times> 's \<times> string \<times> string option \<times> CorrelationId) list \<Rightarrow>
   ('s \<times> 's Transition list) result" where
  "apply_all m s [] = Ok (s, [])"
| "apply_all m s ((now, dst, actor, reason, corr) # reqs) =
     bindR (apply_transition m now s dst actor reason corr) (\<lambda>(s', t).
       bindR (apply_all m s' reqs) (\<lambda>(s'', ts). Ok (s'', t # ts)))"

text \<open>A trail is contiguous when each record starts where the previous one ended.\<close>

fun contiguous :: "'s \<Rightarrow> 's Transition list \<Rightarrow> 's \<Rightarrow> bool" where
  "contiguous s [] e \<longleftrightarrow> s = e"
| "contiguous s (t # ts) e \<longleftrightarrow> t_from t = Some s \<and> contiguous (t_to t) ts e"

lemma walk_trans: "walk m t q u \<Longrightarrow> walk m s p t \<Longrightarrow> walk m s (p @ q) u"
proof (induction rule: walk.induct)
  case (walk_step t q v u u')
  then show ?case by (metis append_assoc walk.walk_step)
qed simp

lemma walk_one: "t \<in> set (sm_allowed m s) \<Longrightarrow> walk m s [t] t"
  using walk.walk_step [OF walk_refl, of m s t t] by (simp add: transition_def can_transition_to_def)

lemma walk_Cons: "t \<in> set (sm_allowed m s) \<Longrightarrow> walk m t q u \<Longrightarrow> walk m s (t # q) u"
  using walk_trans [OF _ walk_one] by fastforce

lemma walk_last_step:
  "walk m s path t \<Longrightarrow> t \<noteq> s \<Longrightarrow>
   \<exists>p u. path = p @ [t] \<and> walk m s p u \<and> t \<in> set (sm_allowed m u)"
  by (induction rule: walk.induct)
    (auto simp: transition_def can_transition_to_def split: if_splits)

lemma apply_all_trail:
  "apply_all m s reqs = Ok (e, ts) \<Longrightarrow>
     contiguous s ts e \<and> walk m s (map t_to ts) e \<and> length ts = length reqs \<and>
     (\<forall>t \<in> set ts. t_entity t = sm_entity m)"
proof (induction m s reqs arbitrary: e ts rule: apply_all.induct)
  case (2 m s now dst actor reason corr reqs)
  from "2.prems" obtain ts' where tr: "dst \<in> set (sm_allowed m s)"
    and rest: "apply_all m dst reqs = Ok (e, ts')"
    and ts: "ts = new_transition m now (Some s) dst actor reason corr # ts'"
    by (auto simp: bindR_eq_Inr_iff apply_transition_def transition_def can_transition_to_def
        split: if_splits)
  have "contiguous dst ts' e \<and> walk m dst (map t_to ts') e \<and> length ts' = length reqs \<and>
      (\<forall>t \<in> set ts'. t_entity t = sm_entity m)"
    using "2.IH" tr rest by (auto simp: apply_transition_def transition_def can_transition_to_def)
  with tr show ?case
    by (auto simp: ts new_transition_def intro: walk_Cons)
qed auto

locale lifecycle =
  fixes m :: "'s StateMachine"
  assumes debug_inject: "sm_debug m s = sm_debug m t \<longleftrightarrow> s = t"
    and edges_distinct: "distinct (sm_allowed m s)"
    and can_finish: "\<exists>path t. walk m s path t \<and> is_terminal m t"
begin

lemma transition_Ok_iff: "transition m s t = Ok u \<longleftrightarrow> u = t \<and> t \<in> set (sm_allowed m s)"
  by (auto simp: transition_def can_transition_to_def)

lemma transition_refused_names_both:
  "transition m s t = Err (InvalidTransition e (sm_debug m s') (sm_debug m t')) \<longleftrightarrow>
   t \<notin> set (sm_allowed m s) \<and> e = sm_entity m \<and> s' = s \<and> t' = t"
  by (auto simp: transition_def can_transition_to_def debug_inject)

lemma terminal_absorbing: "walk m s path t \<Longrightarrow> is_terminal m s \<Longrightarrow> t = s \<and> path = []"
proof (induction rule: walk.induct)
  case (walk_step s path t u u')
  then have "transition m s u = Ok u'" by simp
  with walk_step.prems show ?case by (simp add: transition_Ok_iff is_terminal_def)
qed simp

end

text \<open>The five machines meet the contract.\<close>

lemma walk_by_next:
  assumes "t \<in> set (sm_allowed m s)" "\<exists>path e. walk m t path e \<and> is_terminal m e"
  shows "\<exists>path e. walk m s path e \<and> is_terminal m e"
  using assms walk_Cons by metis

lemma walk_here: "is_terminal m s \<Longrightarrow> \<exists>path e. walk m s path e \<and> is_terminal m e"
  using walk_refl by metis

interpretation lease_lc: lifecycle lease_machine
proof
  fix s t :: LeaseState
  show "sm_debug lease_machine s = sm_debug lease_machine t \<longleftrightarrow> s = t"
    by (cases s; cases t) (simp_all add: lease_machine_def)
  show "distinct (sm_allowed lease_machine s)" by (cases s) (simp_all add: lease_machine_def)
  have fin: "is_terminal lease_machine LeaseState.Released"
    by (simp add: is_terminal_def lease_machine_def)
  show "\<exists>path t. walk lease_machine s path t \<and> is_terminal lease_machine t"
  proof (cases "is_terminal lease_machine s")
    case False
    then have "LeaseState.Released \<in> set (sm_allowed lease_machine s)"
      by (cases s) (simp_all add: is_terminal_def lease_machine_def)
    then show ?thesis by (rule walk_by_next) (rule walk_here [OF fin])
  qed (rule walk_here)
qed

interpretation task_lc: lifecycle task_machine
proof
  fix s t :: TaskState
  show "sm_debug task_machine s = sm_debug task_machine t \<longleftrightarrow> s = t"
    by (cases s; cases t) (simp_all add: task_machine_def)
  show "distinct (sm_allowed task_machine s)" by (cases s) (simp_all add: task_machine_def)
  have fin: "is_terminal task_machine TaskState.Cancelled"
    "is_terminal task_machine TaskState.DeadLettered"
    by (simp_all add: is_terminal_def task_machine_def)
  show "\<exists>path t. walk task_machine s path t \<and> is_terminal task_machine t"
  proof (cases "is_terminal task_machine s")
    case False
    then have "TaskState.Cancelled \<in> set (sm_allowed task_machine s) \<or>
        TaskState.DeadLettered \<in> set (sm_allowed task_machine s)"
      by (cases s) (simp_all add: is_terminal_def task_machine_def)
    then show ?thesis using walk_by_next walk_here fin by metis
  qed (rule walk_here)
qed

interpretation job_lc: lifecycle job_machine
proof
  fix s t :: JobStatus
  show "sm_debug job_machine s = sm_debug job_machine t \<longleftrightarrow> s = t"
    by (cases s; cases t) (simp_all add: job_machine_def)
  show "distinct (sm_allowed job_machine s)" by (cases s) (simp_all add: job_machine_def)
  have fin: "is_terminal job_machine JobStatus.Cancelled"
    by (simp add: is_terminal_def job_machine_def)
  show "\<exists>path t. walk job_machine s path t \<and> is_terminal job_machine t"
  proof (cases "is_terminal job_machine s")
    case False
    then have "JobStatus.Cancelled \<in> set (sm_allowed job_machine s)"
      by (cases s) (simp_all add: is_terminal_def job_machine_def)
    then show ?thesis by (rule walk_by_next) (rule walk_here [OF fin])
  qed (rule walk_here)
qed

interpretation agent_lc: lifecycle agent_machine
proof
  fix s t :: AgentStatus
  show "sm_debug agent_machine s = sm_debug agent_machine t \<longleftrightarrow> s = t"
    by (cases s; cases t) (simp_all add: agent_machine_def)
  show "distinct (sm_allowed agent_machine s)" by (cases s) (simp_all add: agent_machine_def)
  have fin: "is_terminal agent_machine AgentStatus.Terminated"
    by (simp add: is_terminal_def agent_machine_def)
  show "\<exists>path t. walk agent_machine s path t \<and> is_terminal agent_machine t"
  proof (cases "is_terminal agent_machine s")
    case False
    then have "AgentStatus.Terminated \<in> set (sm_allowed agent_machine s)"
      by (cases s) (simp_all add: is_terminal_def agent_machine_def)
    then show ?thesis by (rule walk_by_next) (rule walk_here [OF fin])
  qed (rule walk_here)
qed

interpretation node_lc: lifecycle node_machine
proof
  fix s t :: NodeStatus
  show "sm_debug node_machine s = sm_debug node_machine t \<longleftrightarrow> s = t"
    by (cases s; cases t) (simp_all add: node_machine_def)
  show "distinct (sm_allowed node_machine s)" by (cases s) (simp_all add: node_machine_def)
  have "walk node_machine NodeStatus.Ready [NodeStatus.Unreachable, NodeStatus.Removed]
      NodeStatus.Removed"
    by (intro walk_Cons walk_refl) (simp_all add: node_machine_def)
  moreover have fin: "is_terminal node_machine NodeStatus.Removed"
    by (simp add: is_terminal_def node_machine_def)
  ultimately have ready: "\<exists>path t. walk node_machine NodeStatus.Ready path t \<and> is_terminal node_machine t"
    by blast
  show "\<exists>path t. walk node_machine s path t \<and> is_terminal node_machine t"
  proof (cases "is_terminal node_machine s \<or> s = NodeStatus.Ready")
    case False
    then have "NodeStatus.Ready \<in> set (sm_allowed node_machine s)"
      by (cases s) (simp_all add: is_terminal_def node_machine_def)
    then show ?thesis by (rule walk_by_next) (rule ready)
  qed (elim disjE; simp add: walk_here ready)
qed

text \<open>Every task that completes was queued, then leased, then running, in that order and with
  nothing in between: no history of accepted transitions reaches \<open>Completed\<close> in another way.\<close>

theorem task_completed_history:
  assumes "walk task_machine TaskState.Created path TaskState.Completed"
  shows "\<exists>pre. path = pre @ [TaskState.Queued, TaskState.Leased, TaskState.Running,
    TaskState.Completed]"
proof -
  obtain p1 s1 where 1: "path = p1 @ [TaskState.Completed]"
    "walk task_machine TaskState.Created p1 s1" "TaskState.Completed \<in> set (task_allowed s1)"
    using walk_last_step [OF assms] by (auto simp: task_machine_def)
  then have s1: "s1 = TaskState.Running" by (cases s1) simp_all
  with 1(2) obtain p2 s2 where 2: "p1 = p2 @ [TaskState.Running]"
    "walk task_machine TaskState.Created p2 s2" "TaskState.Running \<in> set (task_allowed s2)"
    using walk_last_step by (fastforce simp: task_machine_def)
  then have s2: "s2 = TaskState.Leased" by (cases s2) simp_all
  with 2(2) obtain p3 s3 where 3: "p2 = p3 @ [TaskState.Leased]"
    "walk task_machine TaskState.Created p3 s3" "TaskState.Leased \<in> set (task_allowed s3)"
    using walk_last_step by (fastforce simp: task_machine_def)
  then have s3: "s3 = TaskState.Queued" by (cases s3) simp_all
  with 3(2) obtain p4 where "p3 = p4 @ [TaskState.Queued]"
    using walk_last_step by fastforce
  with 1(1) 2(1) 3(1) show ?thesis by simp
qed

theorem task_completed_history_witness:
  "\<exists>pre. [TaskState.WaitingForDependency, TaskState.Queued, TaskState.Leased, TaskState.Running,
     TaskState.Completed] = pre @ [TaskState.Queued, TaskState.Leased, TaskState.Running,
     TaskState.Completed]"
proof (rule task_completed_history)
  show "walk task_machine TaskState.Created [TaskState.WaitingForDependency, TaskState.Queued,
      TaskState.Leased, TaskState.Running, TaskState.Completed] TaskState.Completed"
    by (intro walk_Cons walk_refl) (simp_all add: task_machine_def)
qed

text \<open>finished work stays finished: the only history that starts in a terminal state of a task
  or a job is the empty one, so no transition revives completed, cancelled, dead-lettered or
  rejected work.\<close>

theorem terminal_states_final:
  assumes "is_terminal task_machine s" "is_terminal job_machine j"
  shows "(walk task_machine s p t \<longleftrightarrow> p = [] \<and> t = s) \<and> (walk job_machine j q k \<longleftrightarrow> q = [] \<and> k = j)"
  using assms task_lc.terminal_absorbing job_lc.terminal_absorbing by (auto intro: walk_refl)

theorem terminal_states_final_witness:
  "\<not> walk task_machine TaskState.DeadLettered [TaskState.Queued] TaskState.Queued \<and>
   \<not> walk job_machine JobStatus.Completed [JobStatus.Running] JobStatus.Running"
  using terminal_states_final [of TaskState.DeadLettered JobStatus.Completed "[TaskState.Queued]"
      TaskState.Queued "[JobStatus.Running]" JobStatus.Running]
  by (simp add: is_terminal_def task_machine_def job_machine_def)

text \<open>no lifecycle can get stuck: from every state of a task, job, lease, agent or node some
  history of accepted transitions reaches a terminal state.\<close>

theorem lifecycles_can_finish:
  "(\<exists>p t. walk task_machine s p t \<and> is_terminal task_machine t) \<and>
   (\<exists>p t. walk job_machine j p t \<and> is_terminal job_machine t) \<and>
   (\<exists>p t. walk lease_machine l p t \<and> is_terminal lease_machine t) \<and>
   (\<exists>p t. walk agent_machine a p t \<and> is_terminal agent_machine t) \<and>
   (\<exists>p t. walk node_machine n p t \<and> is_terminal node_machine t)"
  using task_lc.can_finish job_lc.can_finish lease_lc.can_finish agent_lc.can_finish
    node_lc.can_finish by blast

text \<open>a lifecycle driven through \<open>apply\<close> leaves one audit record per change, the records chain
  without gaps from the first state to the current one, and every recorded edge is a legal one.\<close>

theorem apply_all_audited:
  assumes "apply_all m s reqs = Ok (e, ts)"
  shows "contiguous s ts e \<and> walk m s (map t_to ts) e \<and> length ts = length reqs"
  using apply_all_trail [OF assms] by blast

theorem apply_all_audited_witness:
  "contiguous AgentStatus.Idle
     [new_transition agent_machine 5 (Some AgentStatus.Idle) AgentStatus.Assigned ''c'' None 9]
     AgentStatus.Assigned"
proof -
  have "apply_all agent_machine AgentStatus.Idle [(5, AgentStatus.Assigned, ''c'', None, 9)] =
      Ok (AgentStatus.Assigned, [new_transition agent_machine 5 (Some AgentStatus.Idle)
            AgentStatus.Assigned ''c'' None 9])"
    by (simp add: apply_transition_def transition_def can_transition_to_def agent_machine_def)
  from apply_all_audited [OF this] show ?thesis by blast
qed

text \<open>A refused transition and the job machine's only way to complete.\<close>

lemma job_completed_history:
  assumes "walk job_machine JobStatus.Submitted path JobStatus.Completed"
  shows "\<exists>pre. path = pre @ [JobStatus.Running, JobStatus.Aggregating, JobStatus.Completed]"
proof -
  obtain p1 s1 where 1: "path = p1 @ [JobStatus.Completed]"
    "walk job_machine JobStatus.Submitted p1 s1" "JobStatus.Completed \<in> set (job_allowed s1)"
    using walk_last_step [OF assms] by (auto simp: job_machine_def)
  then have s1: "s1 = JobStatus.Aggregating" by (cases s1) simp_all
  with 1(2) obtain p2 s2 where 2: "p1 = p2 @ [JobStatus.Aggregating]"
    "walk job_machine JobStatus.Submitted p2 s2" "JobStatus.Aggregating \<in> set (job_allowed s2)"
    using walk_last_step by (fastforce simp: job_machine_def)
  then have s2: "s2 = JobStatus.Running" by (cases s2) simp_all
  with 2(2) obtain p3 where "p2 = p3 @ [JobStatus.Running]"
    using walk_last_step by fastforce
  with 1(1) 2(1) show ?thesis by simp
qed

end
