(* ===== verification/TaskQueue.thy ===== *)
theory TaskQueue
  imports Lifecycle
begin

text \<open>
  The task queue (\<open>crates/task-queue/src/lib.rs\<close> and \<open>memory.rs\<close>): entries, leases, dead letters
  and the operations of \<open>InMemoryQueue\<close>. Every operation runs under the queue's mutex, so it is
  one atomic function from the state to the state and a result; the clock reading \<open>now\<close> and a
  fresh lease identifier are arguments. The serialised payload has a type \<open>'v\<close> of its own, with
  its encoder and decoder as arguments.
\<close>

section \<open>Entries and leases\<close>

record 'v QueuedTask =
  qt_task_id :: TaskId
  qt_job_id :: JobId
  qt_queue :: string
  qt_priority :: Priority
  qt_payload :: 'v
  qt_idempotency_key :: string
  qt_attempt :: u32
  qt_retry :: RetryPolicy
  qt_required_capabilities :: "Capability list"
  qt_enqueued_at :: DateTime
  qt_available_at :: DateTime
  qt_lease_duration_ms :: u64

definition DEFAULT_QUEUE :: string where "DEFAULT_QUEUE = ''default''"

definition from_task ::
  "(TaskNode \<Rightarrow> string + 'v) \<Rightarrow> DateTime \<Rightarrow> TaskNode \<Rightarrow> Priority \<Rightarrow> u64 \<Rightarrow> 'v QueuedTask result" where
  "from_task to_value now task priority lease_duration_ms =
     (case to_value task of
        Inl e \<Rightarrow> Err (Queue (''payload encode: '' @ e))
      | Inr payload \<Rightarrow>
          Ok \<lparr>qt_task_id = tn_id task, qt_job_id = tn_job_id task, qt_queue = DEFAULT_QUEUE,
              qt_priority = priority, qt_payload = payload,
              qt_idempotency_key = attempt_key task, qt_attempt = tn_attempt task,
              qt_retry = tn_retry_policy task,
              qt_required_capabilities = tn_required_capabilities task,
              qt_enqueued_at = now, qt_available_at = now,
              qt_lease_duration_ms = lease_duration_ms\<rparr>)"

definition decode_task :: "('v \<Rightarrow> string + TaskNode) \<Rightarrow> 'v QueuedTask \<Rightarrow> TaskNode result" where
  "decode_task from_value q =
     (case from_value (qt_payload q) of
        Inl e \<Rightarrow> Err (Queue (''payload decode: '' @ e))
      | Inr t \<Rightarrow> Ok t)"

definition on_queue :: "string \<Rightarrow> 'v QueuedTask \<Rightarrow> 'v QueuedTask" where
  "on_queue name q = q\<lparr>qt_queue := name\<rparr>"

definition available_at :: "DateTime \<Rightarrow> 'v QueuedTask \<Rightarrow> 'v QueuedTask" where
  "available_at instant q = q\<lparr>qt_available_at := instant\<rparr>"

definition is_visible :: "DateTime \<Rightarrow> 'v QueuedTask \<Rightarrow> bool" where
  "is_visible now q \<longleftrightarrow> qt_available_at q \<le> now"

definition matches_capabilities :: "Capability list \<Rightarrow> 'v QueuedTask \<Rightarrow> bool" where
  "matches_capabilities capabilities q \<longleftrightarrow>
     capabilities = [] \<or> list_all (\<lambda>r. r \<in> set capabilities) (qt_required_capabilities q)"

record 'v TaskLease =
  tl_lease_id :: LeaseId
  tl_task :: "'v QueuedTask"
  tl_worker :: string
  tl_granted_at :: DateTime
  tl_expires_at :: DateTime
  tl_state :: LeaseState

definition lease_is_expired :: "DateTime \<Rightarrow> 'v TaskLease \<Rightarrow> bool" where
  "lease_is_expired now l \<longleftrightarrow> tl_expires_at l \<le> now"

definition held_for_ms :: "DateTime \<Rightarrow> 'v TaskLease \<Rightarrow> u64" where
  "held_for_ms now l = (let d = now - tl_granted_at l in
     if d < 0 then 0 else word_of_int (d div 1000000))"

record 'v DeadLetter =
  dl_task :: "'v QueuedTask"
  dl_attempts :: u32
  dl_last_error :: string
  dl_at :: DateTime

record QueueStats =
  qs_ready :: nat
  qs_delayed :: nat
  qs_leased :: nat
  qs_dead_lettered :: nat
  qs_enqueued_total :: u64
  qs_dequeued_total :: u64
  qs_acknowledged_total :: u64
  qs_retried_total :: u64
  qs_expired_total :: u64
  qs_deduplicated_total :: u64

definition default_queue_stats :: QueueStats where
  "default_queue_stats =
     \<lparr>qs_ready = 0, qs_delayed = 0, qs_leased = 0, qs_dead_lettered = 0, qs_enqueued_total = 0,
      qs_dequeued_total = 0, qs_acknowledged_total = 0, qs_retried_total = 0,
      qs_expired_total = 0, qs_deduplicated_total = 0\<rparr>"

definition depth :: "QueueStats \<Rightarrow> nat" where
  "depth s = qs_ready s + qs_delayed s + qs_leased s"

section \<open>The in-memory queue\<close>

record 'v Inner =
  q_ready :: "'v QueuedTask list"
  q_leases :: "(LeaseId, 'v TaskLease) hashmap"
  q_seen :: "string set"
  q_dead :: "'v DeadLetter list"
  q_stats :: QueueStats

definition new_queue :: "'v Inner" where
  "new_queue =
     \<lparr>q_ready = [], q_leases = [], q_seen = {}, q_dead = [], q_stats = default_queue_stats\<rparr>"

text \<open>The filter of \<open>pick\<close>, and the key its \<open>max_by\<close> compares: priority, then waiting time.\<close>

definition eligible :: "DateTime \<Rightarrow> string list \<Rightarrow> Capability list \<Rightarrow> 'v QueuedTask \<Rightarrow> bool" where
  "eligible now queues capabilities q \<longleftrightarrow>
     is_visible now q \<and> (queues = [] \<or> qt_queue q \<in> set queues) \<and>
     matches_capabilities capabilities q"

definition pick_key :: "'v QueuedTask \<Rightarrow> Priority \<times> int" where
  "pick_key q = (qt_priority q, - qt_enqueued_at q)"

definition pick ::
  "DateTime \<Rightarrow> string list \<Rightarrow> Capability list \<Rightarrow> 'v Inner \<Rightarrow> 'v Inner \<times> 'v QueuedTask option" where
  "pick now queues capabilities s =
     (case max_by (\<lambda>(_, a) (_, b). pick_key b < pick_key a)
             (filter (\<lambda>(_, t). eligible now queues capabilities t)
               (enumerate 0 (q_ready s))) of
        None \<Rightarrow> (s, None)
      | Some (i, _) \<Rightarrow> (s\<lparr>q_ready := swap_remove i (q_ready s)\<rparr>, Some (q_ready s ! i)))"

definition timestamp_subsec_nanos :: "DateTime \<Rightarrow> u64" where
  "timestamp_subsec_nanos now = word_of_int (now mod 1000000000)"

definition retry_or_park :: "'v QueuedTask \<Rightarrow> string \<Rightarrow> DateTime \<Rightarrow> 'v Inner \<Rightarrow> 'v Inner" where
  "retry_or_park task reason now s =
     (if allows_retry (qt_retry task) (qt_attempt task) then
        let backoff = backoff_ms (qt_retry task) (qt_attempt task) (timestamp_subsec_nanos now);
            task' = task\<lparr>qt_available_at := now + ms (as_i64 backoff)\<rparr>
        in s\<lparr>q_stats := (q_stats s)\<lparr>qs_retried_total := qs_retried_total (q_stats s) + 1\<rparr>,
             q_ready := q_ready s @ [task']\<rparr>
      else
        s\<lparr>q_dead := q_dead s @
            [\<lparr>dl_task = task, dl_attempts = qt_attempt task, dl_last_error = reason, dl_at = now\<rparr>]\<rparr>)"

definition take_lease :: "LeaseId \<Rightarrow> 'v Inner \<Rightarrow> 'v Inner \<times> 'v TaskLease result" where
  "take_lease lid s =
     (case map_of (q_leases s) lid of
        Some l \<Rightarrow> (s\<lparr>q_leases := AList.delete lid (q_leases s)\<rparr>, Ok l)
      | None \<Rightarrow> (s, Err (Queue ''unknown or already-settled lease'')))"

definition enqueue :: "'v QueuedTask \<Rightarrow> 'v Inner \<Rightarrow> 'v Inner \<times> unit result" where
  "enqueue task s =
     (if qt_idempotency_key task \<in> q_seen s then
        (s\<lparr>q_stats := (q_stats s)\<lparr>qs_deduplicated_total := qs_deduplicated_total (q_stats s) + 1\<rparr>\<rparr>,
         Ok ())
      else
        (s\<lparr>q_seen := insert (qt_idempotency_key task) (q_seen s),
           q_stats := (q_stats s)\<lparr>qs_enqueued_total := qs_enqueued_total (q_stats s) + 1\<rparr>,
           q_ready := q_ready s @ [task]\<rparr>,
         Ok ()))"

definition dequeue_from ::
  "DateTime \<Rightarrow> LeaseId \<Rightarrow> string \<Rightarrow> string list \<Rightarrow> Capability list \<Rightarrow> 'v Inner \<Rightarrow>
   'v Inner \<times> 'v TaskLease option result" where
  "dequeue_from now fresh worker queues capabilities s =
     (case pick now queues capabilities s of
        (s', None) \<Rightarrow> (s', Ok None)
      | (s', Some task) \<Rightarrow>
          (let task' = task\<lparr>qt_attempt := qt_attempt task + 1\<rparr>;
               lease = \<lparr>tl_lease_id = fresh, tl_task = task', tl_worker = worker,
                        tl_granted_at = now,
                        tl_expires_at = now + ms (as_i64 (qt_lease_duration_ms task')),
                        tl_state = LeaseState.Held\<rparr>
           in (s'\<lparr>q_stats := (q_stats s')\<lparr>qs_dequeued_total := qs_dequeued_total (q_stats s') + 1\<rparr>,
                  q_leases := AList.update fresh lease (q_leases s')\<rparr>,
               Ok (Some lease))))"

definition dequeue ::
  "DateTime \<Rightarrow> LeaseId \<Rightarrow> string \<Rightarrow> 'v Inner \<Rightarrow> 'v Inner \<times> 'v TaskLease option result" where
  "dequeue now fresh worker = dequeue_from now fresh worker [] []"

definition acknowledge :: "DateTime \<Rightarrow> LeaseId \<Rightarrow> 'v Inner \<Rightarrow> 'v Inner \<times> unit result" where
  "acknowledge now lid s =
     (case take_lease lid s of
        (s', Inl e) \<Rightarrow> (s', Inl e)
      | (s', Inr held) \<Rightarrow>
          if lease_is_expired now held then
            (retry_or_park (tl_task held) ''lease expired before acknowledgement'' now
               (s'\<lparr>q_stats := (q_stats s')\<lparr>qs_expired_total := qs_expired_total (q_stats s') + 1\<rparr>\<rparr>),
             Err (Queue ''lease expired; task was requeued''))
          else
            (case transition lease_machine (tl_state held) LeaseState.Released of
               Inl e \<Rightarrow> (s', Inl e)
             | Inr _ \<Rightarrow>
                 (s'\<lparr>q_stats := (q_stats s')\<lparr>qs_acknowledged_total :=
                       qs_acknowledged_total (q_stats s') + 1\<rparr>\<rparr>, Ok ())))"

definition reject :: "DateTime \<Rightarrow> LeaseId \<Rightarrow> string \<Rightarrow> 'v Inner \<Rightarrow> 'v Inner \<times> unit result" where
  "reject now lid reason s =
     (case take_lease lid s of
        (s', Inl e) \<Rightarrow> (s', Inl e)
      | (s', Inr held) \<Rightarrow>
          (case transition lease_machine (tl_state held) LeaseState.Rejected of
             Inl e \<Rightarrow> (s', Inl e)
           | Inr _ \<Rightarrow> (retry_or_park (tl_task held) reason now s', Ok ())))"

definition release :: "DateTime \<Rightarrow> LeaseId \<Rightarrow> 'v Inner \<Rightarrow> 'v Inner \<times> unit result" where
  "release now lid s =
     (case take_lease lid s of
        (s', Inl e) \<Rightarrow> (s', Inl e)
      | (s', Inr held) \<Rightarrow>
          (let task = (tl_task held)\<lparr>qt_attempt := saturating_sub (qt_attempt (tl_task held)) 1,
                                     qt_available_at := now\<rparr>
           in (s'\<lparr>q_ready := q_ready s' @ [task]\<rparr>, Ok ())))"

text \<open>
  The state change to \<open>Extended\<close> is stored before the extension is converted, so it stays when
  the conversion fails. \<open>duration\<close> is \<open>Duration::as_millis\<close>.
\<close>

definition extend_lease :: "DateTime \<Rightarrow> LeaseId \<Rightarrow> nat \<Rightarrow> 'v Inner \<Rightarrow> 'v Inner \<times> unit result" where
  "extend_lease now lid duration s =
     (case map_of (q_leases s) lid of
        None \<Rightarrow> (s, Err (Queue ''unknown lease''))
      | Some held \<Rightarrow>
          if lease_is_expired now held then (s, Err (Queue ''lease already expired''))
          else
            (case transition lease_machine (tl_state held) LeaseState.Extended of
               Inl e \<Rightarrow> (s, Inl e)
             | Inr st \<Rightarrow>
                 (let held' = held\<lparr>tl_state := st\<rparr> in
                  if duration < 2 ^ 63 then
                    (s\<lparr>q_leases := AList.update lid
                         (held'\<lparr>tl_expires_at := now + ms (int duration)\<rparr>) (q_leases s)\<rparr>, Ok ())
                  else
                    (s\<lparr>q_leases := AList.update lid held' (q_leases s)\<rparr>,
                     Err (Queue ''lease extension does not fit in i64 ms'')))))"

definition expire_one :: "DateTime \<Rightarrow> LeaseId \<Rightarrow> 'v Inner \<Rightarrow> 'v Inner" where
  "expire_one now lid s =
     (case map_of (q_leases s) lid of
        None \<Rightarrow> s
      | Some l \<Rightarrow>
          retry_or_park (tl_task l) ''lease expired'' now
            (s\<lparr>q_leases := AList.delete lid (q_leases s),
               q_stats := (q_stats s)\<lparr>qs_expired_total := qs_expired_total (q_stats s) + 1\<rparr>\<rparr>))"

definition expired_ids :: "DateTime \<Rightarrow> 'v Inner \<Rightarrow> LeaseId list" where
  "expired_ids now s = map tl_lease_id (filter (lease_is_expired now) (hm_values (q_leases s)))"

definition requeue_expired :: "DateTime \<Rightarrow> 'v Inner \<Rightarrow> 'v Inner \<times> nat result" where
  "requeue_expired now s =
     (let expired = expired_ids now s in (fold (expire_one now) expired s, Ok (length expired)))"

definition stats :: "DateTime \<Rightarrow> 'v Inner \<Rightarrow> QueueStats result" where
  "stats now s =
     (let ready = length (filter (is_visible now) (q_ready s)) in
      Ok ((q_stats s)\<lparr>qs_ready := ready, qs_delayed := length (q_ready s) - ready,
            qs_leased := length (q_leases s), qs_dead_lettered := length (q_dead s)\<rparr>))"

definition dead_letters :: "'v Inner \<Rightarrow> 'v DeadLetter list result" where
  "dead_letters s = Ok (q_dead s)"

definition replay_dead_letter :: "DateTime \<Rightarrow> TaskId \<Rightarrow> 'v Inner \<Rightarrow> 'v Inner \<times> bool result" where
  "replay_dead_letter now task_id s =
     (case position (\<lambda>letter. qt_task_id (dl_task letter) = task_id) (q_dead s) of
        None \<Rightarrow> (s, Ok False)
      | Some p \<Rightarrow>
          (let task = (dl_task (q_dead s ! p))\<lparr>qt_available_at := now\<rparr> in
           (s\<lparr>q_dead := remove_at p (q_dead s),
              q_stats := (q_stats s)\<lparr>qs_enqueued_total := qs_enqueued_total (q_stats s) + 1\<rparr>,
              q_ready := q_ready s @ [task]\<rparr>,
            Ok True)))"

definition purge_job :: "JobId \<Rightarrow> 'v Inner \<Rightarrow> 'v Inner \<times> nat result" where
  "purge_job job_id s =
     (let before = length (q_ready s) + length (q_leases s);
          s' = s\<lparr>q_ready := filter (\<lambda>t. qt_job_id t \<noteq> job_id) (q_ready s),
                 q_leases := filter (\<lambda>(_, l). qt_job_id (tl_task l) \<noteq> job_id) (q_leases s)\<rparr>
      in (s', Ok (before - (length (q_ready s') + length (q_leases s')))))"

section \<open>Selection\<close>

lemma pick_None:
  "pick now qs caps s = (s', None) \<Longrightarrow> s' = s \<and> (\<forall>t \<in> set (q_ready s). \<not> eligible now qs caps t)"
proof -
  assume "pick now qs caps s = (s', None)"
  then have "s' = s" and none: "filter (\<lambda>(_, t). eligible now qs caps t) (enumerate 0 (q_ready s)) = []"
    by (auto simp: pick_def split: option.splits)
  moreover have "\<not> eligible now qs caps (q_ready s ! i)" if "i < length (q_ready s)" for i
  proof -
    from that have "(i, q_ready s ! i) \<in> set (enumerate 0 (q_ready s))"
      by (simp add: in_set_enumerate_eq)
    with none show ?thesis unfolding filter_empty_conv by fastforce
  qed
  ultimately show ?thesis by (auto simp: in_set_conv_nth)
qed

lemma pick_Some:
  assumes "pick now qs caps s = (s', Some t)"
  obtains i where "i < length (q_ready s)" "t = q_ready s ! i" "eligible now qs caps t"
    "s' = s\<lparr>q_ready := swap_remove i (q_ready s)\<rparr>"
    "\<And>u. u \<in> set (q_ready s) \<Longrightarrow> eligible now qs caps u \<Longrightarrow> pick_key u \<le> pick_key t"
proof -
  let ?c = "filter (\<lambda>(_, t). eligible now qs caps t) (enumerate 0 (q_ready s))"
  let ?m = "max_by (\<lambda>a b. pick_key (snd b) < pick_key (snd a)) ?c"
  have eq: "max_by (\<lambda>(_, a) (_, b). pick_key b < pick_key a) ?c = ?m"
    by (simp add: case_prod_unfold)
  from assms obtain i v where m: "?m = Some (i, v)" and t: "t = q_ready s ! i"
    and s': "s' = s\<lparr>q_ready := swap_remove i (q_ready s)\<rparr>"
    unfolding pick_def eq by (auto split: option.splits)
  have iv: "i < length (q_ready s)" "v = q_ready s ! i" "eligible now qs caps v"
    using max_by_in [OF m] by (auto simp: in_set_enumerate_eq)
  have "pick_key u \<le> pick_key t" if u: "u \<in> set (q_ready s)" "eligible now qs caps u" for u
  proof -
    obtain j where "j < length (q_ready s)" "u = q_ready s ! j" using u(1) by (auto simp: in_set_conv_nth)
    with u(2) have "(j, u) \<in> set ?c" by (auto simp: in_set_enumerate_eq)
    from max_by_key_max [OF m this] show ?thesis by (simp add: iv t)
  qed
  with iv t s' that show thesis by blast
qed

section \<open>Invariant\<close>

text \<open>The attempt keys the queue still owes: waiting, leased or parked.\<close>

definition live_keys :: "'v Inner \<Rightarrow> string multiset" where
  "live_keys s =
     mset (map qt_idempotency_key (q_ready s)) +
     mset (map (qt_idempotency_key \<circ> tl_task \<circ> snd) (q_leases s)) +
     mset (map (qt_idempotency_key \<circ> dl_task) (q_dead s))"

definition queue_inv :: "'v Inner \<Rightarrow> bool" where
  "queue_inv s \<longleftrightarrow>
     keys_distinct (q_leases s) \<and>
     (\<forall>(k, l) \<in> set (q_leases s). tl_lease_id l = k \<and> lease_is_active (tl_state l)) \<and>
     (\<forall>k. count (live_keys s) k \<le> 1) \<and> set_mset (live_keys s) \<subseteq> q_seen s"

lemma active_transitions:
  assumes "lease_is_active st"
  shows "transition lease_machine st LeaseState.Released = Ok LeaseState.Released"
    and "transition lease_machine st LeaseState.Rejected = Ok LeaseState.Rejected"
    and "transition lease_machine st LeaseState.Extended = Ok LeaseState.Extended"
  using assms by (auto simp: transition_def can_transition_to_def lease_machine_def)

lemma retry_or_park_fields:
  "q_leases (retry_or_park t r now s) = q_leases s" "q_seen (retry_or_park t r now s) = q_seen s"
  "live_keys (retry_or_park t r now s) = add_mset (qt_idempotency_key t) (live_keys s)"
  by (simp_all add: retry_or_park_def Let_def live_keys_def)

lemma live_keys_stats [simp]: "live_keys (s\<lparr>q_stats := x\<rparr>) = live_keys s"
  by (simp add: live_keys_def)

lemma take_lease_live:
  assumes "keys_distinct (q_leases s)" "map_of (q_leases s) lid = Some l"
  shows "add_mset (qt_idempotency_key (tl_task l))
    (live_keys (s\<lparr>q_leases := AList.delete lid (q_leases s)\<rparr>)) = live_keys s"
proof -
  from arg_cong [OF mset_hm_delete [OF assms],
      of "image_mset (qt_idempotency_key \<circ> tl_task \<circ> snd)"]
  have "mset (map (qt_idempotency_key \<circ> tl_task \<circ> snd) (q_leases s)) =
      add_mset (qt_idempotency_key (tl_task l))
        (mset (map (qt_idempotency_key \<circ> tl_task \<circ> snd) (AList.delete lid (q_leases s))))"
    by simp
  then show ?thesis by (simp add: live_keys_def)
qed

lemma pick_live:
  assumes "pick now qs caps s = (s', Some t)"
  shows "add_mset (qt_idempotency_key t) (live_keys s') = live_keys s"
    "q_leases s' = q_leases s" "q_seen s' = q_seen s"
proof -
  obtain i where i: "i < length (q_ready s)" "t = q_ready s ! i"
    "s' = s\<lparr>q_ready := swap_remove i (q_ready s)\<rparr>"
    by (rule pick_Some [OF assms])
  have "add_mset (qt_idempotency_key t) (mset (map qt_idempotency_key (swap_remove i (q_ready s)))) =
      mset (map qt_idempotency_key (q_ready s))"
    using arg_cong [OF add_mset_swap_remove [OF i(1)], of "image_mset qt_idempotency_key"]
    by (simp add: i(2))
  then show "add_mset (qt_idempotency_key t) (live_keys s') = live_keys s"
    by (simp add: i(3) live_keys_def)
  from i(3) show "q_leases s' = q_leases s" "q_seen s' = q_seen s" by simp_all
qed

lemma dequeue_from_cases:
  assumes "dequeue_from now fresh w qs caps s = (s', r)"
  obtains (empty) "s' = s" "r = Ok None" "\<forall>t \<in> set (q_ready s). \<not> eligible now qs caps t"
  | (granted) i l where "r = Ok (Some l)" "i < length (q_ready s)"
      "eligible now qs caps (q_ready s ! i)"
      "\<And>u. u \<in> set (q_ready s) \<Longrightarrow> eligible now qs caps u \<Longrightarrow> pick_key u \<le> pick_key (q_ready s ! i)"
      "tl_task l = (q_ready s ! i)\<lparr>qt_attempt := qt_attempt (q_ready s ! i) + 1\<rparr>"
      "tl_lease_id l = fresh" "tl_state l = LeaseState.Held" "tl_worker l = w" "tl_granted_at l = now"
      "tl_expires_at l = now + ms (as_i64 (qt_lease_duration_ms (q_ready s ! i)))"
      "q_ready s' = swap_remove i (q_ready s)" "q_leases s' = AList.update fresh l (q_leases s)"
      "q_seen s' = q_seen s" "q_dead s' = q_dead s"
proof (cases "pick now qs caps s")
  case (Pair s1 o1)
  show thesis
  proof (cases o1)
    case None
    with assms Pair pick_None [of now qs caps s s1] show ?thesis
      by (auto simp: dequeue_from_def intro: empty)
  next
    case (Some t)
    with Pair have p: "pick now qs caps s = (s1, Some t)" by simp
    then obtain i where "i < length (q_ready s)" "t = q_ready s ! i" "eligible now qs caps t"
      "s1 = s\<lparr>q_ready := swap_remove i (q_ready s)\<rparr>"
      "\<And>u. u \<in> set (q_ready s) \<Longrightarrow> eligible now qs caps u \<Longrightarrow> pick_key u \<le> pick_key t"
      by (rule pick_Some) blast
    with assms p show ?thesis
      by (auto simp: dequeue_from_def Let_def intro: granted)
  qed
qed

lemma queue_inv_new: "queue_inv new_queue"
  by (simp add: queue_inv_def new_queue_def live_keys_def)

text \<open>Keeping or dropping leases, and not adding keys, keeps the invariant.\<close>

lemma queue_inv_sub:
  assumes "queue_inv s" "live_keys s' \<subseteq># live_keys s" "q_seen s \<subseteq> q_seen s'"
    "keys_distinct (q_leases s')" "set (q_leases s') \<subseteq> set (q_leases s)"
  shows "queue_inv s'"
proof -
  have "count (live_keys s') k \<le> 1" for k
    using assms(1,2) mset_subset_eq_count [of "live_keys s'" "live_keys s" k]
    unfolding queue_inv_def by (meson order_trans)
  moreover have "set_mset (live_keys s') \<subseteq> q_seen s'"
    using assms(1-3) set_mset_mono unfolding queue_inv_def by blast
  ultimately show ?thesis
    using assms(1,4,5) unfolding queue_inv_def by blast
qed

lemma queue_inv_lease:
  "queue_inv s \<Longrightarrow> map_of (q_leases s) lid = Some l \<Longrightarrow> tl_lease_id l = lid \<and> lease_is_active (tl_state l)"
  unfolding queue_inv_def by (fastforce dest: map_of_SomeD)

lemma queue_inv_keys_distinct: "queue_inv s \<Longrightarrow> keys_distinct (q_leases s)"
  by (simp add: queue_inv_def)

lemma delete_lease_subset:
  assumes "queue_inv s"
  shows "keys_distinct (AList.delete lid (q_leases s))"
    "set (AList.delete lid (q_leases s)) \<subseteq> set (q_leases s)"
proof -
  show "keys_distinct (AList.delete lid (q_leases s))"
    by (intro hm_delete_distinct queue_inv_keys_distinct assms)
qed (auto simp: AList.delete_eq)

lemma enqueue_inv: "queue_inv s \<Longrightarrow> queue_inv (fst (enqueue t s))"
proof (cases "qt_idempotency_key t \<in> q_seen s")
  case True
  then show "queue_inv s \<Longrightarrow> ?thesis" by (simp add: enqueue_def queue_inv_def)
next
  case False
  assume inv: "queue_inv s"
  with False have "qt_idempotency_key t \<notin># live_keys s" by (auto simp: queue_inv_def)
  moreover have "live_keys (fst (enqueue t s)) = add_mset (qt_idempotency_key t) (live_keys s)"
    using False by (simp add: enqueue_def live_keys_def)
  ultimately show ?thesis
    using inv False by (auto simp: queue_inv_def enqueue_def not_in_iff)
qed

text \<open>A granted lease moves one entry from the ready list to the leases.\<close>

lemma dequeue_live:
  assumes "dequeue_from now fresh w qs caps s = (s', r)" "map_of (q_leases s) fresh = None"
  shows "live_keys s' = live_keys s"
  using assms(1)
proof (cases rule: dequeue_from_cases)
  case (granted i l)
  have "add_mset (qt_idempotency_key (q_ready s ! i))
      (mset (map qt_idempotency_key (swap_remove i (q_ready s)))) = mset (map qt_idempotency_key (q_ready s))"
    using arg_cong [OF add_mset_swap_remove [OF granted(2)], of "image_mset qt_idempotency_key"] by simp
  then show ?thesis
    by (simp add: live_keys_def granted hm_update_fresh [OF assms(2)])
qed simp

lemma dequeue_inv:
  assumes "queue_inv s" "map_of (q_leases s) fresh = None"
    "dequeue_from now fresh w qs caps s = (s', r)"
  shows "queue_inv s'"
  using assms(3)
proof (cases rule: dequeue_from_cases)
  case (granted i l)
  have "live_keys s' = live_keys s" by (rule dequeue_live [OF assms(3,2)])
  then show ?thesis
    using assms(1,2) granted
    by (auto simp: queue_inv_def hm_update_fresh dest: map_of_eq_None_iff [THEN iffD1])
qed (use assms(1) in simp)

text \<open>Settling a lease: the four ways an acknowledgement can end.\<close>

lemma acknowledge_unknown:
  "map_of (q_leases s) lid = None \<Longrightarrow>
   acknowledge now lid s = (s, Err (Queue ''unknown or already-settled lease''))"
  by (simp add: acknowledge_def take_lease_def)

lemma acknowledge_expired:
  assumes "queue_inv s" "map_of (q_leases s) lid = Some l" "lease_is_expired now l"
    "acknowledge now lid s = (s', r)"
  shows "r = Err (Queue ''lease expired; task was requeued'')" "live_keys s' = live_keys s"
    "q_leases s' = AList.delete lid (q_leases s)" "q_seen s' = q_seen s"
  using assms take_lease_live [OF queue_inv_keys_distinct [OF assms(1)] assms(2)]
  by (auto simp: acknowledge_def take_lease_def retry_or_park_fields)

lemma acknowledge_done:
  assumes "queue_inv s" "map_of (q_leases s) lid = Some l" "\<not> lease_is_expired now l"
    "acknowledge now lid s = (s', r)"
  shows "r = Ok ()" "add_mset (qt_idempotency_key (tl_task l)) (live_keys s') = live_keys s"
    "q_leases s' = AList.delete lid (q_leases s)" "q_seen s' = q_seen s"
    "q_ready s' = q_ready s" "q_dead s' = q_dead s"
  using assms take_lease_live [OF queue_inv_keys_distinct [OF assms(1)] assms(2)]
    active_transitions [of "tl_state l"] queue_inv_lease [OF assms(1,2)]
  by (auto simp: acknowledge_def take_lease_def)

lemma reject_unknown:
  "map_of (q_leases s) lid = None \<Longrightarrow>
   reject now lid reason s = (s, Err (Queue ''unknown or already-settled lease''))"
  by (simp add: reject_def take_lease_def)

lemma reject_known:
  assumes "queue_inv s" "map_of (q_leases s) lid = Some l" "reject now lid reason s = (s', r)"
  shows "r = Ok ()" "live_keys s' = live_keys s" "q_leases s' = AList.delete lid (q_leases s)"
    "q_seen s' = q_seen s"
  using assms take_lease_live [OF queue_inv_keys_distinct [OF assms(1)] assms(2)]
    active_transitions [of "tl_state l"] queue_inv_lease [OF assms(1,2)]
  by (auto simp: reject_def take_lease_def retry_or_park_fields)

lemma release_unknown:
  "map_of (q_leases s) lid = None \<Longrightarrow>
   release now lid s = (s, Err (Queue ''unknown or already-settled lease''))"
  by (simp add: release_def take_lease_def)

lemma release_known:
  assumes "queue_inv s" "map_of (q_leases s) lid = Some l" "release now lid s = (s', r)"
  shows "r = Ok ()" "live_keys s' = live_keys s" "q_leases s' = AList.delete lid (q_leases s)"
    "q_seen s' = q_seen s" "q_dead s' = q_dead s"
    "q_ready s' = q_ready s @ [(tl_task l)\<lparr>qt_attempt := saturating_sub (qt_attempt (tl_task l)) 1,
       qt_available_at := now\<rparr>]"
  using assms take_lease_live [OF queue_inv_keys_distinct [OF assms(1)] assms(2)]
  by (auto simp: release_def take_lease_def Let_def live_keys_def)

lemma settle_inv:
  assumes "queue_inv s" "q_leases s' = AList.delete lid (q_leases s)" "q_seen s' = q_seen s"
    "live_keys s' \<subseteq># live_keys s"
  shows "queue_inv s'"
  using queue_inv_sub [OF assms(1,4)] delete_lease_subset [OF assms(1), of lid] assms(2,3) by simp

lemma acknowledge_inv: "queue_inv s \<Longrightarrow> queue_inv (fst (acknowledge now lid s))"
proof -
  assume inv: "queue_inv s"
  obtain s' r where eq: "acknowledge now lid s = (s', r)" by fastforce
  show ?thesis
  proof (cases "map_of (q_leases s) lid")
    case None
    then show ?thesis using inv by (simp add: acknowledge_unknown)
  next
    case (Some l)
    note ok = acknowledge_done [OF inv Some _ eq] and exp = acknowledge_expired [OF inv Some _ eq]
    have "live_keys s' \<subseteq># live_keys s"
      using ok(2) exp(2) by (metis diff_subset_eq_self add_mset_remove_trivial subset_mset.order_refl)
    then show ?thesis
      using settle_inv [OF inv, of s' lid] ok(3,4) exp(3,4) eq by (cases "lease_is_expired now l") auto
  qed
qed

lemma reject_inv: "queue_inv s \<Longrightarrow> queue_inv (fst (reject now lid reason s))"
proof -
  assume inv: "queue_inv s"
  obtain s' r where eq: "reject now lid reason s = (s', r)" by fastforce
  show ?thesis
  proof (cases "map_of (q_leases s) lid")
    case (Some l)
    from reject_known [OF inv Some eq] show ?thesis
      using settle_inv [OF inv, of s' lid] eq by simp
  qed (use inv in \<open>simp add: reject_unknown\<close>)
qed

lemma release_inv: "queue_inv s \<Longrightarrow> queue_inv (fst (release now lid s))"
proof -
  assume inv: "queue_inv s"
  obtain s' r where eq: "release now lid s = (s', r)" by fastforce
  show ?thesis
  proof (cases "map_of (q_leases s) lid")
    case (Some l)
    from release_known [OF inv Some eq] show ?thesis
      using settle_inv [OF inv, of s' lid] eq by simp
  qed (use inv in \<open>simp add: release_unknown\<close>)
qed

lemma map_update_same:
  "map_of m k = Some v \<Longrightarrow> f v' = f v \<Longrightarrow> map (f \<circ> snd) (AList.update k v' m) = map (f \<circ> snd) m"
  by (induction m) auto

lemma set_update_subset: "set (AList.update k v m) \<subseteq> insert (k, v) (set m)"
  by (induction m) auto

lemma extend_effect:
  assumes "queue_inv s" "map_of (q_leases s) lid = Some l" "\<not> lease_is_expired now l"
  shows "extend_lease now lid d s =
    (if d < 2 ^ 63
     then (s\<lparr>q_leases := AList.update lid (l\<lparr>tl_state := LeaseState.Extended,
             tl_expires_at := now + ms (int d)\<rparr>) (q_leases s)\<rparr>, Ok ())
     else (s\<lparr>q_leases := AList.update lid (l\<lparr>tl_state := LeaseState.Extended\<rparr>) (q_leases s)\<rparr>,
           Err (Queue ''lease extension does not fit in i64 ms'')))"
  using assms active_transitions [of "tl_state l"] queue_inv_lease [OF assms(1,2)]
  by (simp add: extend_lease_def Let_def)

lemma update_lease_inv:
  assumes "queue_inv s" "map_of (q_leases s) lid = Some l" "tl_task l' = tl_task l"
    "tl_lease_id l' = tl_lease_id l" "lease_is_active (tl_state l')"
  shows "queue_inv (s\<lparr>q_leases := AList.update lid l' (q_leases s)\<rparr>)"
    "live_keys (s\<lparr>q_leases := AList.update lid l' (q_leases s)\<rparr>) = live_keys s"
proof -
  show live: "live_keys (s\<lparr>q_leases := AList.update lid l' (q_leases s)\<rparr>) = live_keys s"
    using map_update_same [OF assms(2), of "qt_idempotency_key \<circ> tl_task" l'] assms(3)
    by (simp add: live_keys_def comp_assoc)
  have "\<forall>(k, l) \<in> set (AList.update lid l' (q_leases s)). tl_lease_id l = k \<and> lease_is_active (tl_state l)"
    using assms queue_inv_lease [OF assms(1,2)] set_update_subset [of lid l' "q_leases s"]
    unfolding queue_inv_def by auto
  with live assms(1) show "queue_inv (s\<lparr>q_leases := AList.update lid l' (q_leases s)\<rparr>)"
    by (simp add: queue_inv_def distinct_update del: lease_is_active.simps)
qed

lemma extend_keeps:
  assumes "queue_inv s"
  shows "queue_inv (fst (extend_lease now lid d s)) \<and>
    live_keys (fst (extend_lease now lid d s)) = live_keys s"
proof (cases "map_of (q_leases s) lid")
  case (Some l)
  show ?thesis
  proof (cases "lease_is_expired now l")
    case False
    then show ?thesis
      using update_lease_inv [OF assms Some] by (simp add: extend_effect [OF assms Some])
  qed (use assms Some in \<open>simp add: extend_lease_def\<close>)
qed (use assms in \<open>simp add: extend_lease_def\<close>)

text \<open>The sweep.\<close>

lemma expire_one_effect:
  assumes "queue_inv s"
  shows "queue_inv (expire_one now lid s)" "live_keys (expire_one now lid s) = live_keys s"
    "q_leases (expire_one now lid s) = AList.delete lid (q_leases s)"
    "q_seen (expire_one now lid s) = q_seen s"
proof -
  show leases: "q_leases (expire_one now lid s) = AList.delete lid (q_leases s)"
    by (auto simp: expire_one_def retry_or_park_fields map_of_eq_None_iff split: option.split)
  show seen: "q_seen (expire_one now lid s) = q_seen s"
    by (auto simp: expire_one_def retry_or_park_fields split: option.split)
  show live: "live_keys (expire_one now lid s) = live_keys s"
    using take_lease_live [OF queue_inv_keys_distinct [OF assms]]
    by (auto simp: expire_one_def retry_or_park_fields split: option.split)
  show "queue_inv (expire_one now lid s)"
    by (rule settle_inv [OF assms leases seen]) (simp add: live)
qed

lemma expire_all_effect:
  assumes "queue_inv s"
  shows "queue_inv (fold (expire_one now) ids s) \<and> live_keys (fold (expire_one now) ids s) = live_keys s \<and>
    map_of (q_leases (fold (expire_one now) ids s)) = (map_of (q_leases s)) |` (- set ids) \<and>
    q_seen (fold (expire_one now) ids s) = q_seen s"
  using assms
proof (induction ids arbitrary: s)
  case (Cons i ids)
  have "map_of (q_leases (expire_one now i s)) |` (- set ids) = map_of (q_leases s) |` (- set (i # ids))"
    by (auto simp: restrict_map_def fun_eq_iff expire_one_effect [OF Cons.prems])
  with Cons.IH [OF expire_one_effect(1) [OF Cons.prems, of now i]] expire_one_effect [OF Cons.prems, of now i]
  show ?case by (simp del: hm_delete_lookup)
qed (simp add: restrict_map_def)

lemma expired_ids_iff:
  assumes "queue_inv s"
  shows "lid \<in> set (expired_ids now s) \<longleftrightarrow> (\<exists>l. map_of (q_leases s) lid = Some l \<and> lease_is_expired now l)"
proof
  assume "lid \<in> set (expired_ids now s)"
  then obtain k l where "(k, l) \<in> set (q_leases s)" "lease_is_expired now l" "tl_lease_id l = lid"
    by (auto simp: expired_ids_def)
  moreover from this assms have "k = lid" by (auto simp: queue_inv_def)
  ultimately show "\<exists>l. map_of (q_leases s) lid = Some l \<and> lease_is_expired now l"
    using queue_inv_keys_distinct [OF assms] by auto
next
  assume "\<exists>l. map_of (q_leases s) lid = Some l \<and> lease_is_expired now l"
  then obtain l where l: "map_of (q_leases s) lid = Some l" "lease_is_expired now l" by blast
  from map_of_SomeD [OF l(1)] queue_inv_lease [OF assms l(1)] l(2)
  show "lid \<in> set (expired_ids now s)" by (force simp: expired_ids_def)
qed

lemma requeue_effect:
  assumes "queue_inv s" "requeue_expired now s = (s', r)"
  shows "queue_inv s'" "live_keys s' = live_keys s"
    "map_of (q_leases s') lid =
       (case map_of (q_leases s) lid of None \<Rightarrow> None
        | Some l \<Rightarrow> if lease_is_expired now l then None else Some l)"
    "r = Ok (length (expired_ids now s))"
  using expire_all_effect [OF assms(1), of now "expired_ids now s"] assms(2)
    expired_ids_iff [OF assms(1), of lid now]
  by (auto simp: requeue_expired_def Let_def restrict_map_def split: option.splits)

lemma replay_effect:
  assumes "queue_inv s"
  shows "queue_inv (fst (replay_dead_letter now tid s))"
    "live_keys (fst (replay_dead_letter now tid s)) = live_keys s"
proof -
  show live: "live_keys (fst (replay_dead_letter now tid s)) = live_keys s"
  proof (cases "position (\<lambda>letter. qt_task_id (dl_task letter) = tid) (q_dead s)")
    case (Some p)
    then have "p < length (q_dead s)" by (simp add: position_SomeD)
    from arg_cong [OF mset_remove_at [OF this], of "image_mset (qt_idempotency_key \<circ> dl_task)"]
    show ?thesis by (simp add: replay_dead_letter_def Some Let_def live_keys_def)
  qed (simp add: replay_dead_letter_def)
  have "q_leases (fst (replay_dead_letter now tid s)) = q_leases s"
    "q_seen (fst (replay_dead_letter now tid s)) = q_seen s"
    by (auto simp: replay_dead_letter_def Let_def split: option.split)
  with live show "queue_inv (fst (replay_dead_letter now tid s))"
    using queue_inv_sub [OF assms] queue_inv_keys_distinct [OF assms] by simp
qed

lemma purge_effect:
  assumes "queue_inv s"
  shows "queue_inv (fst (purge_job j s))" "live_keys (fst (purge_job j s)) \<subseteq># live_keys s"
proof -
  have sub: "mset (map f (filter p xs)) \<subseteq># mset (map f xs)" for f :: "'b \<Rightarrow> 'c" and p xs
    by (simp add: image_mset_subseteq_mono)
  show live: "live_keys (fst (purge_job j s)) \<subseteq># live_keys s"
    unfolding purge_job_def live_keys_def Let_def fst_conv
    by (intro subset_mset.add_mono) (simp_all add: image_mset_subseteq_mono)
  show "queue_inv (fst (purge_job j s))"
    using queue_inv_keys_distinct [OF assms]
    by (intro queue_inv_sub [OF assms live]) (auto simp: purge_job_def Let_def hm_filter_distinct)
qed

section \<open>Histories\<close>

text \<open>
  A history is a sequence of calls, by any mix of producers, workers and sweepers; the mutex makes
  each call one step. The clock readings are unconstrained. A call to \<open>dequeue_from\<close> draws a lease
  identifier that no outstanding lease has.
\<close>

datatype 'v QueueOp =
    OpEnqueue "'v QueuedTask"
  | OpDequeue DateTime LeaseId string "string list" "Capability list"
  | OpAcknowledge DateTime LeaseId
  | OpReject DateTime LeaseId string
  | OpRelease DateTime LeaseId
  | OpExtend DateTime LeaseId nat
  | OpRequeueExpired DateTime
  | OpReplay DateTime TaskId
  | OpPurge JobId

fun run_op :: "'v QueueOp \<Rightarrow> 'v Inner \<Rightarrow> 'v Inner" where
  "run_op (OpEnqueue t) s = fst (enqueue t s)"
| "run_op (OpDequeue now fresh w qs caps) s = fst (dequeue_from now fresh w qs caps s)"
| "run_op (OpAcknowledge now lid) s = fst (acknowledge now lid s)"
| "run_op (OpReject now lid reason) s = fst (reject now lid reason s)"
| "run_op (OpRelease now lid) s = fst (release now lid s)"
| "run_op (OpExtend now lid d) s = fst (extend_lease now lid d s)"
| "run_op (OpRequeueExpired now) s = fst (requeue_expired now s)"
| "run_op (OpReplay now tid) s = fst (replay_dead_letter now tid s)"
| "run_op (OpPurge j) s = fst (purge_job j s)"

fun op_fresh :: "'v QueueOp \<Rightarrow> 'v Inner \<Rightarrow> bool" where
  "op_fresh (OpDequeue now fresh w qs caps) s \<longleftrightarrow> map_of (q_leases s) fresh = None"
| "op_fresh _ s \<longleftrightarrow> True"

inductive queue_run :: "'v Inner \<Rightarrow> 'v QueueOp list \<Rightarrow> 'v Inner \<Rightarrow> bool" where
  run_Nil: "queue_run s [] s"
| run_Cons: "op_fresh op s \<Longrightarrow> queue_run (run_op op s) ops s' \<Longrightarrow> queue_run s (op # ops) s'"

inductive_simps queue_run_Nil_iff [simp]: "queue_run s [] s'"
inductive_simps queue_run_Cons_iff [simp]: "queue_run s (op # ops) s'"

lemma run_op_inv: "queue_inv s \<Longrightarrow> op_fresh op s \<Longrightarrow> queue_inv (run_op op s)"
proof (cases op)
  case (OpDequeue now fresh w qs caps)
  moreover assume "queue_inv s" "op_fresh op s"
  ultimately show ?thesis
    using dequeue_inv [of s fresh now w qs caps] by (simp add: prod_eq_iff)
next
  case (OpRequeueExpired now)
  moreover assume "queue_inv s"
  ultimately show ?thesis using requeue_effect(1) [of s now] by (simp add: prod_eq_iff)
qed (simp_all add: enqueue_inv acknowledge_inv reject_inv release_inv extend_keeps replay_effect
    purge_effect)

lemma queue_run_inv: "queue_run s ops s' \<Longrightarrow> queue_inv s \<Longrightarrow> queue_inv s'"
  by (induction rule: queue_run.induct) (simp_all add: run_op_inv)

text \<open>One key lives in one place.\<close>

lemma live_keys_members:
  "t \<in> set (q_ready s) \<Longrightarrow> qt_idempotency_key t \<in># live_keys s"
  "map_of (q_leases s) lid = Some l \<Longrightarrow> qt_idempotency_key (tl_task l) \<in># live_keys s"
  "d \<in> set (q_dead s) \<Longrightarrow> qt_idempotency_key (dl_task d) \<in># live_keys s"
  by (force simp: live_keys_def dest: map_of_SomeD)+

lemma lease_exclusive:
  assumes "queue_inv s" "map_of (q_leases s) lid = Some l"
  shows "t \<in> set (q_ready s) \<Longrightarrow> qt_idempotency_key t \<noteq> qt_idempotency_key (tl_task l)"
    and "d \<in> set (q_dead s) \<Longrightarrow> qt_idempotency_key (dl_task d) \<noteq> qt_idempotency_key (tl_task l)"
    and "map_of (q_leases s) lid' = Some l' \<Longrightarrow>
      qt_idempotency_key (tl_task l') = qt_idempotency_key (tl_task l) \<Longrightarrow> lid' = lid"
proof -
  let ?s = "s\<lparr>q_leases := AList.delete lid (q_leases s)\<rparr>" and ?k = "qt_idempotency_key (tl_task l)"
  have "count (live_keys s) ?k \<le> 1" using assms(1) unfolding queue_inv_def by blast
  moreover have "count (live_keys s) ?k = Suc (count (live_keys ?s) ?k)"
    by (simp only: take_lease_live [OF queue_inv_keys_distinct [OF assms(1)] assms(2), symmetric]
        count_add_mset if_True refl)
  ultimately have "count (live_keys ?s) ?k = 0" by linarith
  then have k: "?k \<notin># live_keys ?s" by (simp add: count_eq_zero_iff)
  have same: "q_ready ?s = q_ready s" "q_dead ?s = q_dead s" by simp_all
  show "t \<in> set (q_ready s) \<Longrightarrow> qt_idempotency_key t \<noteq> ?k"
    using live_keys_members(1) [of t ?s] k unfolding same by metis
  show "d \<in> set (q_dead s) \<Longrightarrow> qt_idempotency_key (dl_task d) \<noteq> ?k"
    using live_keys_members(3) [of d ?s] k unfolding same by metis
  have "map_of (q_leases s) lid' = Some l' \<Longrightarrow> lid' \<noteq> lid \<Longrightarrow> map_of (q_leases ?s) lid' = Some l'"
    by simp
  with live_keys_members(2) [of ?s lid' l'] k
  show "map_of (q_leases s) lid' = Some l' \<Longrightarrow> qt_idempotency_key (tl_task l') = ?k \<Longrightarrow> lid' = lid"
    by metis
qed

section \<open>Attempt budget\<close>

text \<open>
  Entries that wait have an attempt left, leased ones are within their budget, parked ones have
  spent exactly all of it. Replaying a dead letter is the one call that breaks this.
\<close>

definition budget_inv :: "'v Inner \<Rightarrow> bool" where
  "budget_inv s \<longleftrightarrow>
     (\<forall>t \<in> set (q_ready s). qt_attempt t < rp_max_attempts (qt_retry t)) \<and>
     (\<forall>(k, l) \<in> set (q_leases s). 0 < qt_attempt (tl_task l) \<and>
        qt_attempt (tl_task l) \<le> rp_max_attempts (qt_retry (tl_task l))) \<and>
     (\<forall>d \<in> set (q_dead s). dl_attempts d = qt_attempt (dl_task d) \<and>
        qt_attempt (dl_task d) = rp_max_attempts (qt_retry (dl_task d)))"

fun within_budget :: "'v QueueOp \<Rightarrow> bool" where
  "within_budget (OpEnqueue t) \<longleftrightarrow> qt_attempt t < rp_max_attempts (qt_retry t)"
| "within_budget (OpReplay now tid) \<longleftrightarrow> False"
| "within_budget _ \<longleftrightarrow> True"

lemma word_succ_le: "(a :: 'a::len word) < b \<Longrightarrow> 0 < a + 1 \<and> a + 1 \<le> b"
proof -
  assume "a < b"
  then have lt: "unat a + 1 \<le> unat b" by (simp add: word_less_nat_alt)
  have "unat b < 2 ^ LENGTH('a)" by (rule unsigned_less)
  with lt have "unat a + unat (1 :: 'a word) < 2 ^ LENGTH('a)"
    unfolding unsigned_1 by (rule le_less_trans)
  from unat_add_lem [THEN iffD1, OF this] have "unat (a + 1) = unat a + 1" by simp
  with lt show ?thesis by (simp add: word_less_nat_alt word_le_nat_alt)
qed

lemma saturating_pred_less: "0 < (a :: 'a::len word) \<Longrightarrow> a \<le> b \<Longrightarrow> saturating_sub a 1 < b"
  by (simp add: word_less_nat_alt word_le_nat_alt unat_saturating_sub)

lemma retry_or_park_budget:
  assumes "budget_inv s" "qt_attempt t \<le> rp_max_attempts (qt_retry t)"
  shows "budget_inv (retry_or_park t r now s)"
  using assms by (auto simp: retry_or_park_def Let_def budget_inv_def allows_retry_def)

lemma budget_take:
  assumes "budget_inv s" "map_of (q_leases s) lid = Some l"
  shows "budget_inv (s\<lparr>q_leases := AList.delete lid (q_leases s)\<rparr>)"
    "0 < qt_attempt (tl_task l)" "qt_attempt (tl_task l) \<le> rp_max_attempts (qt_retry (tl_task l))"
  using assms map_of_SomeD [OF assms(2)]
  by (auto simp: budget_inv_def AList.delete_eq)

lemma budget_stats [simp]: "budget_inv (s\<lparr>q_stats := x\<rparr>) = budget_inv s"
  by (simp add: budget_inv_def)

lemma dequeue_budget:
  assumes "budget_inv s" "dequeue_from now fresh w qs caps s = (s', r)"
  shows "budget_inv s'"
  using assms(2)
proof (cases rule: dequeue_from_cases)
  case (granted i l)
  let ?t = "q_ready s ! i"
  have "qt_attempt ?t < rp_max_attempts (qt_retry ?t)"
    using assms(1) granted(2) by (simp add: budget_inv_def)
  note att = word_succ_le [OF this]
  have "set (q_ready s') \<subseteq> set (q_ready s)" "set (q_leases s') \<subseteq> insert (fresh, l) (set (q_leases s))"
    using set_swap_remove_subset set_update_subset unfolding granted by fast+
  with assms(1) granted(5,14) att show ?thesis
    unfolding budget_inv_def by fastforce
qed (use assms(1) in simp)

lemma acknowledge_budget: "budget_inv s \<Longrightarrow> budget_inv (fst (acknowledge now lid s))"
  using budget_take [of s lid]
  by (auto simp: acknowledge_def take_lease_def
      split: option.splits sum.splits
      intro!: retry_or_park_budget)

lemma reject_budget: "budget_inv s \<Longrightarrow> budget_inv (fst (reject now lid reason s))"
  using budget_take [of s lid]
  by (auto simp: reject_def take_lease_def
      split: option.splits sum.splits
      intro!: retry_or_park_budget)

lemma release_budget: "budget_inv s \<Longrightarrow> budget_inv (fst (release now lid s))"
proof (cases "map_of (q_leases s) lid")
  case (Some l)
  assume inv: "budget_inv s"
  note bt = budget_take [OF inv Some]
  show ?thesis
    using bt(1) saturating_pred_less [OF bt(2,3)]
    by (auto simp: release_def take_lease_def Some Let_def budget_inv_def)
qed (simp add: release_unknown)

lemma extend_budget: "budget_inv s \<Longrightarrow> budget_inv (fst (extend_lease now lid d s))"
proof (cases "map_of (q_leases s) lid")
  case (Some l)
  assume inv: "budget_inv s"
  have "budget_inv (s\<lparr>q_leases := AList.update lid l' (q_leases s)\<rparr>)" if "tl_task l' = tl_task l" for l'
    using inv set_update_subset [of lid l' "q_leases s"] budget_take(2,3) [OF inv Some] that
    unfolding budget_inv_def by fastforce
  then show ?thesis
    using inv by (auto simp: extend_lease_def Some Let_def split: sum.splits)
qed (simp add: extend_lease_def)

lemma expire_one_budget: "budget_inv s \<Longrightarrow> budget_inv (expire_one now lid s)"
  using budget_take [of s lid]
  by (auto simp: expire_one_def
      split: option.splits
      intro!: retry_or_park_budget)

lemma requeue_budget: "budget_inv s \<Longrightarrow> budget_inv (fst (requeue_expired now s))"
proof -
  have "budget_inv s \<Longrightarrow> budget_inv (fold (expire_one now) ids s)" for ids
    by (induction ids arbitrary: s) (simp_all add: expire_one_budget)
  then show "budget_inv s \<Longrightarrow> ?thesis" by (simp add: requeue_expired_def Let_def)
qed

lemma run_op_budget: "budget_inv s \<Longrightarrow> within_budget op \<Longrightarrow> budget_inv (run_op op s)"
proof (cases op)
  case (OpEnqueue t)
  moreover assume "budget_inv s" "within_budget op"
  ultimately show ?thesis by (auto simp: enqueue_def budget_inv_def)
next
  case (OpDequeue now fresh w qs caps)
  moreover assume "budget_inv s"
  ultimately show ?thesis using dequeue_budget [of s now fresh w qs caps] by (simp add: prod_eq_iff)
next
  case (OpPurge j)
  moreover assume "budget_inv s"
  ultimately show ?thesis by (auto simp: purge_job_def Let_def budget_inv_def)
qed (simp_all add: acknowledge_budget reject_budget release_budget extend_budget requeue_budget)

lemma queue_run_budget:
  "queue_run s ops s' \<Longrightarrow> list_all within_budget ops \<Longrightarrow> budget_inv s \<Longrightarrow> budget_inv s'"
  by (induction rule: queue_run.induct) (simp_all add: run_op_budget)

section \<open>Potential\<close>

text \<open>
  Attempts still to be granted: what bounds the number of leases of a history.
\<close>

definition left :: "'v QueuedTask \<Rightarrow> nat" where
  "left t = unat (rp_max_attempts (qt_retry t)) - unat (qt_attempt t)"

definition potential :: "'v Inner \<Rightarrow> nat" where
  "potential s = sum_list (map left (q_ready s)) + sum_list (map (left \<circ> tl_task \<circ> snd) (q_leases s))"

fun grants :: "'v QueueOp \<Rightarrow> 'v Inner \<Rightarrow> nat" where
  "grants (OpDequeue now fresh w qs caps) s =
     (case snd (dequeue_from now fresh w qs caps s) of Inr (Some l) \<Rightarrow> 1 | _ \<Rightarrow> 0)"
| "grants _ s = 0"

text \<open>What a call may add: a new entry its budget, a release the attempt it hands back.\<close>

fun refund :: "'v QueueOp \<Rightarrow> nat" where
  "refund (OpEnqueue t) = left t"
| "refund (OpRelease now lid) = 1"
| "refund _ = 0"

lemma sum_list_swap_remove:
  fixes f :: "'a \<Rightarrow> nat"
  assumes "i < length xs"
  shows "f (xs ! i) + sum_list (map f (swap_remove i xs)) = sum_list (map f xs)"
proof -
  have "sum_mset (image_mset f (add_mset (xs ! i) (mset (swap_remove i xs)))) =
      sum_mset (image_mset f (mset xs))"
    by (simp only: add_mset_swap_remove [OF assms])
  then show ?thesis by (simp add: sum_mset_sum_list [symmetric])
qed

lemma sum_list_hm_delete:
  fixes f :: "'b \<Rightarrow> nat"
  assumes "keys_distinct m" "map_of m k = Some v"
  shows "f v + sum_list (map (f \<circ> snd) (AList.delete k m)) = sum_list (map (f \<circ> snd) m)"
proof -
  have "sum_mset (image_mset (f \<circ> snd) (mset m)) =
      sum_mset (image_mset (f \<circ> snd) (add_mset (k, v) (mset (AList.delete k m))))"
    by (simp only: mset_hm_delete [OF assms])
  then show ?thesis by (simp add: sum_mset_sum_list [symmetric])
qed

lemma potential_stats [simp]: "potential (s\<lparr>q_stats := x\<rparr>) = potential s"
  by (simp add: potential_def)

lemma potential_retry_or_park: "potential (retry_or_park t r now s) \<le> left t + potential s"
  by (simp add: retry_or_park_def Let_def potential_def left_def)

lemma potential_take:
  assumes "keys_distinct (q_leases s)" "map_of (q_leases s) lid = Some l"
  shows "left (tl_task l) + potential (s\<lparr>q_leases := AList.delete lid (q_leases s)\<rparr>) = potential s"
  using sum_list_hm_delete [OF assms, of "left \<circ> tl_task"] by (simp add: potential_def comp_assoc)

lemma dequeue_potential:
  assumes "budget_inv s" "map_of (q_leases s) fresh = None"
    "dequeue_from now fresh w qs caps s = (s', r)"
  shows "(case r of Inr (Some l) \<Rightarrow> 1 | _ \<Rightarrow> 0) + potential s' = potential s"
  using assms(3)
proof (cases rule: dequeue_from_cases)
  case (granted i l)
  let ?t = "q_ready s ! i"
  have lt: "qt_attempt ?t < rp_max_attempts (qt_retry ?t)"
    using assms(1) granted(2) by (simp add: budget_inv_def)
  have "unat (qt_attempt ?t + 1) = unat (qt_attempt ?t) + 1"
    using word_succ_le [OF lt] by (metis Suc_eq_plus1 add.commute unatSuc word_gt_0)
  with lt have "left (tl_task l) + 1 = left ?t"
    by (simp add: granted(5) left_def word_less_nat_alt)
  with sum_list_swap_remove [OF granted(2), of left] show ?thesis
    by (simp add: potential_def granted hm_update_fresh [OF assms(2)])
qed simp

lemma settle_potential:
  assumes "queue_inv s"
  shows "potential (fst (acknowledge now lid s)) \<le> potential s"
    "potential (fst (reject now lid reason s)) \<le> potential s"
    "potential (expire_one now lid s) \<le> potential s"
proof -
  note take = potential_take [OF queue_inv_keys_distinct [OF assms], of lid]
  have park: "potential (retry_or_park (tl_task l) r now s') \<le> potential s"
    if "map_of (q_leases s) lid = Some l"
      "potential s' = potential (s\<lparr>q_leases := AList.delete lid (q_leases s)\<rparr>)" for l r s'
    using take [OF that(1)] that(2) potential_retry_or_park [of "tl_task l" r now s'] by linarith
  have less: "potential (s\<lparr>q_leases := AList.delete lid (q_leases s)\<rparr>) \<le> potential s"
    if "map_of (q_leases s) lid = Some l" for l
    using take [OF that] by linarith
  show "potential (fst (acknowledge now lid s)) \<le> potential s"
    by (auto simp: acknowledge_def take_lease_def less split: option.split sum.split intro!: park)
  show "potential (fst (reject now lid reason s)) \<le> potential s"
    by (auto simp: reject_def take_lease_def less split: option.split sum.split intro!: park)
  show "potential (expire_one now lid s) \<le> potential s"
    by (auto simp: expire_one_def split: option.split intro!: park)
qed

lemma requeue_potential: "queue_inv s \<Longrightarrow> potential (fst (requeue_expired now s)) \<le> potential s"
proof -
  have "queue_inv s \<Longrightarrow> potential (fold (expire_one now) ids s) \<le> potential s" for ids
  proof (induction ids arbitrary: s)
    case (Cons i ids)
    from Cons.IH [OF expire_one_effect(1) [OF Cons.prems, of now i]] settle_potential(3) [OF Cons.prems, of now i]
    show ?case by simp
  qed simp
  then show "queue_inv s \<Longrightarrow> ?thesis" by (simp add: requeue_expired_def Let_def)
qed

lemma release_potential: "queue_inv s \<Longrightarrow> potential (fst (release now lid s)) \<le> Suc (potential s)"
proof (cases "map_of (q_leases s) lid")
  case (Some l)
  assume inv: "queue_inv s"
  from potential_take [OF queue_inv_keys_distinct [OF inv] Some] show ?thesis
    by (simp add: release_def take_lease_def Some Let_def potential_def left_def unat_saturating_sub)
qed (simp add: release_unknown)

lemma extend_potential: "potential (fst (extend_lease now lid d s)) = potential s"
proof (cases "map_of (q_leases s) lid")
  case (Some l)
  have "potential (s\<lparr>q_leases := AList.update lid l' (q_leases s)\<rparr>) = potential s"
    if "tl_task l' = tl_task l" for l'
    using map_update_same [OF Some, of "left \<circ> tl_task" l'] that by (simp add: potential_def comp_assoc)
  then show ?thesis by (simp add: extend_lease_def Some Let_def split: sum.split)
qed (simp add: extend_lease_def)

lemma sum_list_filter_le: "sum_list (map f (filter p xs)) \<le> sum_list (map (f :: 'a \<Rightarrow> nat) xs)"
  by (induction xs) auto

lemma run_op_potential:
  assumes "queue_inv s" "budget_inv s" "op_fresh op s" "within_budget op"
  shows "grants op s + potential (run_op op s) \<le> potential s + refund op"
proof (cases op)
  case (OpEnqueue t)
  then show ?thesis by (simp add: enqueue_def potential_def)
next
  case (OpDequeue now fresh w qs caps)
  obtain s' r where eq: "dequeue_from now fresh w qs caps s = (s', r)" by fastforce
  then show ?thesis
    using dequeue_potential [OF assms(2) _ eq] assms(3) OpDequeue by simp
next
  case (OpPurge j)
  then show ?thesis
    using sum_list_filter_le [of left _ "q_ready s"] sum_list_filter_le [of "left \<circ> tl_task \<circ> snd" _ "q_leases s"]
    by (auto simp: purge_job_def Let_def potential_def intro!: add_mono)
qed (use assms in \<open>simp_all add: settle_potential requeue_potential release_potential extend_potential\<close>)

fun total_grants :: "'v Inner \<Rightarrow> 'v QueueOp list \<Rightarrow> nat" where
  "total_grants s [] = 0"
| "total_grants s (op # ops) = grants op s + total_grants (run_op op s) ops"

lemma queue_run_potential:
  "queue_run s ops s' \<Longrightarrow> queue_inv s \<Longrightarrow> budget_inv s \<Longrightarrow> list_all within_budget ops \<Longrightarrow>
   total_grants s ops + potential s' \<le> potential s + sum_list (map refund ops)"
proof (induction rule: queue_run.induct)
  case (run_Cons op s ops s')
  then have "total_grants (run_op op s) ops + potential s' \<le> potential (run_op op s) + sum_list (map refund ops)"
    by (simp add: run_op_inv run_op_budget)
  moreover have "grants op s + potential (run_op op s) \<le> potential s + refund op"
    using run_Cons by (intro run_op_potential) simp_all
  ultimately show ?case by simp
qed simp

end
