(* ===== verification/QueueContract.thy ===== *)
theory QueueContract
  imports TaskQueue
begin

text \<open>
  The contract of the trait \<open>TaskQueue\<close> (\<open>crates/task-queue/src/lib.rs\<close>) as a locale, what a client
  may conclude from it, and the interpretation on \<open>InMemoryQueue\<close>; then the properties of the
  in-memory queue over all histories of calls.
\<close>

section \<open>The contract\<close>

text \<open>
  \<open>owed\<close> counts the attempt keys the queue has not settled, \<open>held\<close> gives the outstanding leases.
\<close>

locale leased_queue =
  fixes inv :: "'s \<Rightarrow> bool"
    and owed :: "'s \<Rightarrow> string multiset"
    and held :: "'s \<Rightarrow> LeaseId \<rightharpoonup> 'l"
    and key :: "'l \<Rightarrow> string"
    and lapsed :: "DateTime \<Rightarrow> 'l \<Rightarrow> bool"
    and grant :: "DateTime \<Rightarrow> LeaseId \<Rightarrow> 's \<Rightarrow> 's \<times> 'l option result"
    and ack :: "DateTime \<Rightarrow> LeaseId \<Rightarrow> 's \<Rightarrow> 's \<times> unit result"
    and nack :: "DateTime \<Rightarrow> LeaseId \<Rightarrow> 's \<Rightarrow> 's \<times> unit result"
    and sweep :: "DateTime \<Rightarrow> 's \<Rightarrow> 's \<times> nat result"
  assumes once: "inv s \<Longrightarrow> count (owed s) k \<le> 1"
    and held_owed: "inv s \<Longrightarrow> held s lid = Some l \<Longrightarrow> key l \<in># owed s"
    and grant_law: "inv s \<Longrightarrow> held s fresh = None \<Longrightarrow> grant now fresh s = (s', Inr (Some l)) \<Longrightarrow>
      inv s' \<and> owed s' = owed s \<and> held s' = (held s)(fresh \<mapsto> l)"
    and ack_unknown: "held s lid = None \<Longrightarrow> \<exists>e. ack now lid s = (s, Inl e)"
    and ack_lapsed: "inv s \<Longrightarrow> held s lid = Some l \<Longrightarrow> lapsed now l \<Longrightarrow>
      \<exists>s' e. ack now lid s = (s', Inl e) \<and> inv s' \<and> owed s' = owed s \<and> held s' = (held s)(lid := None)"
    and ack_live: "inv s \<Longrightarrow> held s lid = Some l \<Longrightarrow> \<not> lapsed now l \<Longrightarrow>
      \<exists>s'. ack now lid s = (s', Inr ()) \<and> inv s' \<and> add_mset (key l) (owed s') = owed s \<and>
        held s' = (held s)(lid := None)"
    and nack_law: "inv s \<Longrightarrow> held s lid = Some l \<Longrightarrow>
      \<exists>s'. nack now lid s = (s', Inr ()) \<and> inv s' \<and> owed s' = owed s \<and> held s' = (held s)(lid := None)"
    and sweep_law: "inv s \<Longrightarrow> \<exists>s' n. sweep now s = (s', Inr n) \<and> inv s' \<and> owed s' = owed s \<and>
      (\<forall>lid. held s' lid = (case held s lid of None \<Rightarrow> None
         | Some l \<Rightarrow> if lapsed now l then None else Some l))"
begin

text \<open>A slow worker cannot settle work that was taken from it: after a sweep that found its lease
  lapsed, its acknowledgement fails and changes nothing.\<close>

lemma late_ack_refused:
  assumes "inv s" "held s lid = Some l" "lapsed now l" "sweep now s = (s', r)"
  shows "\<exists>e. ack later lid s' = (s', Inl e)"
proof -
  have "held s' lid = None" using sweep_law [OF assms(1), of now] assms by auto
  then show ?thesis by (rule ack_unknown)
qed

text \<open>The same lease cannot be settled twice.\<close>

lemma ack_once:
  assumes "inv s" "ack now lid s = (s', Inr ())"
  shows "\<exists>e. ack later lid s' = (s', Inl e)"
proof (cases "held s lid")
  case None
  with ack_unknown [of s lid now] assms show ?thesis by auto
next
  case (Some l)
  have "held s' lid = None"
    using ack_lapsed [OF assms(1) Some, of now] ack_live [OF assms(1) Some, of now] assms(2)
    by (cases "lapsed now l") auto
  then show ?thesis by (rule ack_unknown)
qed

text \<open>Grant, work, acknowledge in time: the key is settled, and nothing else moved.\<close>

lemma grant_then_ack:
  assumes "inv s" "held s fresh = None" "grant now fresh s = (s1, Inr (Some l))" "\<not> lapsed later l"
  shows "\<exists>s2. ack later fresh s1 = (s2, Inr ()) \<and> key l \<notin># owed s2 \<and>
    add_mset (key l) (owed s2) = owed s \<and> held s2 = held s"
proof -
  from grant_law [OF assms(1-3)] have 1: "inv s1" "owed s1 = owed s" "held s1 = (held s)(fresh \<mapsto> l)"
    by auto
  then have "held s1 fresh = Some l" by simp
  from ack_live [OF 1(1) this assms(4)] obtain s2 where
    2: "ack later fresh s1 = (s2, Inr ())" "add_mset (key l) (owed s2) = owed s"
      "held s2 = (held s1)(fresh := None)" using 1(2) by auto
  have "count (owed s) (key l) \<le> 1" by (rule once [OF assms(1)])
  then have "count (owed s2) (key l) = 0" unfolding 2(2) [symmetric] by simp
  then have "key l \<notin># owed s2" by (simp add: count_eq_zero_iff)
  moreover have "held s2 = held s" using 1(3) 2(3) assms(2) by (simp add: fun_upd_idem)
  ultimately show ?thesis using 2 by blast
qed

text \<open>Grant, fail: the work is owed again, and the worker has no lease left.\<close>

lemma grant_then_nack:
  assumes "inv s" "held s fresh = None" "grant now fresh s = (s1, Inr (Some l))"
  shows "\<exists>s2. nack later fresh s1 = (s2, Inr ()) \<and> owed s2 = owed s \<and> held s2 = held s"
proof -
  from grant_law [OF assms(1-3)] have 1: "inv s1" "owed s1 = owed s" "held s1 = (held s)(fresh \<mapsto> l)"
    by auto
  then have "held s1 fresh = Some l" by simp
  from nack_law [OF 1(1) this] 1 assms(2) show ?thesis by (auto simp: fun_upd_idem)
qed

end

interpretation imq: leased_queue queue_inv live_keys "\<lambda>s. map_of (q_leases s)"
  "\<lambda>l. qt_idempotency_key (tl_task l)" lease_is_expired
  "\<lambda>now fresh. dequeue_from now fresh w qs caps" acknowledge
  "\<lambda>now lid. reject now lid reason" requeue_expired
proof (unfold_locales, goal_cases)
  case (1 s k)
  then show ?case unfolding queue_inv_def by blast
next
  case (2 s lid l)
  then show ?case by (intro live_keys_members)
next
  case (3 s fresh now s' l)
  from 3(3) have "map_of (q_leases s') = (map_of (q_leases s))(fresh \<mapsto> l)"
    by (cases rule: dequeue_from_cases) auto
  with 3 show ?case using dequeue_inv dequeue_live by blast
next
  case (4 s lid now)
  then show ?case by (simp add: acknowledge_unknown)
next
  case (5 s lid l now)
  obtain s' r where eq: "acknowledge now lid s = (s', r)" by fastforce
  from acknowledge_expired [OF 5 eq] acknowledge_inv [OF 5(1), of now lid] eq show ?case by simp
next
  case (6 s lid l now)
  obtain s' r where eq: "acknowledge now lid s = (s', r)" by fastforce
  from acknowledge_done [OF 6 eq] acknowledge_inv [OF 6(1), of now lid] eq show ?case by simp
next
  case (7 s lid l now)
  obtain s' r where eq: "reject now lid reason s = (s', r)" by fastforce
  from reject_known [OF 7 eq] reject_inv [OF 7(1), of now lid reason] eq show ?case by simp
next
  case (8 s now)
  obtain s' r where eq: "requeue_expired now s = (s', r)" by fastforce
  from requeue_effect [OF 8 eq] eq show ?case by auto
qed

section \<open>Properties of the in-memory queue\<close>

text \<open>C6: in every history of calls, a task attempt is under at most one live lease, and while it is
  leased it is neither waiting in the queue nor parked as a dead letter.\<close>

theorem at_most_one_lease:
  assumes "queue_run new_queue ops s" "map_of (q_leases s) lid = Some l"
  shows "(\<forall>lid' l'. map_of (q_leases s) lid' = Some l' \<and>
            qt_idempotency_key (tl_task l') = qt_idempotency_key (tl_task l) \<longrightarrow> lid' = lid) \<and>
    qt_idempotency_key (tl_task l) \<notin> qt_idempotency_key ` set (q_ready s) \<and>
    qt_idempotency_key (tl_task l) \<notin> (qt_idempotency_key \<circ> dl_task) ` set (q_dead s)"
proof -
  have "queue_inv s" by (rule queue_run_inv [OF assms(1) queue_inv_new])
  note ex = lease_exclusive [OF this assms(2)]
  show ?thesis using ex(1,2,3) by (fastforce simp: image_iff)
qed

text \<open>A concrete entry and history for the closed examples.\<close>

definition demo_entry :: "unit QueuedTask" where
  "demo_entry =
     \<lparr>qt_task_id = 7, qt_job_id = 1, qt_queue = DEFAULT_QUEUE, qt_priority = Priority.Normal,
      qt_payload = (), qt_idempotency_key = ''k#0'', qt_attempt = 0,
      qt_retry = \<lparr>rp_max_attempts = 2, rp_backoff_base_ms = 0, rp_backoff_max_ms = 0, rp_jitter = False\<rparr>,
      qt_required_capabilities = [], qt_enqueued_at = 0, qt_available_at = 0,
      qt_lease_duration_ms = 30\<rparr>"

definition demo_ops :: "unit QueueOp list" where
  "demo_ops = [OpEnqueue demo_entry, OpDequeue 5 11 ''w'' [] []]"

definition demo_state :: "unit Inner" where
  "demo_state = run_op (OpDequeue 5 11 ''w'' [] []) (run_op (OpEnqueue demo_entry) new_queue)"

lemmas demo_simps = demo_entry_def demo_ops_def demo_state_def new_queue_def default_queue_stats_def
  enqueue_def dequeue_from_def pick_def eligible_def is_visible_def matches_capabilities_def
  swap_remove_def ms_def Let_def

lemma demo_run: "queue_run new_queue demo_ops demo_state"
  by (simp add: demo_ops_def demo_state_def, simp add: demo_simps)

lemma demo_leased: "\<exists>l. map_of (q_leases demo_state) 11 = Some l \<and> tl_expires_at l = 30000005 \<and>
    qt_idempotency_key (tl_task l) = ''k#0'' \<and> qt_attempt (tl_task l) = 1"
  by (simp add: demo_simps as_i64_small)

theorem at_most_one_lease_witness:
  "''k#0'' \<notin> qt_idempotency_key ` set (q_ready demo_state)"
proof -
  obtain l where "map_of (q_leases demo_state) 11 = Some l" "qt_idempotency_key (tl_task l) = ''k#0''"
    using demo_leased by blast
  from at_most_one_lease [OF demo_run this(1)] this(2) show ?thesis by simp
qed

lemma purge_lost:
  assumes "k \<in># live_keys s" "k \<notin># live_keys (fst (purge_job j s))"
  shows "(\<exists>t \<in> set (q_ready s). qt_idempotency_key t = k \<and> qt_job_id t = j) \<or>
    (\<exists>l \<in> snd ` set (q_leases s). qt_idempotency_key (tl_task l) = k \<and> qt_job_id (tl_task l) = j)"
  using assms by (force simp: live_keys_def purge_job_def Let_def)

text \<open>C7: no accepted task is ever lost. Whatever history led to a state, an attempt key the queue
  owes is dropped by one call only if that call acknowledges its lease in time, or purges the job
  its entry belongs to; every other call, failing ones included, keeps it waiting, leased or
  parked.\<close>

theorem no_task_lost:
  assumes "queue_run new_queue ops s" "op_fresh op s" "k \<in># live_keys s" "k \<notin># live_keys (run_op op s)"
  shows "(\<exists>now lid l. op = OpAcknowledge now lid \<and> map_of (q_leases s) lid = Some l \<and>
        \<not> lease_is_expired now l \<and> qt_idempotency_key (tl_task l) = k) \<or>
     (\<exists>j. op = OpPurge j \<and>
        ((\<exists>t \<in> set (q_ready s). qt_idempotency_key t = k \<and> qt_job_id t = j) \<or>
         (\<exists>l \<in> snd ` set (q_leases s). qt_idempotency_key (tl_task l) = k \<and> qt_job_id (tl_task l) = j)))"
proof -
  have inv: "queue_inv s" by (rule queue_run_inv [OF assms(1) queue_inv_new])
  show ?thesis
  proof (cases op)
    case (OpEnqueue t)
    then show ?thesis using assms(3,4) by (auto simp: enqueue_def live_keys_def split: if_splits)
  next
    case (OpDequeue now fresh w qs caps)
    obtain s' r where eq: "dequeue_from now fresh w qs caps s = (s', r)" by fastforce
    from dequeue_live [OF eq] assms(2-4) OpDequeue eq show ?thesis by simp
  next
    case (OpAcknowledge now lid)
    obtain s' r where eq: "acknowledge now lid s = (s', r)" by fastforce
    show ?thesis
    proof (cases "map_of (q_leases s) lid")
      case (Some l)
      note dn = acknowledge_done [OF inv Some _ eq]
      show ?thesis
      proof (cases "lease_is_expired now l")
        case True
        from acknowledge_expired [OF inv Some True eq] assms(3,4) OpAcknowledge eq show ?thesis by simp
      next
        case False
        have "live_keys s' = live_keys (run_op op s)" using OpAcknowledge eq by simp
        with dn(2) [OF False, symmetric] assms(3,4) have "k = qt_idempotency_key (tl_task l)"
          by simp
        with Some False OpAcknowledge show ?thesis by blast
      qed
    qed (use assms(3,4) OpAcknowledge in \<open>simp add: acknowledge_unknown\<close>)
  next
    case (OpReject now lid reason)
    obtain s' r where eq: "reject now lid reason s = (s', r)" by fastforce
    with reject_known(2) [OF inv _ eq] assms(3,4) OpReject reject_unknown [of s lid now reason]
    show ?thesis by (cases "map_of (q_leases s) lid") auto
  next
    case (OpRelease now lid)
    obtain s' r where eq: "release now lid s = (s', r)" by fastforce
    with release_known(2) [OF inv _ eq] assms(3,4) OpRelease release_unknown [of s lid now]
    show ?thesis by (cases "map_of (q_leases s) lid") auto
  next
    case (OpRequeueExpired now)
    obtain s' r where eq: "requeue_expired now s = (s', r)" by fastforce
    with requeue_effect(2) [OF inv eq] assms(3,4) OpRequeueExpired show ?thesis by simp
  next
    case (OpPurge j)
    with purge_lost [of k s j] assms(3,4) show ?thesis by simp
  qed (use assms(3,4) inv in \<open>simp_all add: extend_keeps replay_effect\<close>)
qed

lemma demo_ack: "live_keys (run_op (OpAcknowledge 6 11) demo_state) = {#}"
  by (simp add: demo_simps acknowledge_def take_lease_def lease_is_expired_def as_i64_small
      transition_def can_transition_to_def lease_machine_def live_keys_def)

theorem no_task_lost_witness:
  "\<exists>l. map_of (q_leases demo_state) 11 = Some l \<and> \<not> lease_is_expired 6 l"
proof -
  have "''k#0'' \<in># live_keys demo_state" using live_keys_members(2) demo_leased by metis
  moreover have "''k#0'' \<notin># live_keys (run_op (OpAcknowledge 6 11) demo_state)"
    unfolding demo_ack by simp
  ultimately show ?thesis using no_task_lost [OF demo_run, of "OpAcknowledge 6 11" "''k#0''"] by auto
qed

text \<open>Where an expired lease's task goes.\<close>

definition recovered :: "DateTime \<Rightarrow> 'v QueuedTask \<Rightarrow> 'v Inner \<Rightarrow> bool" where
  "recovered now t s \<longleftrightarrow>
     (if allows_retry (qt_retry t) (qt_attempt t)
      then t\<lparr>qt_available_at := now + ms (as_i64 (backoff_ms (qt_retry t) (qt_attempt t)
             (timestamp_subsec_nanos now)))\<rparr> \<in> set (q_ready s)
      else \<exists>d \<in> set (q_dead s). dl_task d = t \<and> dl_last_error d = ''lease expired'' \<and> dl_at d = now)"

lemma recovered_here: "recovered now t (retry_or_park t ''lease expired'' now s)"
  by (simp add: recovered_def retry_or_park_def Let_def)

lemma recovered_expire_one: "recovered now t s \<Longrightarrow> recovered now t (expire_one now lid s)"
  by (auto simp: recovered_def expire_one_def retry_or_park_def Let_def split: option.splits if_splits)

lemma recovered_fold: "recovered now t s \<Longrightarrow> recovered now t (fold (expire_one now) ids s)"
  by (induction ids arbitrary: s) (simp_all add: recovered_expire_one)

lemma fold_recovers:
  assumes "lid \<in> set ids" "map_of (q_leases s) lid = Some l" "queue_inv s"
  shows "recovered now (tl_task l) (fold (expire_one now) ids s)"
  using assms
proof (induction ids arbitrary: s)
  case (Cons i ids)
  show ?case
  proof (cases "i = lid")
    case True
    have "recovered now (tl_task l) (expire_one now lid s)"
      by (simp add: expire_one_def Cons.prems(2) recovered_here)
    then show ?thesis by (simp add: True recovered_fold)
  next
    case False
    then have "map_of (q_leases (expire_one now i s)) lid = Some l"
      using Cons.prems(2) by (simp add: expire_one_effect [OF Cons.prems(3)])
    with Cons False show ?thesis by (simp add: expire_one_effect(1) [OF Cons.prems(3)])
  qed
qed simp

text \<open>C24: one sweep recovers every lapsed lease, with nothing but a clock: leases that lapsed are
  gone and each of their tasks is queued again with its backoff, or parked if its budget is spent;
  leases that have not lapsed keep their holders; the number reported is the number recovered.\<close>

theorem sweep_recovers_expired:
  assumes "queue_run new_queue ops s" "requeue_expired now s = (s', r)"
  shows "(\<forall>lid l. map_of (q_leases s) lid = Some l \<longrightarrow>
            (if lease_is_expired now l
             then map_of (q_leases s') lid = None \<and> recovered now (tl_task l) s'
             else map_of (q_leases s') lid = Some l)) \<and>
    live_keys s' = live_keys s \<and>
    r = Ok (length (filter (\<lambda>(_, l). lease_is_expired now l) (q_leases s)))"
proof -
  have inv: "queue_inv s" by (rule queue_run_inv [OF assms(1) queue_inv_new])
  note eff = requeue_effect [OF inv assms(2)]
  have s': "s' = fold (expire_one now) (expired_ids now s) s"
    using assms(2) by (simp add: requeue_expired_def Let_def)
  have "recovered now (tl_task l) s'" if "map_of (q_leases s) lid = Some l" "lease_is_expired now l" for lid l
    unfolding s' using that expired_ids_iff [OF inv] by (intro fold_recovers [OF _ that(1) inv]) blast
  moreover have "length (expired_ids now s) = length (filter (\<lambda>(_, l). lease_is_expired now l) (q_leases s))"
    by (simp add: expired_ids_def filter_map comp_def case_prod_unfold)
  ultimately show ?thesis using eff by auto
qed

theorem sweep_recovers_expired_witness:
  "\<exists>l. map_of (q_leases demo_state) 11 = Some l \<and> recovered 30000005 (tl_task l) (fst (requeue_expired 30000005 demo_state))"
proof -
  obtain l where l: "map_of (q_leases demo_state) 11 = Some l" "tl_expires_at l = 30000005"
    using demo_leased by blast
  moreover obtain s' r where eq: "requeue_expired 30000005 demo_state = (s', r)" by fastforce
  ultimately show ?thesis
    using sweep_recovers_expired [OF demo_run eq] by (auto simp: lease_is_expired_def)
qed

text \<open>An acknowledgement of a lease that has lapsed, or that is unknown or already settled, is
  refused with a queue error; a lapsed one puts its task back (or parks it), so a slow worker cannot
  settle work another worker may already have redone. An acknowledgement in time succeeds and drops
  exactly that entry.\<close>

theorem acknowledge_outcome:
  assumes "queue_run new_queue ops s" "acknowledge now lid s = (s', r)"
  shows "case map_of (q_leases s) lid of
      None \<Rightarrow> s' = s \<and> (\<exists>m. r = Err (Queue m))
    | Some l \<Rightarrow> map_of (q_leases s') lid = None \<and>
        (if lease_is_expired now l
         then (\<exists>m. r = Err (Queue m)) \<and> live_keys s' = live_keys s
         else r = Ok () \<and> live_keys s = add_mset (qt_idempotency_key (tl_task l)) (live_keys s') \<and>
           qt_idempotency_key (tl_task l) \<notin># live_keys s')"
proof (cases "map_of (q_leases s) lid")
  case None
  then show ?thesis using acknowledge_unknown [OF None, of now] assms(2) by simp
next
  case (Some l)
  have inv: "queue_inv s" by (rule queue_run_inv [OF assms(1) queue_inv_new])
  show ?thesis
  proof (cases "lease_is_expired now l")
    case True
    from acknowledge_expired [OF inv Some True assms(2)] Some True show ?thesis by simp
  next
    case False
    from acknowledge_done [OF inv Some False assms(2)]
    have d: "r = Ok ()" "live_keys s = add_mset (qt_idempotency_key (tl_task l)) (live_keys s')"
      "map_of (q_leases s') lid = None" by simp_all
    have "count (live_keys s) (qt_idempotency_key (tl_task l)) \<le> 1"
      using inv unfolding queue_inv_def by blast
    then have "qt_idempotency_key (tl_task l) \<notin># live_keys s'"
      unfolding d(2) by (simp add: count_eq_zero_iff)
    with d Some False show ?thesis by simp
  qed
qed

theorem acknowledge_outcome_witness:
  "snd (acknowledge 6 11 demo_state) = Ok () \<and> (\<exists>m. snd (acknowledge 6 12 demo_state) = Err (Queue m))"
proof -
  obtain l where l: "map_of (q_leases demo_state) 11 = Some l" "tl_expires_at l = 30000005"
    using demo_leased by blast
  obtain s1 r1 s2 r2 where eq: "acknowledge 6 11 demo_state = (s1, r1)" "acknowledge 6 12 demo_state = (s2, r2)"
    by fastforce
  have "map_of (q_leases demo_state) 12 = None" by (simp add: demo_simps)
  then show ?thesis
    using acknowledge_outcome [OF demo_run eq(1)] acknowledge_outcome [OF demo_run eq(2)] eq l
    by (simp add: lease_is_expired_def)
qed

text \<open>C33: a granted task is the best one the worker may take: visible, on one of its queues and within
  its capabilities, and no other such task has a higher priority or, at equal priority, waited
  longer; the lease starts a new attempt and runs for the entry's visibility timeout. Nothing is
  granted only when no waiting task is eligible.\<close>

theorem dequeue_best:
  assumes "dequeue_from now fresh w qs caps s = (s', Inr res)"
  shows "case res of
      None \<Rightarrow> s' = s \<and> (\<forall>t \<in> set (q_ready s). \<not> eligible now qs caps t)
    | Some l \<Rightarrow> \<exists>t \<in> set (q_ready s). eligible now qs caps t \<and>
        tl_task l = t\<lparr>qt_attempt := qt_attempt t + 1\<rparr> \<and> map_of (q_leases s') fresh = Some l \<and>
        tl_expires_at l = now + ms (as_i64 (qt_lease_duration_ms t)) \<and>
        (\<forall>u \<in> set (q_ready s). eligible now qs caps u \<longrightarrow>
           qt_priority u < qt_priority t \<or>
           qt_priority u = qt_priority t \<and> qt_enqueued_at t \<le> qt_enqueued_at u)"
  using assms
proof (cases rule: dequeue_from_cases)
  case (granted i l)
  have "qt_priority u < qt_priority (q_ready s ! i) \<or>
      qt_priority u = qt_priority (q_ready s ! i) \<and> qt_enqueued_at (q_ready s ! i) \<le> qt_enqueued_at u"
    if "u \<in> set (q_ready s)" "eligible now qs caps u" for u
    using granted(4) [OF that] by (auto simp: pick_key_def)
  then show ?thesis
    using granted by (auto intro!: bexI [of _ "q_ready s ! i"])
qed simp

theorem dequeue_best_witness:
  "\<exists>s l. dequeue_from 5 11 ''w'' [] [] (run_op (OpEnqueue demo_entry) new_queue) = (s, Inr (Some l)) \<and>
     tl_task l = demo_entry\<lparr>qt_attempt := 1\<rparr>"
proof -
  obtain s l where eq: "dequeue_from 5 11 ''w'' [] [] (run_op (OpEnqueue demo_entry) new_queue) = (s, Inr (Some l))"
    by (simp add: demo_simps)
  have "q_ready (run_op (OpEnqueue demo_entry) new_queue) = [demo_entry]" "qt_attempt demo_entry = 0"
    by (simp_all add: enqueue_def new_queue_def demo_entry_def)
  with dequeue_best [OF eq] eq show ?thesis by auto
qed





lemma run_op_seen: "q_seen s \<subseteq> q_seen (run_op op s)"
proof (cases op)
  case (OpDequeue now fresh w qs caps)
  obtain s' r where eq: "dequeue_from now fresh w qs caps s = (s', r)" by fastforce
  then have "q_seen s' = q_seen s" by (cases rule: dequeue_from_cases) simp_all
  with OpDequeue eq show ?thesis by simp
next
  case (OpRequeueExpired now)
  have one: "q_seen (expire_one now lid u) = q_seen u" for lid and u :: "'a Inner"
    by (auto simp: expire_one_def retry_or_park_fields split: option.split)
  have "q_seen (fold (expire_one now) ids u) = q_seen u" for ids and u :: "'a Inner"
    by (induction ids arbitrary: u) (simp_all add: one)
  with OpRequeueExpired show ?thesis by (simp add: requeue_expired_def Let_def)
qed (auto simp: enqueue_def acknowledge_def reject_def release_def take_lease_def extend_lease_def
    replay_dead_letter_def purge_job_def retry_or_park_fields Let_def split: option.split sum.split)

lemma queue_run_seen: "queue_run s ops s' \<Longrightarrow> q_seen s \<subseteq> q_seen s'"
  by (induction rule: queue_run.induct) (use run_op_seen in blast)+

text \<open>Enqueueing is idempotent: once an attempt key was admitted, at any point of any later history
  an enqueue with that key changes no entry, lease or dead letter, whether the first one is still
  waiting, running, finished, parked or purged.\<close>

theorem enqueue_deduplicates:
  assumes "queue_run (fst (enqueue t s)) ops s1" "qt_idempotency_key u = qt_idempotency_key t"
  shows "q_ready (fst (enqueue u s1)) = q_ready s1 \<and> q_leases (fst (enqueue u s1)) = q_leases s1 \<and>
    q_dead (fst (enqueue u s1)) = q_dead s1 \<and> snd (enqueue u s1) = Ok ()"
proof -
  have "qt_idempotency_key t \<in> q_seen (fst (enqueue t s))" by (simp add: enqueue_def insert_absorb)
  with queue_run_seen [OF assms(1)] assms(2) show ?thesis by (auto simp: enqueue_def)
qed

theorem enqueue_deduplicates_witness:
  "q_ready (fst (enqueue demo_entry (run_op (OpAcknowledge 6 11) demo_state))) =
     q_ready (run_op (OpAcknowledge 6 11) demo_state)"
proof -
  have "queue_run (fst (enqueue demo_entry new_queue)) [OpDequeue 5 11 ''w'' [] [], OpAcknowledge 6 11]
      (run_op (OpAcknowledge 6 11) demo_state)"
    unfolding demo_state_def by (simp add: enqueue_def new_queue_def)
  from enqueue_deduplicates [OF this refl] show ?thesis by blast
qed

text \<open>releasing hands the attempt back: granting a lease and releasing it leaves the waiting
  entries as they were, except that the released one is visible at once; its attempt count is the
  one it had before, and no lease remains.\<close>

theorem release_undoes_dequeue:
  assumes "queue_inv s" "map_of (q_leases s) fresh = None"
    "dequeue_from now fresh w qs caps s = (s1, Inr (Some l))"
    "release later fresh s1 = (s2, r)" "qt_attempt (tl_task l) \<noteq> 0"
  shows "r = Ok () \<and> map_of (q_leases s2) = map_of (q_leases s) \<and> q_dead s2 = q_dead s \<and>
    (\<exists>t \<in> set (q_ready s). mset (q_ready s2) =
       add_mset (t\<lparr>qt_available_at := later\<rparr>) (mset (q_ready s) - {#t#}))"
  using assms(3)
proof (cases rule: dequeue_from_cases)
  case (granted i l')
  let ?t = "q_ready s ! i"
  have l: "map_of (q_leases s1) fresh = Some l" "tl_task l = ?t\<lparr>qt_attempt := qt_attempt ?t + 1\<rparr>"
    using granted by auto
  have "queue_inv s1" by (rule dequeue_inv [OF assms(1-3)])
  note rel = release_known [OF this l(1) assms(4)]
  have "saturating_sub (qt_attempt ?t + 1) 1 = qt_attempt ?t"
    using assms(5) by (simp add: l(2) saturating_sub_def word_less_1)
  then have "mset (q_ready s2) = add_mset (?t\<lparr>qt_available_at := later\<rparr>) (mset (q_ready s) - {#?t#})"
    by (simp add: rel(6) granted mset_swap_remove l(2))
  moreover have "map_of (q_leases s2) = map_of (q_leases s)"
    using assms(2) by (simp add: rel(3) granted fun_upd_idem)
  ultimately show ?thesis
    using rel(1,5) granted nth_mem [OF granted(2)] by (intro conjI bexI [of _ ?t]) simp_all
qed simp

theorem release_undoes_dequeue_witness:
  "\<exists>t \<in> set (q_ready (fst (enqueue demo_entry new_queue))).
     mset (q_ready (fst (release 8 11 demo_state))) =
       add_mset (t\<lparr>qt_available_at := 8\<rparr>) (mset (q_ready (fst (enqueue demo_entry new_queue))) - {#t#})"
proof -
  let ?s = "fst (enqueue demo_entry new_queue)"
  obtain l where d: "dequeue_from 5 11 ''w'' [] [] ?s = (demo_state, Inr (Some l))" "qt_attempt (tl_task l) = 1"
    by (simp add: demo_simps)
  obtain s2 r where r: "release 8 11 demo_state = (s2, r)" by fastforce
  have "map_of (q_leases ?s) 11 = None" by (simp add: enqueue_def new_queue_def)
  from release_undoes_dequeue [OF enqueue_inv [OF queue_inv_new] this d(1) r] d(2) r
  show ?thesis by simp
qed

text \<open>
  Replaying a dead letter keeps its spent attempt count, so the replayed task runs beyond its
  budget and, failing once, is parked again at once.
\<close>

definition spent_state :: "unit Inner" where
  "spent_state = new_queue\<lparr>q_dead := [\<lparr>dl_task = demo_entry\<lparr>qt_attempt := 2\<rparr>, dl_attempts = 2,
     dl_last_error = ''x'', dl_at = 0\<rparr>]\<rparr>"

lemma replay_exceeds_budget:
  "\<exists>s l. dequeue_from 6 13 ''w'' [] [] (fst (replay_dead_letter 5 7 spent_state)) = (s, Inr (Some l)) \<and>
     rp_max_attempts (qt_retry (tl_task l)) < qt_attempt (tl_task l)"
  by (simp add: replay_dead_letter_def spent_state_def remove_at_def demo_simps)

end
