(* ===== verification/SharedMemory.thy ===== *)
theory SharedMemory
  imports TaskModel
begin

text \<open>
  Shared memory (\<open>crates/shared-memory/src/lib.rs\<close> and \<open>memory.rs\<close>): versioned records and the
  operations of \<open>InMemoryStore\<close>. An operation that holds the entry guard of its key is one atomic
  function of the store; \<open>compact\<close>, which scans first and removes afterwards, is given both as the
  two steps it consists of and as their uninterrupted composition. Values have a type \<open>'v\<close>.
\<close>

section \<open>Records\<close>

definition VERSION_ABSENT :: u64 where "VERSION_ABSENT = 0"

definition ns_working :: "(uuid \<Rightarrow> string) \<Rightarrow> JobId \<Rightarrow> string" where
  "ns_working disp j = ''job/'' @ disp j @ ''/working''"

definition ns_job :: "(uuid \<Rightarrow> string) \<Rightarrow> JobId \<Rightarrow> string" where
  "ns_job disp j = ''job/'' @ disp j @ ''/memory''"

definition ns_results :: "(uuid \<Rightarrow> string) \<Rightarrow> JobId \<Rightarrow> string" where
  "ns_results disp j = ''job/'' @ disp j @ ''/results''"

definition ns_executions :: "(uuid \<Rightarrow> string) \<Rightarrow> JobId \<Rightarrow> string" where
  "ns_executions disp j = ''job/'' @ disp j @ ''/executions''"

definition ns_checkpoints :: "(uuid \<Rightarrow> string) \<Rightarrow> JobId \<Rightarrow> string" where
  "ns_checkpoints disp j = ''job/'' @ disp j @ ''/checkpoints''"

definition ns_agent :: "(uuid \<Rightarrow> string) \<Rightarrow> AgentId \<Rightarrow> string" where
  "ns_agent disp a = ''agent/'' @ disp a"

definition ns_semantic :: string where "ns_semantic = ''semantic''"

type_synonym RecordKey = "string \<times> string"

record 'v MemoryRecord =
  mr_id :: MemoryId
  mr_job_id :: "JobId option"
  mr_agent_id :: "AgentId option"
  mr_namespace :: string
  mr_key :: string
  mr_value :: 'v
  mr_version :: u64
  mr_created_at :: DateTime
  mr_updated_at :: DateTime
  mr_expires_at :: "DateTime option"

definition record_is_expired :: "DateTime \<Rightarrow> 'v MemoryRecord \<Rightarrow> bool" where
  "record_is_expired now r \<longleftrightarrow> (case mr_expires_at r of None \<Rightarrow> False | Some e \<Rightarrow> e \<le> now)"

definition parse_record :: "('v \<Rightarrow> string + 'a) \<Rightarrow> 'v MemoryRecord \<Rightarrow> 'a result" where
  "parse_record from_value r =
     (case from_value (mr_value r) of
        Inr x \<Rightarrow> Ok x
      | Inl e \<Rightarrow> Err (Memory (''record '' @ mr_namespace r @ ''/'' @ mr_key r @
                            '' does not deserialize: '' @ e)))"

record 'v MemoryWrite =
  mw_namespace :: string
  mw_key :: string
  mw_value :: 'v
  mw_job_id :: "JobId option"
  mw_agent_id :: "AgentId option"
  mw_actor :: string
  mw_ttl :: "Nanos option"

definition new_write :: "string \<Rightarrow> string \<Rightarrow> 'v \<Rightarrow> string \<Rightarrow> 'v MemoryWrite" where
  "new_write namespace key v actor =
     \<lparr>mw_namespace = namespace, mw_key = key, mw_value = v, mw_job_id = None, mw_agent_id = None,
      mw_actor = actor, mw_ttl = None\<rparr>"

definition json_write ::
  "('a \<Rightarrow> string + 'v) \<Rightarrow> string \<Rightarrow> string \<Rightarrow> 'a \<Rightarrow> string \<Rightarrow> 'v MemoryWrite result" where
  "json_write to_value namespace key x actor =
     (case to_value x of
        Inl e \<Rightarrow> Err (Memory (''encode: '' @ e))
      | Inr v \<Rightarrow> Ok (new_write namespace key v actor))"

definition for_job :: "JobId \<Rightarrow> 'v MemoryWrite \<Rightarrow> 'v MemoryWrite" where
  "for_job j w = w\<lparr>mw_job_id := Some j\<rparr>"

definition by_agent :: "AgentId \<Rightarrow> 'v MemoryWrite \<Rightarrow> 'v MemoryWrite" where
  "by_agent a w = w\<lparr>mw_agent_id := Some a\<rparr>"

definition expiring_in :: "Nanos \<Rightarrow> 'v MemoryWrite \<Rightarrow> 'v MemoryWrite" where
  "expiring_in ttl w = w\<lparr>mw_ttl := Some ttl\<rparr>"

datatype MemoryOperation = Create | Put | CompareAndSwap | Delete | Expire

record AuditEntry =
  ae_namespace :: string
  ae_key :: string
  ae_version :: u64
  ae_operation :: MemoryOperation
  ae_actor :: string
  ae_at :: DateTime

section \<open>The in-memory store\<close>

record 'v InMemoryStore =
  st_records :: "(RecordKey, 'v MemoryRecord) hashmap"
  st_history :: "(RecordKey, AuditEntry list) hashmap"

definition new_store :: "'v InMemoryStore" where
  "new_store = \<lparr>st_records = [], st_history = []\<rparr>"

definition store_len :: "'v InMemoryStore \<Rightarrow> nat" where
  "store_len s = length (st_records s)"

definition note_op ::
  "'v MemoryRecord \<Rightarrow> MemoryOperation \<Rightarrow> string \<Rightarrow> 'v InMemoryStore \<Rightarrow> 'v InMemoryStore" where
  "note_op r operation actor s =
     (let k = (mr_namespace r, mr_key r);
          h = (case map_of (st_history s) k of None \<Rightarrow> [] | Some h \<Rightarrow> h);
          e = \<lparr>ae_namespace = mr_namespace r, ae_key = mr_key r, ae_version = mr_version r,
               ae_operation = operation, ae_actor = actor, ae_at = mr_updated_at r\<rparr>
      in s\<lparr>st_history := AList.update k (h @ [e]) (st_history s)\<rparr>)"

text \<open>\<open>chrono::Duration::from_std\<close> refuses what does not fit in \<open>i64\<close> milliseconds.\<close>

definition duration_from_std :: "Nanos \<Rightarrow> Nanos option" where
  "duration_from_std d = (if d \<le> ms (2 ^ 63 - 1) then Some d else None)"

definition expiry :: "'v MemoryWrite \<Rightarrow> DateTime \<Rightarrow> DateTime option" where
  "expiry w now =
     map_option (\<lambda>ttl. now + ttl) (Option.bind (mw_ttl w) duration_from_std)"

definition fresh :: "MemoryId \<Rightarrow> 'v MemoryWrite \<Rightarrow> DateTime \<Rightarrow> 'v MemoryRecord" where
  "fresh new_id w now =
     \<lparr>mr_id = new_id, mr_job_id = mw_job_id w, mr_agent_id = mw_agent_id w,
      mr_namespace = mw_namespace w, mr_key = mw_key w, mr_value = mw_value w, mr_version = 1,
      mr_created_at = now, mr_updated_at = now, mr_expires_at = expiry w now\<rparr>"

definition or_else :: "'a option \<Rightarrow> 'a option \<Rightarrow> 'a option" where
  "or_else a b = (case a of None \<Rightarrow> b | Some x \<Rightarrow> Some x)"

definition bumped :: "'v MemoryRecord \<Rightarrow> 'v MemoryWrite \<Rightarrow> DateTime \<Rightarrow> 'v MemoryRecord" where
  "bumped previous w now =
     \<lparr>mr_id = mr_id previous, mr_job_id = or_else (mw_job_id w) (mr_job_id previous),
      mr_agent_id = or_else (mw_agent_id w) (mr_agent_id previous),
      mr_namespace = mr_namespace previous, mr_key = mr_key previous, mr_value = mw_value w,
      mr_version = mr_version previous + 1, mr_created_at = mr_created_at previous,
      mr_updated_at = now, mr_expires_at = or_else (expiry w now) (mr_expires_at previous)\<rparr>"

definition mem_get ::
  "DateTime \<Rightarrow> string \<Rightarrow> string \<Rightarrow> 'v InMemoryStore \<Rightarrow> 'v MemoryRecord option result" where
  "mem_get now namespace key s =
     Ok (case map_of (st_records s) (namespace, key) of
           None \<Rightarrow> None
         | Some r \<Rightarrow> if record_is_expired now r then None else Some r)"

definition mem_put ::
  "DateTime \<Rightarrow> MemoryId \<Rightarrow> 'v MemoryWrite \<Rightarrow> 'v InMemoryStore \<Rightarrow>
   'v InMemoryStore \<times> 'v MemoryRecord result" where
  "mem_put now new_id w s =
     (let k = (mw_namespace w, mw_key w);
          (r, operation) =
            (case map_of (st_records s) k of
               Some cur \<Rightarrow>
                 (let r = (if record_is_expired now cur then fresh new_id w now
                           else bumped cur w now)
                  in (r, if mr_version r = 1 then Create else Put))
             | None \<Rightarrow> (fresh new_id w now, Create))
      in (note_op r operation (mw_actor w)
            (s\<lparr>st_records := AList.update k r (st_records s)\<rparr>), Ok r))"

definition compare_and_swap ::
  "DateTime \<Rightarrow> MemoryId \<Rightarrow> 'v MemoryWrite \<Rightarrow> u64 \<Rightarrow> 'v InMemoryStore \<Rightarrow>
   'v InMemoryStore \<times> 'v MemoryRecord result" where
  "compare_and_swap now new_id w expected s =
     (let k = (mw_namespace w, mw_key w);
          conflict = (\<lambda>actual. Err (VersionConflict (mw_namespace w) (mw_key w) expected actual))
      in case map_of (st_records s) k of
           Some cur \<Rightarrow>
             (let current = (if record_is_expired now cur then VERSION_ABSENT else mr_version cur)
              in if current \<noteq> expected then (s, conflict current)
                 else let r = (if current = VERSION_ABSENT then fresh new_id w now
                               else bumped cur w now)
                      in (note_op r CompareAndSwap (mw_actor w)
                            (s\<lparr>st_records := AList.update k r (st_records s)\<rparr>), Ok r))
         | None \<Rightarrow>
             if expected \<noteq> VERSION_ABSENT then (s, conflict VERSION_ABSENT)
             else let r = fresh new_id w now
                  in (note_op r Create (mw_actor w)
                        (s\<lparr>st_records := AList.update k r (st_records s)\<rparr>), Ok r))"

definition claim ::
  "DateTime \<Rightarrow> MemoryId \<Rightarrow> 'v MemoryWrite \<Rightarrow> 'v InMemoryStore \<Rightarrow>
   'v InMemoryStore \<times> 'v MemoryRecord option result" where
  "claim now new_id w s =
     (case compare_and_swap now new_id w VERSION_ABSENT s of
        (s', Inr r) \<Rightarrow> (s', Ok (Some r))
      | (s', Inl (Fail (VersionConflict _ _ _ _))) \<Rightarrow> (s', Ok None)
      | (s', Inl other) \<Rightarrow> (s', Inl other))"

definition mem_delete ::
  "string \<Rightarrow> string \<Rightarrow> 'v InMemoryStore \<Rightarrow> 'v InMemoryStore \<times> bool result" where
  "mem_delete namespace key s =
     (case map_of (st_records s) (namespace, key) of
        Some r \<Rightarrow>
          (note_op r Delete ''unknown''
             (s\<lparr>st_records := AList.delete (namespace, key) (st_records s)\<rparr>), Ok True)
      | None \<Rightarrow> (s, Ok False))"

definition mem_list ::
  "DateTime \<Rightarrow> string \<Rightarrow> string \<Rightarrow> 'v InMemoryStore \<Rightarrow> 'v MemoryRecord list result" where
  "mem_list now namespace pre s =
     Ok (sort_key mr_key
          (filter (\<lambda>r. mr_namespace r = namespace \<and> prefix pre (mr_key r) \<and> \<not> record_is_expired now r)
            (hm_values (st_records s))))"

definition mem_audit :: "string \<Rightarrow> string \<Rightarrow> 'v InMemoryStore \<Rightarrow> AuditEntry list result" where
  "mem_audit namespace key s =
     Ok (case map_of (st_history s) (namespace, key) of None \<Rightarrow> [] | Some h \<Rightarrow> h)"

definition compact_scan :: "DateTime \<Rightarrow> 'v InMemoryStore \<Rightarrow> RecordKey list" where
  "compact_scan now s = map fst (filter (\<lambda>(_, r). record_is_expired now r) (st_records s))"

definition compact_remove :: "RecordKey \<Rightarrow> 'v InMemoryStore \<Rightarrow> 'v InMemoryStore" where
  "compact_remove k s =
     (case map_of (st_records s) k of
        Some r \<Rightarrow> note_op r Expire ''system'' (s\<lparr>st_records := AList.delete k (st_records s)\<rparr>)
      | None \<Rightarrow> s)"

definition compact :: "DateTime \<Rightarrow> 'v InMemoryStore \<Rightarrow> 'v InMemoryStore \<times> nat result" where
  "compact now s =
     (let expired = compact_scan now s in (fold compact_remove expired s, Ok (length expired)))"

definition mem_purge_job :: "JobId \<Rightarrow> 'v InMemoryStore \<Rightarrow> 'v InMemoryStore \<times> nat result" where
  "mem_purge_job j s =
     (let owned = map fst (filter (\<lambda>(_, r). mr_job_id r = Some j) (st_records s))
      in (s\<lparr>st_records := fold AList.delete owned (st_records s)\<rparr>, Ok (length owned)))"

end
