(* ===== verification/MemoryContract.thy ===== *)
theory MemoryContract
  imports SharedMemory
begin

text \<open>
  The contract of the trait \<open>MemoryStore\<close> (\<open>crates/shared-memory/src/lib.rs\<close>) as a locale, its
  interpretation on \<open>InMemoryStore\<close>, and the properties of the store: exact version counting, one
  winner per compare-and-swap race, no lost update, visibility of expired records, and the audit
  history.
\<close>

section \<open>The contract\<close>

text \<open>
  \<open>stored\<close> is what the store holds for a key, \<open>dead\<close> whether a record has passed its lifetime, and
  the version a writer competes with is that of the stored record, or \<open>0\<close> when there is none alive.
\<close>

definition live_version ::
  "('k \<rightharpoonup> 'r) \<Rightarrow> (DateTime \<Rightarrow> 'r \<Rightarrow> bool) \<Rightarrow> ('r \<Rightarrow> u64) \<Rightarrow> DateTime \<Rightarrow> 'k \<Rightarrow> u64" where
  "live_version m dead ver now k =
     (case m k of None \<Rightarrow> VERSION_ABSENT | Some r \<Rightarrow> if dead now r then VERSION_ABSENT else ver r)"

locale versioned_store =
  fixes stored :: "'s \<Rightarrow> RecordKey \<rightharpoonup> 'r"
    and dead :: "DateTime \<Rightarrow> 'r \<Rightarrow> bool"
    and ver :: "'r \<Rightarrow> u64"
    and contents :: "'r \<Rightarrow> 'v"
    and put :: "DateTime \<Rightarrow> MemoryId \<Rightarrow> 'v MemoryWrite \<Rightarrow> 's \<Rightarrow> 's \<times> 'r result"
    and cas :: "DateTime \<Rightarrow> MemoryId \<Rightarrow> 'v MemoryWrite \<Rightarrow> u64 \<Rightarrow> 's \<Rightarrow> 's \<times> 'r result"
  assumes put_law: "\<exists>s' r. put now i w s = (s', Inr r) \<and> contents r = mw_value w \<and>
      ver r = live_version (stored s) dead ver now (mw_namespace w, mw_key w) + 1 \<and>
      stored s' = (stored s)((mw_namespace w, mw_key w) \<mapsto> r)"
    and cas_wins: "live_version (stored s) dead ver now (mw_namespace w, mw_key w) = expected \<Longrightarrow>
      \<exists>s' r. cas now i w expected s = (s', Inr r) \<and> contents r = mw_value w \<and> ver r = expected + 1 \<and>
        stored s' = (stored s)((mw_namespace w, mw_key w) \<mapsto> r)"
    and cas_loses: "live_version (stored s) dead ver now (mw_namespace w, mw_key w) \<noteq> expected \<Longrightarrow>
      cas now i w expected s = (s, Inl (Fail (VersionConflict (mw_namespace w) (mw_key w) expected
        (live_version (stored s) dead ver now (mw_namespace w, mw_key w)))))"
begin

lemma cas_Ok_iff:
  "(\<exists>s' r. cas now i w expected s = (s', Inr r)) \<longleftrightarrow>
     live_version (stored s) dead ver now (mw_namespace w, mw_key w) = expected"
proof
  assume "live_version (stored s) dead ver now (mw_namespace w, mw_key w) = expected"
  from cas_wins [OF this, of i] show "\<exists>s' r. cas now i w expected s = (s', Inr r)" by blast
next
  assume "\<exists>s' r. cas now i w expected s = (s', Inr r)"
  then show "live_version (stored s) dead ver now (mw_namespace w, mw_key w) = expected"
    using cas_loses [of s now w expected i] by (metis Inl_Inr_False prod.inject)
qed

lemma cas_frame:
  assumes "cas now i w expected s = (s', res)" "k \<noteq> (mw_namespace w, mw_key w)"
  shows "stored s' k = stored s k"
  using cas_wins [of s now w expected i] cas_loses [of s now w expected i] assms
  by (cases "live_version (stored s) dead ver now (mw_namespace w, mw_key w) = expected") auto

text \<open>While the winner's record is alive, a second swap from the same version loses and is told the
  version it lost to.\<close>

lemma second_cas_loses:
  assumes "cas now i w expected s = (s1, Inr r)"
    and "(mw_namespace w', mw_key w') = (mw_namespace w, mw_key w)" "\<not> dead later r"
  shows "cas later j w' expected s1 =
    (s1, Inl (Fail (VersionConflict (mw_namespace w) (mw_key w) expected (expected + 1))))"
proof -
  have "live_version (stored s) dead ver now (mw_namespace w, mw_key w) = expected"
    using cas_Ok_iff assms(1) by blast
  from cas_wins [OF this, of i] assms(1)
  have "ver r = expected + 1" "stored s1 (mw_namespace w, mw_key w) = Some r" by auto
  then have "live_version (stored s1) dead ver later (mw_namespace w', mw_key w') = expected + 1"
    using assms(2,3) by (simp add: live_version_def)
  with cas_loses [of s1 later w' expected j] assms(2) show ?thesis by simp
qed

end

interpretation ims: versioned_store "\<lambda>s. map_of (st_records s)" record_is_expired mr_version mr_value
  mem_put compare_and_swap
proof (unfold_locales, goal_cases)
  case (1 now i w s)
  show ?case
    by (simp add: mem_put_def note_op_def live_version_def VERSION_ABSENT_def fresh_def bumped_def Let_def
        split: option.split)
next
  case (2 s now w expected i)
  then show ?case
    by (auto simp: compare_and_swap_def note_op_def live_version_def VERSION_ABSENT_def fresh_def
        bumped_def Let_def split: option.splits if_splits)
next
  case (3 s now w expected i)
  then show ?case
    by (auto simp: compare_and_swap_def live_version_def VERSION_ABSENT_def Let_def split: option.splits)
qed

section \<open>Races\<close>

text \<open>
  \<open>cas_all\<close> runs the competing swaps one after the other, in the order in which they obtained the
  entry guard, each with its own clock reading.
\<close>

fun cas_all ::
  "u64 \<Rightarrow> (DateTime \<times> MemoryId \<times> 'v MemoryWrite) list \<Rightarrow> 'v InMemoryStore \<Rightarrow>
   'v InMemoryStore \<times> 'v MemoryRecord result list" where
  "cas_all expected [] s = (s, [])"
| "cas_all expected ((now, i, w) # ws) s =
     (let (s1, r) = compare_and_swap now i w expected s; (s2, rs) = cas_all expected ws s1
      in (s2, r # rs))"

definition competes :: "RecordKey \<Rightarrow> DateTime \<times> MemoryId \<times> 'v MemoryWrite \<Rightarrow> bool" where
  "competes k c \<longleftrightarrow> (case c of (now, i, w) \<Rightarrow> (mw_namespace w, mw_key w) = k \<and> mw_ttl w = None)"

lemma cas_all_losers:
  assumes "map_of (st_records s) (n, k) = Some r" "mr_expires_at r = None" "mr_version r \<noteq> expected"
    "list_all (competes (n, k)) ws"
  shows "cas_all expected ws s =
    (s, replicate (length ws) (Err (VersionConflict n k expected (mr_version r))))"
  using assms(4)
proof (induction ws)
  case (Cons c ws)
  obtain now i w where c: "c = (now, i, w)" by (cases c)
  with Cons.prems have w: "mw_namespace w = n" "mw_key w = k" by (simp_all add: competes_def)
  have "live_version (map_of (st_records s)) record_is_expired mr_version now (n, k) = mr_version r"
    using assms(1,2) by (simp add: live_version_def record_is_expired_def)
  with ims.cas_loses [of s now w expected i] w assms(3)
  have "compare_and_swap now i w expected s = (s, Err (VersionConflict n k expected (mr_version r)))"
    by simp
  with Cons c show ?case by simp
qed simp

lemma cas_no_expiry:
  assumes "compare_and_swap now i w expected s = (s', Inr r)" "mw_ttl w = None"
    "\<And>r. map_of (st_records s) (mw_namespace w, mw_key w) = Some r \<Longrightarrow> mr_expires_at r = None"
  shows "mr_expires_at r = None"
  using assms
  by (auto simp: compare_and_swap_def Let_def fresh_def bumped_def expiry_def or_else_def
      split: option.splits if_splits)

text \<open>C23: a compare-and-swap race has exactly one winner. However many agents try to swap the same key
  from the version that is stored (or to create it, with version 0), in whatever order they get
  the entry guard, the first one succeeds with the next version and every other one fails with a
  conflict that carries the winner's version; the winner's record is what the store holds.\<close>

theorem cas_one_winner:
  assumes "live_version (map_of (st_records s)) record_is_expired mr_version now (n, k) = expected"
    and "\<And>r. map_of (st_records s) (n, k) = Some r \<Longrightarrow> mr_expires_at r = None"
    and "list_all (competes (n, k)) ((now, i, w) # ws)"
  shows "\<exists>s' r. cas_all expected ((now, i, w) # ws) s =
      (s', Ok r # replicate (length ws) (Err (VersionConflict n k expected (expected + 1)))) \<and>
    map_of (st_records s') (n, k) = Some r \<and> mr_value r = mw_value w \<and> mr_version r = expected + 1"
proof -
  from assms(3) have w: "mw_namespace w = n" "mw_key w = k" "mw_ttl w = None"
    and ws: "list_all (competes (n, k)) ws" by (simp_all add: competes_def)
  from assms(1) have "live_version (map_of (st_records s)) record_is_expired mr_version now
      (mw_namespace w, mw_key w) = expected" by (simp only: w)
  from ims.cas_wins [OF this, of i] obtain s1 r where
    1: "compare_and_swap now i w expected s = (s1, Inr r)" "mr_value r = mw_value w"
      "mr_version r = expected + 1" "map_of (st_records s1) (n, k) = Some r" using w by auto
  have exp: "mr_expires_at r = None" using cas_no_expiry [OF 1(1)] assms(2) w by simp
  have "mr_version r \<noteq> expected" by (simp add: 1(3))
  from cas_all_losers [OF 1(4) exp this ws] 1 show ?thesis by simp
qed

theorem cas_one_winner_witness:
  "\<exists>s' r. cas_all 0 [(5, 1, new_write ''n'' ''k'' (10 :: nat) ''a''), (6, 2, new_write ''n'' ''k'' 20 ''b'')]
      new_store = (s', [Ok r, Err (VersionConflict ''n'' ''k'' 0 1)])"
proof -
  let ?ws = "[(5, 1, new_write ''n'' ''k'' (10 :: nat) ''a''), (6, 2, new_write ''n'' ''k'' 20 ''b'')]"
  have 1: "live_version (map_of (st_records (new_store :: nat InMemoryStore))) record_is_expired mr_version 5
      (''n'', ''k'') = 0" by (simp add: live_version_def new_store_def VERSION_ABSENT_def)
  have 2: "list_all (competes (''n'', ''k'')) ?ws" by (simp add: competes_def new_write_def)
  have 3: "map_of (st_records (new_store :: nat InMemoryStore)) (''n'', ''k'') = None"
    by (simp add: new_store_def)
  from cas_one_winner [OF 1 _ 2] 3 show ?thesis by (auto simp del: cas_all.simps)
qed

section \<open>Histories\<close>

datatype 'v MemOp =
    MPut DateTime MemoryId "'v MemoryWrite"
  | MCas DateTime MemoryId "'v MemoryWrite" u64
  | MDelete string string
  | MCompactOne RecordKey
  | MPurge JobId

fun run_mem :: "'v MemOp \<Rightarrow> 'v InMemoryStore \<Rightarrow> 'v InMemoryStore" where
  "run_mem (MPut now i w) s = fst (mem_put now i w s)"
| "run_mem (MCas now i w expected) s = fst (compare_and_swap now i w expected s)"
| "run_mem (MDelete n k) s = fst (mem_delete n k s)"
| "run_mem (MCompactOne k) s = compact_remove k s"
| "run_mem (MPurge j) s = fst (mem_purge_job j s)"

text \<open>Well-formedness: records sit under their own key, and the audit history of a stored record ends
  with the operation that produced its version.\<close>

definition store_inv :: "'v InMemoryStore \<Rightarrow> bool" where
  "store_inv s \<longleftrightarrow>
     keys_distinct (st_records s) \<and>
     (\<forall>k r. map_of (st_records s) k = Some r \<longrightarrow>
        (mr_namespace r, mr_key r) = k \<and>
        (\<exists>h. map_of (st_history s) k = Some h \<and> h \<noteq> [] \<and> ae_version (last h) = mr_version r \<and>
           ae_at (last h) = mr_updated_at r))"

lemma store_inv_new: "store_inv new_store"
  by (simp add: store_inv_def new_store_def)

lemma note_op_records [simp]: "st_records (note_op r op actor s) = st_records s"
  by (simp add: note_op_def Let_def)

lemma note_op_history:
  "map_of (st_history (note_op r op actor s)) =
     (map_of (st_history s))((mr_namespace r, mr_key r) \<mapsto>
       (case map_of (st_history s) (mr_namespace r, mr_key r) of None \<Rightarrow> [] | Some h \<Rightarrow> h) @
       [\<lparr>ae_namespace = mr_namespace r, ae_key = mr_key r, ae_version = mr_version r,
         ae_operation = op, ae_actor = actor, ae_at = mr_updated_at r\<rparr>])"
  by (simp add: note_op_def Let_def)

lemma write_inv:
  assumes "store_inv s" "(mr_namespace r, mr_key r) = k"
  shows "store_inv (note_op r op actor (s\<lparr>st_records := AList.update k r (st_records s)\<rparr>))"
  using assms by (auto simp: store_inv_def note_op_history distinct_update)

lemma remove_inv:
  assumes "store_inv s" "map_of (st_records s) k = Some r"
  shows "store_inv (note_op r op actor (s\<lparr>st_records := AList.delete k (st_records s)\<rparr>))"
proof -
  have "(mr_namespace r, mr_key r) = k" using assms unfolding store_inv_def by blast
  with assms show ?thesis
    by (auto simp: store_inv_def note_op_history hm_delete_distinct)
qed

lemma bumped_key: "mr_namespace (bumped r w now) = mr_namespace r" "mr_key (bumped r w now) = mr_key r"
  "mr_namespace (fresh i w now) = mw_namespace w" "mr_key (fresh i w now) = mw_key w"
  by (simp_all add: bumped_def fresh_def)

lemma stored_key: "store_inv s \<Longrightarrow> map_of (st_records s) (n, k) = Some r \<Longrightarrow> mr_namespace r = n \<and> mr_key r = k"
  by (auto simp: store_inv_def)

lemma fold_delete_lookup:
  "map_of (fold AList.delete ks m) k = (if k \<in> set ks then None else map_of m k)"
  by (induction ks arbitrary: m) auto

lemma fold_delete_distinct: "keys_distinct m \<Longrightarrow> keys_distinct (fold AList.delete ks m)"
  by (induction ks arbitrary: m) (auto simp: hm_delete_distinct)

lemma run_mem_inv: "store_inv s \<Longrightarrow> store_inv (run_mem op s)"
proof (cases op)
  case (MPut now i w)
  moreover assume inv: "store_inv s"
  ultimately show ?thesis
    using stored_key [OF inv]
    by (auto simp: mem_put_def Let_def split: option.split intro!: write_inv simp: bumped_key)
next
  case (MCas now i w expected)
  moreover assume inv: "store_inv s"
  ultimately show ?thesis
    using stored_key [OF inv]
    by (auto simp: compare_and_swap_def Let_def split: option.split intro!: write_inv simp: bumped_key)
next
  case (MDelete n k)
  moreover assume "store_inv s"
  ultimately show ?thesis by (auto simp: mem_delete_def split: option.split intro: remove_inv)
next
  case (MCompactOne k)
  moreover assume "store_inv s"
  ultimately show ?thesis by (auto simp: compact_remove_def split: option.split intro: remove_inv)
next
  case (MPurge j)
  moreover assume "store_inv s"
  ultimately show ?thesis
    by (simp add: mem_purge_job_def Let_def store_inv_def fold_delete_lookup fold_delete_distinct)
qed

lemma run_mems_inv: "store_inv s \<Longrightarrow> store_inv (fold run_mem ops s)"
  by (induction ops arbitrary: s) (simp_all add: run_mem_inv)

text \<open>After any history of writes, swaps, deletes, expiries and purges, in any order, every stored
  record sits under its own namespace and key and its audit history ends with the operation that
  produced the stored version, at the time the record says it was updated.\<close>

theorem audit_matches_record:
  assumes "map_of (st_records (fold run_mem ops new_store)) (n, k) = Some r"
  shows "mr_namespace r = n \<and> mr_key r = k \<and>
    (\<exists>h e. mem_audit n k (fold run_mem ops new_store) = Ok (h @ [e]) \<and>
       ae_version e = mr_version r \<and> ae_at e = mr_updated_at r)"
proof -
  have inv: "store_inv (fold run_mem ops new_store)" by (rule run_mems_inv [OF store_inv_new])
  with assms obtain h where "map_of (st_history (fold run_mem ops new_store)) (n, k) = Some h"
    "h \<noteq> []" "ae_version (last h) = mr_version r" "ae_at (last h) = mr_updated_at r"
    unfolding store_inv_def by blast
  then have "\<exists>h e. mem_audit n k (fold run_mem ops new_store) = Ok (h @ [e]) \<and>
       ae_version e = mr_version r \<and> ae_at e = mr_updated_at r"
    by (intro exI [of _ "butlast h"] exI [of _ "last h"]) (simp add: mem_audit_def)
  with stored_key [OF inv assms] show ?thesis by blast
qed

theorem audit_matches_record_witness:
  "\<exists>h e. mem_audit ''n'' ''k'' (fold run_mem [MPut 5 1 (new_write ''n'' ''k'' (10 :: nat) ''a''),
     MPut 6 2 (new_write ''n'' ''k'' 20 ''a'')] new_store) = Ok (h @ [e]) \<and> ae_version e = 2"
proof -
  let ?ops = "[MPut 5 1 (new_write ''n'' ''k'' (10 :: nat) ''a''), MPut 6 2 (new_write ''n'' ''k'' 20 ''a'')]"
  have "\<exists>r. map_of (st_records (fold run_mem ?ops new_store)) (''n'', ''k'') = Some r \<and> mr_version r = 2"
    by (simp add: mem_put_def new_write_def new_store_def fresh_def bumped_def expiry_def or_else_def
        record_is_expired_def Let_def)
  then show ?thesis using audit_matches_record [of ?ops "''n''" "''k''"] by force
qed

section \<open>Lost updates\<close>

text \<open>Plain writes: puts and swaps (winning or losing) whose records do not expire.\<close>

fun plain_write :: "'v MemOp \<Rightarrow> bool" where
  "plain_write (MPut now i w) \<longleftrightarrow> mw_ttl w = None"
| "plain_write (MCas now i w expected) \<longleftrightarrow> mw_ttl w = None"
| "plain_write _ \<longleftrightarrow> False"

lemma put_bumps:
  assumes "map_of (st_records s) k = Some r" "mr_expires_at r = None" "mw_ttl w = None"
  shows "map_of (st_records (fst (mem_put now i w s))) k =
    Some (if k = (mw_namespace w, mw_key w) then bumped r w now else r)"
proof (cases "k = (mw_namespace w, mw_key w)")
  case True
  with assms show ?thesis by (simp add: mem_put_def Let_def record_is_expired_def)
next
  case False
  with ims.put_law [of now i w s] assms(1) show ?thesis by auto
qed

lemma cas_bumps:
  assumes "map_of (st_records s) k = Some r" "mr_expires_at r = None" "mw_ttl w = None" "mr_version r \<noteq> 0"
  shows "map_of (st_records (fst (compare_and_swap now i w e s))) k =
    Some (if k = (mw_namespace w, mw_key w) \<and> mr_version r = e then bumped r w now else r)"
proof (cases "k = (mw_namespace w, mw_key w)")
  case True
  with assms show ?thesis
    by (simp add: compare_and_swap_def Let_def record_is_expired_def VERSION_ABSENT_def)
next
  case False
  obtain s' r' where "compare_and_swap now i w e s = (s', r')" by fastforce
  with ims.cas_frame [OF this False] False assms(1) show ?thesis by simp
qed

lemma bumped_no_expiry:
  "mr_expires_at r = None \<Longrightarrow> mw_ttl w = None \<Longrightarrow> mr_expires_at (bumped r w now) = None"
  by (simp add: bumped_def expiry_def or_else_def)

lemma bumped_version_unat:
  "unat (mr_version r) + 1 < 2 ^ 64 \<Longrightarrow> unat (mr_version (bumped r w now)) = unat (mr_version r) + 1"
  by (simp add: bumped_def unat_word_ariths)

lemma plain_step:
  assumes "map_of (st_records s) k = Some r" "mr_expires_at r = None" "mr_version r \<noteq> 0"
    "unat (mr_version r) + 1 < 2 ^ 64" "plain_write op"
  obtains "map_of (st_records (run_mem op s)) k = Some r"
  | w now where "map_of (st_records (run_mem op s)) k = Some (bumped r w now)" "mw_ttl w = None"
proof (cases op)
  case (MPut now i w)
  with assms(5) put_bumps [OF assms(1,2), of w now i] that show thesis by (auto split: if_splits)
next
  case (MCas now i w e)
  with assms(5) cas_bumps [OF assms(1,2) _ assms(3), of w now i e] that show thesis
    by (auto split: if_splits)
qed (use assms(5) in auto)

lemma plain_run_version:
  assumes "map_of (st_records s) k = Some r" "mr_expires_at r = None" "mr_version r \<noteq> 0"
    "unat (mr_version r) + length ops < 2 ^ 64" "list_all plain_write ops"
  shows "\<exists>r'. map_of (st_records (fold run_mem ops s)) k = Some r' \<and>
    mr_expires_at r' = None \<and>
    unat (mr_version r) \<le> unat (mr_version r') \<and> (mr_version r' = mr_version r \<longrightarrow> r' = r)"
  using assms
proof (induction ops arbitrary: s r)
  case (Cons op ops)
  have lt: "unat (mr_version r) + 1 < 2 ^ 64" using Cons.prems(4) by simp
  from Cons.prems have op: "plain_write op" and ops: "list_all plain_write ops" by simp_all
  show ?case
  proof (rule plain_step [OF Cons.prems(1-3) lt op])
    assume "map_of (st_records (run_mem op s)) k = Some r"
    from Cons.IH [OF this Cons.prems(2,3) _ ops] Cons.prems(4) show ?thesis by simp
  next
    fix w now
    assume b: "map_of (st_records (run_mem op s)) k = Some (bumped r w now)" "mw_ttl w = None"
    note v = bumped_version_unat [OF lt, of w now]
    then have "mr_version (bumped r w now) \<noteq> 0" by (metis Suc_eq_plus1 nat.distinct(1) unsigned_0)
    from Cons.IH [OF b(1) bumped_no_expiry [OF Cons.prems(2) b(2)] this _ ops] v Cons.prems(4)
    obtain r' where "map_of (st_records (fold run_mem (op # ops) s)) k = Some r'"
      "mr_expires_at r' = None" "unat (mr_version (bumped r w now)) \<le> unat (mr_version r')" by auto
    with v show ?thesis by auto
  qed
qed simp

text \<open>No update is lost between a read and a swap. If an agent read a record, any number of puts
  and swaps by others happened to any keys, and its swap with the version it read then succeeds, the
  record it replaces is exactly the one it read: an intervening write to the key always makes the
  swap fail.\<close>

theorem cas_no_lost_update:
  assumes "map_of (st_records s) (mw_namespace w, mw_key w) = Some r" "mr_expires_at r = None"
    "mr_version r \<noteq> 0" "unat (mr_version r) + length ops < 2 ^ 64" "list_all plain_write ops"
    "compare_and_swap now i w (mr_version r) (fold run_mem ops s) = (s', Inr r')"
  shows "map_of (st_records (fold run_mem ops s)) (mw_namespace w, mw_key w) = Some r \<and>
    r' = bumped r w now"
proof -
  obtain q where q: "map_of (st_records (fold run_mem ops s)) (mw_namespace w, mw_key w) = Some q"
    "mr_version q = mr_version r \<longrightarrow> q = r"
    using plain_run_version [OF assms(1-5)] by blast
  have "live_version (map_of (st_records (fold run_mem ops s))) record_is_expired mr_version now
      (mw_namespace w, mw_key w) = mr_version r"
    using ims.cas_Ok_iff assms(6) by blast
  then have "mr_version q = mr_version r"
    using q(1) assms(3) by (auto simp: live_version_def VERSION_ABSENT_def split: if_splits)
  with q have st: "map_of (st_records (fold run_mem ops s)) (mw_namespace w, mw_key w) = Some r" by simp
  with assms(2,3,6) show ?thesis
    by (auto simp: compare_and_swap_def Let_def record_is_expired_def VERSION_ABSENT_def)
qed

definition demo_store :: "nat InMemoryStore" where
  "demo_store = run_mem (MPut 5 1 (new_write ''n'' ''k'' 10 ''a'')) new_store"

lemmas demo_mem_simps = demo_store_def mem_put_def compare_and_swap_def new_write_def new_store_def
  fresh_def bumped_def expiry_def or_else_def record_is_expired_def note_op_def VERSION_ABSENT_def Let_def

theorem cas_no_lost_update_witness:
  "\<exists>r. map_of (st_records (run_mem (MPut 6 2 (new_write ''n'' ''other'' 3 ''b'')) demo_store)) (''n'', ''k'') = Some r \<and>
     mr_value r = 10"
proof -
  let ?w = "new_write ''n'' ''k'' (11 :: nat) ''a''"
  let ?ops = "[MPut 6 2 (new_write ''n'' ''other'' (3 :: nat) ''b'')]"
  obtain r where r: "map_of (st_records demo_store) (mw_namespace ?w, mw_key ?w) = Some r"
    "mr_expires_at r = None" "mr_version r = 1" "mr_value r = 10" by (simp add: demo_mem_simps)
  have "\<exists>s' r'. compare_and_swap 7 3 ?w 1 (fold run_mem ?ops demo_store) = (s', Inr r')"
    by (simp add: demo_mem_simps)
  then obtain s' r' where "compare_and_swap 7 3 ?w (mr_version r) (fold run_mem ?ops demo_store) = (s', Inr r')"
    unfolding r(3) by blast
  moreover have "unat (mr_version r) + length ?ops < 2 ^ 64" "list_all plain_write ?ops"
    by (simp_all add: r(3) new_write_def)
  ultimately have "map_of (st_records (fold run_mem ?ops demo_store)) (mw_namespace ?w, mw_key ?w) = Some r"
    using cas_no_lost_update [OF r(1,2), of ?ops 7 3 s' r'] r(3) by simp
  with r(4) show ?thesis by (simp add: new_write_def)
qed

section \<open>Claims, visibility, versions\<close>

text \<open>versions count writes exactly: a put always succeeds with one more than the version of the live
  record (one for an absent or expired key) and is what the next read returns; it changes no other
  key.\<close>

theorem put_then_get:
  assumes "mem_put now i w s = (s', res)" "mw_ttl w = None"
    "\<And>q. map_of (st_records s) (mw_namespace w, mw_key w) = Some q \<Longrightarrow> mr_expires_at q = None"
  shows "\<exists>r. res = Ok r \<and> mr_value r = mw_value w \<and>
    mr_version r = live_version (map_of (st_records s)) record_is_expired mr_version now
      (mw_namespace w, mw_key w) + 1 \<and>
    mem_get later (mw_namespace w) (mw_key w) s' = Ok (Some r) \<and>
    (\<forall>n k. (n, k) \<noteq> (mw_namespace w, mw_key w) \<longrightarrow> mem_get later n k s' = mem_get later n k s)"
proof -
  obtain r where r: "res = Ok r" "mr_value r = mw_value w"
    "mr_version r = live_version (map_of (st_records s)) record_is_expired mr_version now
      (mw_namespace w, mw_key w) + 1"
    "map_of (st_records s') = (map_of (st_records s))((mw_namespace w, mw_key w) \<mapsto> r)"
    using ims.put_law [of now i w s] assms(1) by auto
  have "mr_expires_at r = None"
    using assms r(1)
    by (auto simp: mem_put_def Let_def fresh_def bumped_def expiry_def or_else_def
        split: option.splits if_splits)
  with r show ?thesis by (auto simp: mem_get_def record_is_expired_def)
qed

theorem put_then_get_witness:
  "\<exists>r. snd (mem_put 6 2 (new_write ''n'' ''k'' 20 ''b'') demo_store) = Ok r \<and> mr_version r = 2"
proof -
  let ?w = "new_write ''n'' ''k'' (20 :: nat) ''b''"
  obtain s' res where eq: "mem_put 6 2 ?w demo_store = (s', res)" by fastforce
  have "live_version (map_of (st_records demo_store)) record_is_expired mr_version 6 (''n'', ''k'') = 1"
    "\<And>q. map_of (st_records demo_store) (''n'', ''k'') = Some q \<Longrightarrow> mr_expires_at q = None"
    by (auto simp: demo_mem_simps live_version_def)
  with put_then_get [OF eq, of 9] eq show ?thesis by (auto simp: new_write_def)
qed

text \<open>A key is claimed once. The first claim of an absent key succeeds; as long as the claimed record
  does not expire and is not removed, every later claim, by any agent and after any other writes,
  returns \<open>None\<close> and changes nothing.\<close>

theorem claim_once:
  assumes "claim now i w s = (s1, Inr (Some r))" "mw_ttl w = None"
    "map_of (st_records s) (mw_namespace w, mw_key w) = None"
    "list_all plain_write ops" "length ops + 1 < 2 ^ 64"
    "(mw_namespace w', mw_key w') = (mw_namespace w, mw_key w)"
  shows "claim later j w' (fold run_mem ops s1) = (fold run_mem ops s1, Ok None)"
proof -
  let ?k = "(mw_namespace w, mw_key w)" and ?s = "fold run_mem ops s1"
  have r: "map_of (st_records s1) ?k = Some r" "mr_expires_at r = None" "mr_version r = 1"
    using assms(1-3)
    by (auto simp: claim_def compare_and_swap_def Let_def VERSION_ABSENT_def fresh_def expiry_def)
  from plain_run_version [OF r(1,2) _ _ assms(4)] r(3) assms(5)
  obtain q where q: "map_of (st_records ?s) ?k = Some q" "mr_expires_at q = None" "1 \<le> unat (mr_version q)"
    by auto
  then have "live_version (map_of (st_records ?s)) record_is_expired mr_version later
      (mw_namespace w', mw_key w') \<noteq> VERSION_ABSENT"
    using assms(6) by (auto simp: live_version_def record_is_expired_def VERSION_ABSENT_def)
  from ims.cas_loses [OF this, of j] show ?thesis by (simp add: claim_def)
qed

theorem claim_once_witness:
  "claim 9 4 (new_write ''n'' ''fresh'' 2 ''b'') (fst (claim 8 3 (new_write ''n'' ''fresh'' 1 ''a'') demo_store)) =
     (fst (claim 8 3 (new_write ''n'' ''fresh'' 1 ''a'') demo_store), Ok None)"
proof -
  let ?w = "new_write ''n'' ''fresh'' (1 :: nat) ''a''" and ?w' = "new_write ''n'' ''fresh'' (2 :: nat) ''b''"
  obtain s1 r where c: "claim 8 3 ?w demo_store = (s1, Inr (Some r))"
    by (simp add: claim_def demo_mem_simps)
  have "map_of (st_records demo_store) (mw_namespace ?w, mw_key ?w) = None" by (simp add: demo_mem_simps)
  from claim_once [OF c _ this, of "[]" ?w' 9 4] c show ?thesis by (simp add: new_write_def)
qed

text \<open>an expired record is invisible before any compaction: reads and listings skip it, and a claim
  of its key succeeds with a new record at version 1.\<close>

theorem expired_invisible:
  assumes "store_inv s" "map_of (st_records s) (n, k) = Some r" "record_is_expired now r"
    "mw_namespace w = n" "mw_key w = k"
  shows "mem_get now n k s = Ok None \<and>
    (\<forall>pre rs. mem_list now n pre s = Ok rs \<longrightarrow> r \<notin> set rs) \<and>
    (\<exists>s' q. claim now i w s = (s', Ok (Some q)) \<and> mr_version q = 1 \<and> mr_value q = mw_value w)"
  using assms
  by (auto simp: mem_get_def mem_list_def claim_def compare_and_swap_def Let_def VERSION_ABSENT_def fresh_def)

theorem expired_invisible_witness:
  "mem_get 20 ''n'' ''k'' (run_mem (MPut 5 1 (expiring_in 10 (new_write ''n'' ''k'' (7 :: nat) ''a''))) new_store) = Ok None"
proof -
  let ?s = "run_mem (MPut 5 1 (expiring_in 10 (new_write ''n'' ''k'' (7 :: nat) ''a''))) new_store"
  have "store_inv ?s" by (rule run_mem_inv [OF store_inv_new])
  moreover obtain r where "map_of (st_records ?s) (''n'', ''k'') = Some r" "record_is_expired 20 r"
    by (simp add: demo_mem_simps expiring_in_def duration_from_std_def ms_def)
  ultimately show ?thesis
    using expired_invisible [of ?s "''n''" "''k''" r 20 "new_write ''n'' ''k'' (7 :: nat) ''a''" 1]
    by (simp add: new_write_def)
qed

definition keyed :: "(RecordKey, 'v MemoryRecord) hashmap \<Rightarrow> bool" where
  "keyed m \<longleftrightarrow> keys_distinct m \<and> (\<forall>(k, r) \<in> set m. (mr_namespace r, mr_key r) = k)"

lemma store_inv_keyed: "store_inv s \<Longrightarrow> keyed (st_records s)"
  unfolding store_inv_def keyed_def by auto

lemma keyed_lookup:
  "keyed m \<Longrightarrow> map_of m (n, k) = Some r \<longleftrightarrow> r \<in> set (hm_values m) \<and> mr_namespace r = n \<and> mr_key r = k"
  unfolding keyed_def by (force simp: map_of_eq_Some_iff image_iff)

lemma distinct_keys_in_namespace:
  "keyed m \<Longrightarrow> distinct (map mr_key (filter (\<lambda>r. mr_namespace r = n \<and> p r) (hm_values m)))"
proof (induction m)
  case (Cons e m)
  obtain k0 r0 where e: "e = (k0, r0)" by (cases e)
  from Cons.prems e have m: "keyed m" and k0: "k0 = (mr_namespace r0, mr_key r0)"
    and new: "k0 \<notin> fst ` set m" by (auto simp: keyed_def)
  have "mr_key r \<noteq> mr_key r0" if r: "r \<in> set (hm_values m)" "mr_namespace r = mr_namespace r0" for r
  proof
    assume "mr_key r = mr_key r0"
    with r have "map_of m k0 = Some r" by (simp add: k0 keyed_lookup [OF m])
    with new show False by (auto simp: map_of_eq_None_iff [symmetric])
  qed
  with Cons.IH [OF m] show ?case by (force simp: e)
qed simp

text \<open>A listing is the sorted, duplicate-free list of exactly the live records of the namespace whose
  keys have the prefix.\<close>

theorem list_exact:
  assumes "store_inv s" "mem_list now n pre s = Ok rs"
  shows "sorted (map mr_key rs) \<and> distinct (map mr_key rs) \<and>
    (\<forall>r. r \<in> set rs \<longleftrightarrow>
       (\<exists>k. prefix pre k \<and> mem_get now n k s = Ok (Some r)))"
proof -
  let ?l = "filter (\<lambda>r. mr_namespace r = n \<and> prefix pre (mr_key r) \<and> \<not> record_is_expired now r)
    (hm_values (st_records s))"
  have rs: "rs = sort_key mr_key ?l" using assms(2) by (simp add: mem_list_def)
  note kd = store_inv_keyed [OF assms(1)]
  have "distinct (map mr_key ?l)" by (rule distinct_keys_in_namespace [OF kd])
  then have "distinct (map mr_key rs)" unfolding rs by (simp add: distinct_map)
  moreover have "mem_get now n k s = Ok (Some r) \<longleftrightarrow>
      map_of (st_records s) (n, k) = Some r \<and> \<not> record_is_expired now r" for k r
    by (auto simp: mem_get_def split: option.split)
  ultimately show ?thesis by (auto simp: rs keyed_lookup [OF kd])
qed

theorem list_exact_witness: "\<exists>rs. mem_list 6 ''n'' [] demo_store = Ok rs \<and> sorted (map mr_key rs)"
proof -
  obtain rs where eq: "mem_list 6 ''n'' [] demo_store = Ok rs" by (simp add: mem_list_def)
  have "store_inv demo_store" unfolding demo_store_def by (rule run_mem_inv [OF store_inv_new])
  from list_exact [OF this eq] eq show ?thesis by blast
qed

section \<open>Limits\<close>

text \<open>
  Compaction removes by key what its scan found expired, without looking again: a record written
  between the scan and the removal is deleted although it has not expired.
\<close>

definition stale_store :: "nat InMemoryStore" where
  "stale_store = run_mem (MPut 5 1 (expiring_in 10 (new_write ''n'' ''k'' 7 ''a''))) new_store"

lemma compact_drops_fresh_write:
  "\<exists>r. compact_scan 20 stale_store = [(''n'', ''k'')] \<and>
     snd (mem_put 21 2 (new_write ''n'' ''k'' 8 ''b'') stale_store) = Ok r \<and> \<not> record_is_expired 22 r \<and>
     mem_get 22 ''n'' ''k'' (compact_remove (''n'', ''k'')
       (fst (mem_put 21 2 (new_write ''n'' ''k'' 8 ''b'') stale_store))) = Ok None"
  by (simp add: stale_store_def compact_scan_def compact_remove_def mem_get_def demo_mem_simps
      expiring_in_def duration_from_std_def ms_def)

text \<open>A deleted key starts again at version 1, so a swap from a version read before the deletion can
  succeed on the new lineage.\<close>

lemma cas_after_recreation:
  "\<exists>s r. compare_and_swap 9 4 (new_write ''n'' ''k'' 99 ''a'') 1
     (run_mem (MPut 8 3 (new_write ''n'' ''k'' 50 ''b'')) (run_mem (MDelete ''n'' ''k'') demo_store)) =
     (s, Inr r)"
  by (simp add: mem_delete_def demo_mem_simps)

section \<open>Namespaces\<close>

context uuid_text
begin

lemma job_namespaces_inject:
  "ns_results disp i = ns_results disp j \<longleftrightarrow> i = j" "ns_executions disp i = ns_executions disp j \<longleftrightarrow> i = j"
  "ns_checkpoints disp i = ns_checkpoints disp j \<longleftrightarrow> i = j" "ns_working disp i = ns_working disp j \<longleftrightarrow> i = j"
  "ns_job disp i = ns_job disp j \<longleftrightarrow> i = j"
  by (simp_all add: ns_results_def ns_executions_def ns_checkpoints_def ns_working_def ns_job_def disp_inj)

lemma job_namespaces_disjoint:
  "ns_results disp i \<noteq> ns_executions disp j" "ns_results disp i \<noteq> ns_checkpoints disp j"
  "ns_executions disp i \<noteq> ns_checkpoints disp j" "ns_results disp i \<noteq> ns_agent disp a"
proof -
  have sep: "CHR ''/'' \<notin> set (disp i)" for i by (rule disp_no_sep) simp
  show "ns_results disp i \<noteq> ns_executions disp j" "ns_results disp i \<noteq> ns_checkpoints disp j"
    "ns_executions disp i \<noteq> ns_checkpoints disp j"
    using append_sep_inject_first [OF sep [of i] sep [of j]]
    by (simp_all add: ns_results_def ns_executions_def ns_checkpoints_def)
  show "ns_results disp i \<noteq> ns_agent disp a" by (simp add: ns_results_def ns_agent_def)
qed

end

end
