(* ===== verification/Petgraph.thy ===== *)
theory Petgraph
  imports Prelude
begin

text \<open>
  The third-party graph library \<open>petgraph\<close> as the task graph uses it: a record of the functions
  that are called, an argument of the model. \<open>pg_raw_nodes\<close> and \<open>pg_raw_edges\<close> (its
  \<open>raw_nodes\<close> and \<open>raw_edges\<close>) give the contents of a graph in index order and are used to state
  what the library documents; the model itself does not call them.
\<close>

record 'g petgraph =
  pg_new :: 'g
  pg_add_node :: "TaskId \<Rightarrow> 'g \<Rightarrow> 'g \<times> nat"
  pg_add_edge :: "nat \<Rightarrow> nat \<Rightarrow> 'g \<Rightarrow> 'g \<times> nat"
  pg_remove_edge :: "nat \<Rightarrow> 'g \<Rightarrow> 'g"
  pg_find_edge :: "nat \<Rightarrow> nat \<Rightarrow> 'g \<Rightarrow> nat option"
  pg_edges_incoming :: "nat \<Rightarrow> 'g \<Rightarrow> nat list"
  pg_neighbors_incoming :: "nat \<Rightarrow> 'g \<Rightarrow> nat list"
  pg_neighbors_outgoing :: "nat \<Rightarrow> 'g \<Rightarrow> nat list"
  pg_weight :: "'g \<Rightarrow> nat \<Rightarrow> TaskId"
  pg_toposort :: "'g \<Rightarrow> nat + nat list"
  pg_raw_nodes :: "'g \<Rightarrow> TaskId list"
  pg_raw_edges :: "'g \<Rightarrow> (nat \<times> nat) list"

text \<open>Edges whose end points are nodes of the graph.\<close>

definition edges_ok :: "'g petgraph \<Rightarrow> 'g \<Rightarrow> bool" where
  "edges_ok pg g \<longleftrightarrow>
     (\<forall>(a, b) \<in> set (pg_raw_edges pg g). a < length (pg_raw_nodes pg g) \<and> b < length (pg_raw_nodes pg g))"

text \<open>\<open>before xs a b\<close>: \<open>a\<close> occurs in \<open>xs\<close> at an earlier position than \<open>b\<close>.\<close>

definition before :: "'a list \<Rightarrow> 'a \<Rightarrow> 'a \<Rightarrow> bool" where
  "before xs a b \<longleftrightarrow> (\<exists>i j. i < j \<and> j < length xs \<and> xs ! i = a \<and> xs ! j = b)"

locale petgraph_laws =
  fixes pg :: "'g petgraph"
  assumes new_nodes: "pg_raw_nodes pg (pg_new pg) = []"
    and new_edges: "pg_raw_edges pg (pg_new pg) = []"
    and add_node: "pg_add_node pg w g = (g', i) \<Longrightarrow>
      i = length (pg_raw_nodes pg g) \<and> pg_raw_nodes pg g' = pg_raw_nodes pg g @ [w] \<and>
      pg_raw_edges pg g' = pg_raw_edges pg g"
    and add_edge: "a < length (pg_raw_nodes pg g) \<Longrightarrow> b < length (pg_raw_nodes pg g) \<Longrightarrow>
      pg_add_edge pg a b g = (g', e) \<Longrightarrow>
      e = length (pg_raw_edges pg g) \<and> pg_raw_edges pg g' = pg_raw_edges pg g @ [(a, b)] \<and>
      pg_raw_nodes pg g' = pg_raw_nodes pg g"
    and remove_edge: "pg_raw_edges pg (pg_remove_edge pg e g) = swap_remove e (pg_raw_edges pg g)"
    and remove_edge_nodes: "pg_raw_nodes pg (pg_remove_edge pg e g) = pg_raw_nodes pg g"
    and find_edge_Some: "pg_find_edge pg a b g = Some e \<Longrightarrow>
      e < length (pg_raw_edges pg g) \<and> pg_raw_edges pg g ! e = (a, b)"
    and find_edge_None: "pg_find_edge pg a b g = None \<Longrightarrow> (a, b) \<notin> set (pg_raw_edges pg g)"
    and edges_incoming: "edges_ok pg g \<Longrightarrow> n < length (pg_raw_nodes pg g) \<Longrightarrow>
      distinct (pg_edges_incoming pg n g) \<and>
      set (pg_edges_incoming pg n g) = {e. e < length (pg_raw_edges pg g) \<and> snd (pg_raw_edges pg g ! e) = n}"
    and neighbors_incoming: "edges_ok pg g \<Longrightarrow> n < length (pg_raw_nodes pg g) \<Longrightarrow>
      set (pg_neighbors_incoming pg n g) = {a. (a, n) \<in> set (pg_raw_edges pg g)}"
    and neighbors_outgoing: "edges_ok pg g \<Longrightarrow> n < length (pg_raw_nodes pg g) \<Longrightarrow>
      set (pg_neighbors_outgoing pg n g) = {b. (n, b) \<in> set (pg_raw_edges pg g)}"
    and weight: "n < length (pg_raw_nodes pg g) \<Longrightarrow> pg_weight pg g n = pg_raw_nodes pg g ! n"
    and toposort_Ok: "edges_ok pg g \<Longrightarrow> pg_toposort pg g = Inr order \<Longrightarrow>
      distinct order \<and> set order = {..<length (pg_raw_nodes pg g)} \<and>
      (\<forall>(a, b) \<in> set (pg_raw_edges pg g). before order a b)"
    and toposort_cycle: "edges_ok pg g \<Longrightarrow> pg_toposort pg g = Inl n \<Longrightarrow>
      n < length (pg_raw_nodes pg g) \<and> (n, n) \<in> (set (pg_raw_edges pg g))\<^sup>+"
begin

lemma before_acyclic:
  assumes "distinct order" "\<forall>(a, b) \<in> r. before order a b"
  shows "acyclic r"
proof -
  have "before order a b" if "(a, b) \<in> r\<^sup>+" for a b
    using that
  proof (induction rule: trancl_induct)
    case (step b c)
    from step.IH assms(2) step.hyps(2) have "before order a b" "before order b c" by auto
    then obtain i j k l where "i < j" "j < length order" "order ! i = a" "order ! j = b"
      "k < l" "l < length order" "order ! k = b" "order ! l = c" unfolding before_def by blast
    moreover from this have "j = k"
      using nth_eq_iff_index_eq [OF assms(1), of j k] by simp
    ultimately show ?case
      unfolding before_def by (intro exI [of _ i] exI [of _ l]) simp
  qed (use assms(2) in auto)
  then have "(a, a) \<notin> r\<^sup>+" for a
    using nth_eq_iff_index_eq [OF assms(1)] unfolding before_def by (metis less_irrefl less_trans)
  then show ?thesis by (simp add: acyclic_def)
qed

lemma toposort_iff_acyclic:
  assumes "edges_ok pg g"
  shows "(\<exists>order. pg_toposort pg g = Inr order) \<longleftrightarrow> acyclic (set (pg_raw_edges pg g))"
proof
  assume "\<exists>order. pg_toposort pg g = Inr order"
  then obtain order where "pg_toposort pg g = Inr order" by blast
  from toposort_Ok [OF assms this] show "acyclic (set (pg_raw_edges pg g))"
    by (intro before_acyclic [of order]) auto
next
  assume "acyclic (set (pg_raw_edges pg g))"
  then show "\<exists>order. pg_toposort pg g = Inr order"
    using toposort_cycle [OF assms] by (cases "pg_toposort pg g") (auto simp: acyclic_def)
qed

lemma add_edge_cases:
  assumes "a < length (pg_raw_nodes pg g)" "b < length (pg_raw_nodes pg g)"
  shows "pg_raw_edges pg (fst (pg_add_edge pg a b g)) = pg_raw_edges pg g @ [(a, b)]"
    "pg_raw_nodes pg (fst (pg_add_edge pg a b g)) = pg_raw_nodes pg g"
    "snd (pg_add_edge pg a b g) = length (pg_raw_edges pg g)"
  using add_edge [OF assms, of "fst (pg_add_edge pg a b g)" "snd (pg_add_edge pg a b g)"] by auto

lemma add_then_remove:
  assumes "a < length (pg_raw_nodes pg g)" "b < length (pg_raw_nodes pg g)" "pg_add_edge pg a b g = (g', e)"
  shows "pg_raw_edges pg (pg_remove_edge pg e g') = pg_raw_edges pg g"
    "pg_raw_nodes pg (pg_remove_edge pg e g') = pg_raw_nodes pg g"
  using add_edge [OF assms] by (simp_all add: remove_edge remove_edge_nodes swap_remove_def)

end

section \<open>A list-based implementation\<close>

text \<open>
  Nodes and edges in two lists. The topological order is Kahn's: repeatedly take the first node
  that no remaining node points to.
\<close>

type_synonym list_graph = "TaskId list \<times> (nat \<times> nat) list"

definition source :: "(nat \<times> nat) list \<Rightarrow> nat list \<Rightarrow> nat \<Rightarrow> bool" where
  "source es ns n \<longleftrightarrow> (\<forall>(a, b) \<in> set es. b = n \<longrightarrow> a \<notin> set ns)"

fun kahn :: "nat \<Rightarrow> (nat \<times> nat) list \<Rightarrow> nat list \<Rightarrow> nat list" where
  "kahn 0 es ns = []"
| "kahn (Suc fuel) es ns =
     (case find (source es ns) ns of None \<Rightarrow> [] | Some n \<Rightarrow> n # kahn fuel es (remove1 n ns))"

definition list_toposort :: "list_graph \<Rightarrow> nat + nat list" where
  "list_toposort g =
     (case g of (ws, es) \<Rightarrow>
        (case find (\<lambda>n. (n, n) \<in> (set es)\<^sup>+) [0..<length ws] of
           Some n \<Rightarrow> Inl n
         | None \<Rightarrow> Inr (kahn (length ws) es [0..<length ws])))"

definition list_pg :: "list_graph petgraph" where
  "list_pg =
     \<lparr>pg_new = ([], []),
      pg_add_node = (\<lambda>w (ws, es). ((ws @ [w], es), length ws)),
      pg_add_edge = (\<lambda>a b (ws, es). ((ws, es @ [(a, b)]), length es)),
      pg_remove_edge = (\<lambda>e (ws, es). (ws, swap_remove e es)),
      pg_find_edge = (\<lambda>a b (ws, es). position (\<lambda>x. x = (a, b)) es),
      pg_edges_incoming = (\<lambda>n (ws, es). filter (\<lambda>e. snd (es ! e) = n) [0..<length es]),
      pg_neighbors_incoming = (\<lambda>n (ws, es). map fst (filter (\<lambda>e. snd e = n) es)),
      pg_neighbors_outgoing = (\<lambda>n (ws, es). map snd (filter (\<lambda>e. fst e = n) es)),
      pg_weight = (\<lambda>(ws, es) n. ws ! n),
      pg_toposort = list_toposort,
      pg_raw_nodes = fst, pg_raw_edges = snd\<rparr>"

lemma before_Cons: "before (x # xs) a b \<longleftrightarrow> (x = a \<and> b \<in> set xs) \<or> before xs a b"
proof
  assume "before (x # xs) a b"
  then obtain i j where ij: "i < j" "j < Suc (length xs)" "(x # xs) ! i = a" "(x # xs) ! j = b"
    unfolding before_def by auto
  then obtain j' where j': "j = Suc j'" by (cases j) auto
  show "(x = a \<and> b \<in> set xs) \<or> before xs a b"
  proof (cases i)
    case 0
    with ij j' show ?thesis by auto
  next
    case (Suc i')
    with ij j' show ?thesis unfolding before_def by auto
  qed
next
  assume "(x = a \<and> b \<in> set xs) \<or> before xs a b"
  then show "before (x # xs) a b"
  proof
    assume "x = a \<and> b \<in> set xs"
    then obtain j where "j < length xs" "xs ! j = b" "x = a" by (auto simp: in_set_conv_nth)
    then show ?thesis unfolding before_def by (intro exI [of _ 0] exI [of _ "Suc j"]) simp
  next
    assume "before xs a b"
    then obtain i j where "i < j" "j < length xs" "xs ! i = a" "xs ! j = b" unfolding before_def by blast
    then show ?thesis unfolding before_def by (intro exI [of _ "Suc i"] exI [of _ "Suc j"]) simp
  qed
qed

lemma source_exists:
  assumes "acyclic (set es)" "ns \<noteq> []"
  shows "\<exists>n \<in> set ns. source es ns n"
proof -
  have "wf (set es)" using assms(1) by (simp add: finite_acyclic_wf)
  then obtain n where "n \<in> set ns" "\<forall>a. (a, n) \<in> set es \<longrightarrow> a \<notin> set ns"
    using assms(2) wfE_min [of "set es" "hd ns" "set ns"] by (metis list.set_sel(1))
  then show ?thesis unfolding source_def by blast
qed

lemma kahn_correct:
  assumes "acyclic (set es)" "distinct ns" "length ns \<le> fuel"
  shows "distinct (kahn fuel es ns) \<and> set (kahn fuel es ns) = set ns \<and>
    (\<forall>(a, b) \<in> set es. a \<in> set ns \<longrightarrow> b \<in> set ns \<longrightarrow> before (kahn fuel es ns) a b)"
  using assms(2,3)
proof (induction fuel arbitrary: ns)
  case (Suc fuel)
  show ?case
  proof (cases "find (source es ns) ns")
    case None
    then have "ns = []" using source_exists [OF assms(1), of ns] by (auto simp: find_None_iff)
    with None show ?thesis by simp
  next
    case (Some n)
    then have n: "n \<in> set ns" "source es ns n" by (auto simp: find_Some_iff)
    let ?k = "kahn fuel es (remove1 n ns)"
    have rest: "set (remove1 n ns) = set ns - {n}" "length (remove1 n ns) \<le> fuel"
      using Suc.prems n(1) by (auto simp: length_remove1)
    have ih: "distinct ?k" "set ?k = set ns - {n}"
      "\<forall>(a, b) \<in> set es. a \<in> set ns - {n} \<longrightarrow> b \<in> set ns - {n} \<longrightarrow> before ?k a b"
      using Suc.IH [of "remove1 n ns"] Suc.prems(1) rest by auto
    have "before (n # ?k) a b" if ab: "(a, b) \<in> set es" "a \<in> set ns" "b \<in> set ns" for a b
    proof -
      have "b \<noteq> n" using n(2) ab unfolding source_def by auto
      then show ?thesis using ih ab by (auto simp: before_Cons)
    qed
    with Some ih n(1) show ?thesis by auto
  qed
qed simp

interpretation list_pg: petgraph_laws list_pg
proof (unfold_locales, goal_cases)
  case (7 a b g e)
  then show ?case
    using position_SomeD [of "\<lambda>x. x = (a, b)" "snd g" e] by (simp add: list_pg_def case_prod_unfold)
next
  case (8 a b g)
  then show ?case by (auto simp: list_pg_def case_prod_unfold position_None_iff)
next
  case (13 g order)
  let ?n = "length (fst g)"
  from 13(2) have f: "find (\<lambda>n. (n, n) \<in> (set (snd g))\<^sup>+) [0..<?n] = None"
    and order: "order = kahn ?n (snd g) [0..<?n]"
    by (auto simp: list_pg_def list_toposort_def case_prod_unfold split: option.splits)
  have ok: "\<forall>(a, b) \<in> set (snd g). a < ?n \<and> b < ?n" using 13(1) by (simp add: edges_ok_def list_pg_def)
  have "n < ?n" if "(n, n) \<in> (set (snd g))\<^sup>+" for n
    using tranclD [OF that] ok by auto
  with f have ac: "acyclic (set (snd g))" unfolding acyclic_def find_None_iff by auto
  from kahn_correct [OF ac, of "[0..<?n]" ?n] ok show ?case
    unfolding order by (auto simp: list_pg_def)
next
  case (14 g n)
  then show ?case
    by (auto simp: list_pg_def list_toposort_def case_prod_unfold find_Some_iff split: option.splits)
qed (force simp: list_pg_def case_prod_unfold edges_ok_def swap_remove_def image_iff)+

end
