(* ===== verification/TaskGraph.thy ===== *)
theory TaskGraph
  imports Lifecycle Petgraph
begin

text \<open>
  The task dependency graph (\<open>crates/domain/src/graph.rs\<close>): the records of a job's tasks, the
  petgraph topology over them, and every operation. The graph library is the argument \<open>pg\<close>.
  Operations that mutate return the new graph in the error case too, because the source leaves the
  mutations it made before an error in place unless it undoes them.
\<close>

record GraphCounts =
  gc_total :: nat
  gc_pending :: nat
  gc_queued :: nat
  gc_in_flight :: nat
  gc_completed :: nat
  gc_retrying :: nat
  gc_abandoned :: nat

definition terminal_count :: "GraphCounts \<Rightarrow> nat" where
  "terminal_count c = gc_completed c + gc_abandoned c"

record 'g TaskGraph =
  tg_job_id :: JobId
  tg_graph :: 'g
  tg_index :: "(TaskId, nat) hashmap"
  tg_nodes :: "(TaskId, TaskNode) hashmap"

definition new_graph :: "'g petgraph \<Rightarrow> JobId \<Rightarrow> 'g TaskGraph" where
  "new_graph pg j = \<lparr>tg_job_id = j, tg_graph = pg_new pg, tg_index = [], tg_nodes = []\<rparr>"

definition graph_len :: "'g TaskGraph \<Rightarrow> nat" where
  "graph_len s = length (tg_nodes s)"

definition get_task :: "'g TaskGraph \<Rightarrow> TaskId \<Rightarrow> TaskNode option" where
  "get_task s i = map_of (tg_nodes s) i"

text \<open>\<open>get_mut\<close> followed by an update of the record it returns.\<close>

definition update_task :: "TaskId \<Rightarrow> (TaskNode \<Rightarrow> TaskNode) \<Rightarrow> 'g TaskGraph \<Rightarrow> 'g TaskGraph" where
  "update_task i f s =
     (case map_of (tg_nodes s) i of
        None \<Rightarrow> s
      | Some n \<Rightarrow> s\<lparr>tg_nodes := AList.update i (f n) (tg_nodes s)\<rparr>)"

definition require :: "'g TaskGraph \<Rightarrow> TaskId \<Rightarrow> TaskNode result" where
  "require s i =
     (case map_of (tg_nodes s) i of None \<Rightarrow> Err (NotFound ''task'' i) | Some n \<Rightarrow> Ok n)"

definition index_of :: "'g TaskGraph \<Rightarrow> TaskId \<Rightarrow> nat result" where
  "index_of s i =
     (case map_of (tg_index s) i of None \<Rightarrow> Err (NotFound ''task'' i) | Some n \<Rightarrow> Ok n)"

text \<open>The loop of \<open>insert\<close> that adds an edge per dependency; indexing a map without the key panics.\<close>

fun add_dependency_edges ::
  "'g petgraph \<Rightarrow> TaskId list \<Rightarrow> nat \<Rightarrow> 'g TaskGraph \<Rightarrow> 'g TaskGraph \<times> unit result" where
  "add_dependency_edges pg [] node_index s = (s, Ok ())"
| "add_dependency_edges pg (d # ds) node_index s =
     (case map_of (tg_index s) d of
        None \<Rightarrow> (s, panic ''no entry found for key'')
      | Some di \<Rightarrow>
          add_dependency_edges pg ds node_index
            (s\<lparr>tg_graph := fst (pg_add_edge pg di node_index (tg_graph s))\<rparr>))"

definition insert_task ::
  "'g petgraph \<Rightarrow> TaskNode \<Rightarrow> 'g TaskGraph \<Rightarrow> 'g TaskGraph \<times> TaskId result" where
  "insert_task pg node s =
     (if map_of (tg_nodes s) (tn_id node) \<noteq> None
      then (s, Err (Internal ''task is already in the graph''))
      else
        case find (\<lambda>d. map_of (tg_nodes s) d = None) (tn_dependencies node) of
          Some d \<Rightarrow> (s, Err (UnknownDependency (tn_id node) d))
        | None \<Rightarrow>
            (let (g, node_index) = pg_add_node pg (tn_id node) (tg_graph s);
                 s1 = s\<lparr>tg_graph := g, tg_index := AList.update (tn_id node) node_index (tg_index s)\<rparr>
             in case add_dependency_edges pg (tn_dependencies node) node_index s1 of
                  (s2, Inl e) \<Rightarrow> (s2, Inl e)
                | (s2, Inr _) \<Rightarrow>
                    (s2\<lparr>tg_nodes := AList.update (tn_id node) node (tg_nodes s2)\<rparr>, Ok (tn_id node))))"

definition assert_acyclic :: "'g petgraph \<Rightarrow> 'g TaskGraph \<Rightarrow> unit result" where
  "assert_acyclic pg s =
     (case pg_toposort pg (tg_graph s) of
        Inr _ \<Rightarrow> Ok ()
      | Inl n \<Rightarrow> Err (CyclicGraph (pg_weight pg (tg_graph s) n)))"

definition add_dependency ::
  "'g petgraph \<Rightarrow> TaskId \<Rightarrow> TaskId \<Rightarrow> 'g TaskGraph \<Rightarrow> 'g TaskGraph \<times> unit result" where
  "add_dependency pg task depends_on s =
     (case index_of s task of
        Inl e \<Rightarrow> (s, Inl e)
      | Inr task_index \<Rightarrow>
          (case index_of s depends_on of
             Inl e \<Rightarrow> (s, Inl e)
           | Inr dependency_index \<Rightarrow>
               if task = depends_on then (s, Err (CyclicGraph task))
               else if (case map_of (tg_nodes s) task of
                          None \<Rightarrow> False | Some n \<Rightarrow> depends_on \<in> set (tn_dependencies n))
               then (s, Ok ())
               else
                 let (g, edge) = pg_add_edge pg dependency_index task_index (tg_graph s);
                     s1 = s\<lparr>tg_graph := g\<rparr>
                 in case assert_acyclic pg s1 of
                      Inl e \<Rightarrow> (s1\<lparr>tg_graph := pg_remove_edge pg edge g\<rparr>, Inl e)
                    | Inr _ \<Rightarrow>
                        (update_task task
                           (\<lambda>n. n\<lparr>tn_dependencies := tn_dependencies n @ [depends_on]\<rparr>) s1, Ok ())))"

definition remove_dependency ::
  "'g petgraph \<Rightarrow> TaskId \<Rightarrow> TaskId \<Rightarrow> 'g TaskGraph \<Rightarrow> 'g TaskGraph" where
  "remove_dependency pg task depends_on s =
     (case (index_of s task, index_of s depends_on) of
        (Inr task_index, Inr dependency_index) \<Rightarrow>
          (let s1 = (case pg_find_edge pg dependency_index task_index (tg_graph s) of
                       Some e \<Rightarrow> s\<lparr>tg_graph := pg_remove_edge pg e (tg_graph s)\<rparr>
                     | None \<Rightarrow> s)
           in update_task task
                (\<lambda>n. n\<lparr>tn_dependencies := filter (\<lambda>d. d \<noteq> depends_on) (tn_dependencies n)\<rparr>) s1)
      | _ \<Rightarrow> s)"

text \<open>
  \<open>insert_dynamic\<close>: the loop over the dependents, and the roll-back over those before the one that
  failed.
\<close>

fun attach_dependents ::
  "'g petgraph \<Rightarrow> TaskId list \<Rightarrow> TaskId \<Rightarrow> TaskId list \<Rightarrow> 'g TaskGraph \<Rightarrow>
   'g TaskGraph \<times> TaskId result" where
  "attach_dependents pg all i [] s = (s, Ok i)"
| "attach_dependents pg all i (dep # rest) s =
     (case add_dependency pg dep i s of
        (s1, Inr _) \<Rightarrow> attach_dependents pg all i rest s1
      | (s1, Inl e) \<Rightarrow>
          (let s2 = fold (\<lambda>earlier. remove_dependency pg earlier i)
                      (takeWhile (\<lambda>earlier. earlier \<noteq> dep) all) s1
           in (s2\<lparr>tg_nodes := AList.delete i (tg_nodes s2),
                  tg_index := AList.delete i (tg_index s2)\<rparr>, Inl e)))"

definition insert_dynamic ::
  "'g petgraph \<Rightarrow> TaskNode \<Rightarrow> TaskId list \<Rightarrow> 'g TaskGraph \<Rightarrow> 'g TaskGraph \<times> TaskId result" where
  "insert_dynamic pg node dependents s =
     (case insert_task pg node s of
        (s1, Inl e) \<Rightarrow> (s1, Inl e)
      | (s1, Inr i) \<Rightarrow> attach_dependents pg dependents i dependents s1)"

definition dependencies :: "'g petgraph \<Rightarrow> 'g TaskGraph \<Rightarrow> TaskId \<Rightarrow> TaskId list" where
  "dependencies pg s task =
     (case map_of (tg_index s) task of
        None \<Rightarrow> []
      | Some n \<Rightarrow> map (pg_weight pg (tg_graph s)) (pg_neighbors_incoming pg n (tg_graph s)))"

definition dependents :: "'g petgraph \<Rightarrow> 'g TaskGraph \<Rightarrow> TaskId \<Rightarrow> TaskId list" where
  "dependents pg s task =
     (case map_of (tg_index s) task of
        None \<Rightarrow> []
      | Some n \<Rightarrow> map (pg_weight pg (tg_graph s)) (pg_neighbors_outgoing pg n (tg_graph s)))"

text \<open>The loop of \<open>split\<close>: insert each child with the inherited dependencies, then attach it.\<close>

fun split_children ::
  "'g petgraph \<Rightarrow> TaskId \<Rightarrow> TaskId list \<Rightarrow> TaskNode list \<Rightarrow> TaskId list \<Rightarrow> 'g TaskGraph \<Rightarrow>
   'g TaskGraph \<times> TaskId list result" where
  "split_children pg task inherited [] child_ids s = (s, Ok child_ids)"
| "split_children pg task inherited (child # children) child_ids s =
     (case insert_task pg (child\<lparr>tn_dependencies := inherited\<rparr>) s of
        (s1, Inl e) \<Rightarrow> (s1, Inl e)
      | (s1, Inr child_id) \<Rightarrow>
          (case add_dependency pg task child_id s1 of
             (s2, Inl e) \<Rightarrow> (s2, Inl e)
           | (s2, Inr _) \<Rightarrow> split_children pg task inherited children (child_ids @ [child_id]) s2))"

definition split_task ::
  "'g petgraph \<Rightarrow> TaskId \<Rightarrow> TaskNode list \<Rightarrow> 'g TaskGraph \<Rightarrow> 'g TaskGraph \<times> TaskId list result" where
  "split_task pg task children s =
     (if children = [] then (s, Err (Validation ''splitting a task requires at least one child''))
      else
        case index_of s task of
          Inl e \<Rightarrow> (s, Inl e)
        | Inr task_index \<Rightarrow>
            (let inherited = dependencies pg s task;
                 incoming = pg_edges_incoming pg task_index (tg_graph s);
                 s1 = s\<lparr>tg_graph := fold (pg_remove_edge pg) incoming (tg_graph s)\<rparr>;
                 s2 = update_task task (\<lambda>n. n\<lparr>tn_dependencies := []\<rparr>) s1
             in split_children pg task inherited children [] s2))"

definition topological_order :: "'g petgraph \<Rightarrow> 'g TaskGraph \<Rightarrow> TaskId list result" where
  "topological_order pg s =
     (case pg_toposort pg (tg_graph s) of
        Inr order \<Rightarrow> Ok (map (pg_weight pg (tg_graph s)) order)
      | Inl n \<Rightarrow> Err (CyclicGraph (pg_weight pg (tg_graph s) n)))"

text \<open>The loop of \<open>layers\<close>: the depth of a task is one more than the deepest of its dependencies.\<close>

definition max_depth :: "nat list \<Rightarrow> nat" where
  "max_depth ds = (if ds = [] then 0 else Max (set ds) + 1)"

definition push_layer :: "nat \<Rightarrow> TaskId \<Rightarrow> TaskId list list \<Rightarrow> TaskId list list" where
  "push_layer d task ls =
     (let ls' = (if length ls \<le> d then ls @ replicate (d + 1 - length ls) [] else ls)
      in ls'[d := ls' ! d @ [task]])"

fun layers_loop ::
  "(TaskId \<Rightarrow> TaskId list) \<Rightarrow> TaskId list \<Rightarrow> (TaskId \<rightharpoonup> nat) \<Rightarrow> TaskId list list \<Rightarrow>
   (TaskId \<rightharpoonup> nat) \<times> TaskId list list" where
  "layers_loop deps [] depth ls = (depth, ls)"
| "layers_loop deps (task # order) depth ls =
     (let d = max_depth (List.map_filter depth (deps task))
      in layers_loop deps order (depth(task \<mapsto> d)) (push_layer d task ls))"

definition layers :: "'g petgraph \<Rightarrow> 'g TaskGraph \<Rightarrow> TaskId list list result" where
  "layers pg s =
     bindR (topological_order pg s) (\<lambda>order.
       Ok (snd (layers_loop (dependencies pg s) order Map.empty [])))"

definition completed_ids :: "'g TaskGraph \<Rightarrow> TaskId set" where
  "completed_ids s =
     set (map tn_id (filter (\<lambda>n. tn_state n = TaskState.Completed) (hm_values (tg_nodes s))))"

definition stage_key :: "'g TaskGraph \<Rightarrow> TaskId \<Rightarrow> u32 \<times> TaskId" where
  "stage_key s i = (case map_of (tg_nodes s) i of None \<Rightarrow> (0, i) | Some n \<Rightarrow> (tn_stage n, i))"

definition ready :: "'g TaskGraph \<Rightarrow> TaskId list" where
  "ready s =
     sort_key (stage_key s)
       (map tn_id
         (filter (\<lambda>n. (tn_state n = TaskState.Created \<or> tn_state n = TaskState.WaitingForDependency) \<and>
                      dependencies_satisfied n (completed_ids s))
           (hm_values (tg_nodes s))))"

definition abandoned_ids :: "'g TaskGraph \<Rightarrow> TaskId list" where
  "abandoned_ids s =
     map tn_id (filter (\<lambda>n. tn_state n = TaskState.DeadLettered \<or> tn_state n = TaskState.Cancelled)
       (hm_values (tg_nodes s)))"

text \<open>
  The walk of \<open>blocked_by_abandoned\<close>: \<open>visit\<close> is the body of its inner loop, on the blocked tasks,
  the frontier (popped from its end) and the tasks seen.
\<close>

fun visit ::
  "'g TaskGraph \<Rightarrow> TaskId \<Rightarrow> TaskId list \<times> TaskId list \<times> TaskId set \<Rightarrow>
   TaskId list \<times> TaskId list \<times> TaskId set" where
  "visit s dep (blocked, frontier, seen) =
     (if dep \<in> seen then (blocked, frontier, seen)
      else
        case map_of (tg_nodes s) dep of
          Some n \<Rightarrow>
            if \<not> node_is_terminal n
            then (blocked @ [dep], frontier @ [dep], insert dep seen)
            else (blocked, frontier, insert dep seen)
        | None \<Rightarrow> (blocked, frontier, insert dep seen))"

definition unseen :: "'g TaskGraph \<Rightarrow> TaskId set \<Rightarrow> nat" where
  "unseen s seen = card (dom (map_of (tg_nodes s)) - seen)"

lemma visit_measure:
  assumes "visit s d (b, f, seen) = (b', f', seen')"
  shows "seen \<subseteq> seen' \<and> unseen s seen' + length f' \<le> unseen s seen + length f"
proof -
  let ?D = "dom (map_of (tg_nodes s))"
  have fin: "finite (?D - seen)" by (simp add: finite_dom_map_of)
  have le: "card (?D - insert d seen) \<le> card (?D - seen)" by (intro card_mono fin) auto
  have lt: "card (?D - insert d seen) < card (?D - seen)" if "map_of (tg_nodes s) d \<noteq> None" "d \<notin> seen"
    using that by (intro psubset_card_mono fin) auto
  show ?thesis
    using assms le lt by (auto simp: unseen_def Suc_le_eq split: if_splits option.splits)
qed

lemma visits_measure:
  assumes "fold (visit s) ds (b, f, seen) = (b', f', seen')"
  shows "seen \<subseteq> seen' \<and> unseen s seen' + length f' \<le> unseen s seen + length f"
  using assms
proof (induction ds arbitrary: b f seen)
  case (Cons d ds)
  obtain b1 f1 seen1 where v: "visit s d (b, f, seen) = (b1, f1, seen1)" by (metis prod_cases3)
  from Cons.IH [of b1 f1 seen1] Cons.prems visit_measure [OF v] v show ?case by auto
qed simp

function blocked_loop ::
  "'g petgraph \<Rightarrow> 'g TaskGraph \<Rightarrow> TaskId list \<times> TaskId list \<times> TaskId set \<Rightarrow> TaskId list" where
  "blocked_loop pg s (blocked, frontier, seen) =
     (if frontier = [] then blocked
      else blocked_loop pg s
             (fold (visit s) (dependents pg s (last frontier)) (blocked, butlast frontier, seen)))"
  by pat_completeness auto
termination
proof (relation "measure (\<lambda>(pg, s, b, f, seen). unseen s seen + length f)", goal_cases)
  case (2 pg s blocked frontier seen)
  obtain b' f' seen' where v: "fold (visit s) (dependents pg s (last frontier)) (blocked, butlast frontier, seen) =
      (b', f', seen')" by (metis prod_cases3)
  from visits_measure [OF v] have "unseen s seen' + length f' \<le> unseen s seen + (length frontier - 1)"
    by simp
  moreover have "0 < length frontier" using 2 by simp
  ultimately have "unseen s seen' + length f' < unseen s seen + length frontier" by linarith
  with v show ?case by simp
qed simp

declare blocked_loop.simps [simp del]

definition blocked_by_abandoned :: "'g petgraph \<Rightarrow> 'g TaskGraph \<Rightarrow> TaskId list" where
  "blocked_by_abandoned pg s =
     (let abandoned = abandoned_ids s in
      if abandoned = [] then []
      else blocked_loop pg s ([], abandoned, set abandoned))"

definition set_state ::
  "DateTime \<Rightarrow> TaskId \<Rightarrow> TaskState \<Rightarrow> string \<Rightarrow> string option \<Rightarrow> CorrelationId \<Rightarrow> 'g TaskGraph \<Rightarrow>
   'g TaskGraph \<times> TaskState Transition result" where
  "set_state now task dst actor reason corr s =
     (case map_of (tg_nodes s) task of
        None \<Rightarrow> (s, Err (NotFound ''task'' task))
      | Some n \<Rightarrow>
          (case apply_transition task_machine now (tn_state n) dst actor reason corr of
             Inl e \<Rightarrow> (s, Inl e)
           | Inr (next, t) \<Rightarrow> (update_task task (\<lambda>n. n\<lparr>tn_state := next\<rparr>) s, Ok t)))"

definition restore_state :: "TaskId \<Rightarrow> TaskState \<Rightarrow> 'g TaskGraph \<Rightarrow> 'g TaskGraph \<times> unit result" where
  "restore_state task st s =
     (case map_of (tg_nodes s) task of
        None \<Rightarrow> (s, Err (NotFound ''task'' task))
      | Some n \<Rightarrow> (update_task task (\<lambda>n. n\<lparr>tn_state := st\<rparr>) s, Ok ()))"

definition zero_counts :: "nat \<Rightarrow> GraphCounts" where
  "zero_counts n =
     \<lparr>gc_total = n, gc_pending = 0, gc_queued = 0, gc_in_flight = 0, gc_completed = 0,
      gc_retrying = 0, gc_abandoned = 0\<rparr>"

fun count_state :: "TaskState \<Rightarrow> GraphCounts \<Rightarrow> GraphCounts" where
  "count_state TaskState.Created c = c\<lparr>gc_pending := gc_pending c + 1\<rparr>"
| "count_state TaskState.WaitingForDependency c = c\<lparr>gc_pending := gc_pending c + 1\<rparr>"
| "count_state TaskState.Preempted c = c\<lparr>gc_pending := gc_pending c + 1\<rparr>"
| "count_state TaskState.Queued c = c\<lparr>gc_queued := gc_queued c + 1\<rparr>"
| "count_state TaskState.Leased c = c\<lparr>gc_in_flight := gc_in_flight c + 1\<rparr>"
| "count_state TaskState.Running c = c\<lparr>gc_in_flight := gc_in_flight c + 1\<rparr>"
| "count_state TaskState.Completed c = c\<lparr>gc_completed := gc_completed c + 1\<rparr>"
| "count_state TaskState.Failed c = c\<lparr>gc_retrying := gc_retrying c + 1\<rparr>"
| "count_state TaskState.TimedOut c = c\<lparr>gc_retrying := gc_retrying c + 1\<rparr>"
| "count_state TaskState.RetryScheduled c = c\<lparr>gc_retrying := gc_retrying c + 1\<rparr>"
| "count_state TaskState.Cancelled c = c\<lparr>gc_abandoned := gc_abandoned c + 1\<rparr>"
| "count_state TaskState.DeadLettered c = c\<lparr>gc_abandoned := gc_abandoned c + 1\<rparr>"

definition counts :: "'g TaskGraph \<Rightarrow> GraphCounts" where
  "counts s =
     fold (\<lambda>n. count_state (tn_state n)) (hm_values (tg_nodes s)) (zero_counts (length (tg_nodes s)))"

definition is_complete :: "'g TaskGraph \<Rightarrow> bool" where
  "is_complete s \<longleftrightarrow> tg_nodes s \<noteq> [] \<and> list_all node_is_terminal (hm_values (tg_nodes s))"

definition progress :: "'g TaskGraph \<Rightarrow> real" where
  "progress s =
     (if tg_nodes s = [] then 0
      else real (terminal_count (counts s)) / real (length (tg_nodes s)))"

end
