(* ===== verification/GraphInvariant.thy ===== *)
theory GraphInvariant
  imports TaskGraph
begin

text \<open>
  The consistency invariant of the task graph (records, index map, petgraph contents, acyclicity)
  and its preservation by every operation, in every outcome.
\<close>

definition graph_inv :: "'g petgraph \<Rightarrow> 'g TaskGraph \<Rightarrow> bool" where
  "graph_inv pg s \<longleftrightarrow>
     keys_distinct (tg_nodes s) \<and>
     dom (map_of (tg_index s)) = dom (map_of (tg_nodes s)) \<and>
     (\<forall>i n. map_of (tg_index s) i = Some n \<longrightarrow>
        n < length (pg_raw_nodes pg (tg_graph s)) \<and> pg_raw_nodes pg (tg_graph s) ! n = i) \<and>
     (\<forall>i t. map_of (tg_nodes s) i = Some t \<longrightarrow> tn_id t = i) \<and>
     edges_ok pg (tg_graph s) \<and>
     (\<forall>i t d. map_of (tg_nodes s) i = Some t \<longrightarrow> d \<in> set (tn_dependencies t) \<longrightarrow>
        (\<exists>a b. map_of (tg_index s) d = Some a \<and> map_of (tg_index s) i = Some b \<and>
           (a, b) \<in> set (pg_raw_edges pg (tg_graph s)))) \<and>
     acyclic (set (pg_raw_edges pg (tg_graph s)))"

lemma graph_invD:
  assumes "graph_inv pg s"
  shows "keys_distinct (tg_nodes s)" "dom (map_of (tg_index s)) = dom (map_of (tg_nodes s))"
    "map_of (tg_index s) i = Some n \<Longrightarrow> n < length (pg_raw_nodes pg (tg_graph s))"
    "map_of (tg_index s) i = Some n \<Longrightarrow> pg_raw_nodes pg (tg_graph s) ! n = i"
    "map_of (tg_nodes s) i = Some t \<Longrightarrow> tn_id t = i"
    "edges_ok pg (tg_graph s)" "acyclic (set (pg_raw_edges pg (tg_graph s)))"
    "map_of (tg_nodes s) i = Some t \<Longrightarrow> d \<in> set (tn_dependencies t) \<Longrightarrow>
      \<exists>a b. map_of (tg_index s) d = Some a \<and> map_of (tg_index s) i = Some b \<and>
        (a, b) \<in> set (pg_raw_edges pg (tg_graph s))"
  using assms unfolding graph_inv_def by blast+

lemma index_inject:
  assumes "graph_inv pg s" "map_of (tg_index s) i = Some n" "map_of (tg_index s) j = Some n"
  shows "i = j"
  using graph_invD(4) [OF assms(1)] assms(2,3) by metis

lemma known_index:
  assumes "graph_inv pg s" "map_of (tg_nodes s) i = Some t"
  obtains n where "map_of (tg_index s) i = Some n"
proof -
  have "i \<in> dom (map_of (tg_index s))" unfolding graph_invD(2) [OF assms(1)] using assms(2) by blast
  then show thesis using that by blast
qed

lemma dependency_known:
  assumes "graph_inv pg s" "map_of (tg_nodes s) i = Some t" "d \<in> set (tn_dependencies t)"
  shows "map_of (tg_nodes s) d \<noteq> None"
proof -
  have "d \<in> dom (map_of (tg_index s))" using graph_invD(8) [OF assms] by blast
  then show ?thesis unfolding graph_invD(2) [OF assms(1)] by auto
qed

text \<open>The invariant depends on the contents of the petgraph graph only.\<close>

lemma graph_inv_cong:
  assumes "graph_inv pg s" "pg_raw_nodes pg (tg_graph s') = pg_raw_nodes pg (tg_graph s)"
    "pg_raw_edges pg (tg_graph s') = pg_raw_edges pg (tg_graph s)"
    "tg_nodes s' = tg_nodes s" "tg_index s' = tg_index s"
  shows "graph_inv pg s'"
  using assms unfolding graph_inv_def edges_ok_def by simp

lemma map_of_update_task:
  "map_of (tg_nodes (update_task i f s)) =
     (case map_of (tg_nodes s) i of None \<Rightarrow> map_of (tg_nodes s) | Some n \<Rightarrow> (map_of (tg_nodes s))(i \<mapsto> f n))"
  by (simp add: update_task_def split: option.split)

lemma update_task_fields [simp]:
  "tg_graph (update_task i f s) = tg_graph s" "tg_index (update_task i f s) = tg_index s"
  "tg_job_id (update_task i f s) = tg_job_id s"
  by (simp_all add: update_task_def split: option.split)

lemma update_task_distinct: "keys_distinct (tg_nodes s) \<Longrightarrow> keys_distinct (tg_nodes (update_task i f s))"
  by (simp add: update_task_def distinct_update split: option.split)

lemma update_task_inv:
  assumes "graph_inv pg s" "\<And>n. tn_id (f n) = tn_id n"
    "\<And>n. set (tn_dependencies (f n)) \<subseteq> set (tn_dependencies n)"
  shows "graph_inv pg (update_task i f s)"
proof -
  let ?s = "update_task i f s"
  have look: "\<exists>t0. map_of (tg_nodes s) j = Some t0 \<and> tn_id t' = tn_id t0 \<and>
      set (tn_dependencies t') \<subseteq> set (tn_dependencies t0)"
    if "map_of (tg_nodes ?s) j = Some t'" for j t'
    using that assms(2,3) by (auto simp: map_of_update_task split: if_splits option.splits)
  have "dom (map_of (tg_nodes ?s)) = dom (map_of (tg_nodes s))"
    by (auto simp: map_of_update_task split: if_splits option.splits)
  moreover have "\<forall>j t'. map_of (tg_nodes ?s) j = Some t' \<longrightarrow> tn_id t' = j"
    using look graph_invD(5) [OF assms(1)] by fastforce
  moreover have "\<exists>a b. map_of (tg_index s) d = Some a \<and> map_of (tg_index s) j = Some b \<and>
      (a, b) \<in> set (pg_raw_edges pg (tg_graph s))"
    if t': "map_of (tg_nodes ?s) j = Some t'" "d \<in> set (tn_dependencies t')" for j t' d
  proof -
    from look [OF t'(1)] obtain t0 where "map_of (tg_nodes s) j = Some t0" "d \<in> set (tn_dependencies t0)"
      using t'(2) by blast
    then show ?thesis by (rule graph_invD(8) [OF assms(1)])
  qed
  ultimately show ?thesis
    using assms(1) update_task_distinct [of s i f] unfolding graph_inv_def update_task_fields by simp
qed

lemma new_graph_inv: "petgraph_laws pg \<Longrightarrow> graph_inv pg (new_graph pg j)"
  by (simp add: graph_inv_def new_graph_def edges_ok_def petgraph_laws.new_edges acyclic_def)

definition forget :: "TaskId \<Rightarrow> TaskNode \<Rightarrow> TaskNode" where
  "forget d n = n\<lparr>tn_dependencies := filter (\<lambda>e. e \<noteq> d) (tn_dependencies n)\<rparr>"

section \<open>Inserting\<close>

text \<open>A node without outgoing edges can take any number of incoming ones.\<close>

lemma acyclic_new_sink:
  assumes "acyclic r" "n \<notin> Domain r" "n \<notin> A"
  shows "acyclic (r \<union> A \<times> {n})"
proof -
  have "(x, y) \<in> (r \<union> A \<times> {n})\<^sup>+ \<Longrightarrow> (x, y) \<in> r\<^sup>+ \<or> y = n \<and> x \<noteq> n" for x y
  proof (induction rule: trancl_induct)
    case (base y)
    then show ?case using assms(3) by auto
  next
    case (step y z)
    from step.hyps(2) assms(2,3) have "y \<noteq> n" by auto
    with step.IH have xy: "(x, y) \<in> r\<^sup>+" by blast
    then have "x \<noteq> n" using assms(2) by (meson Domain.intros tranclD)
    with xy step.hyps(2) show ?case by (auto intro: trancl_into_trancl)
  qed
  then show ?thesis using assms(1) unfolding acyclic_def by blast
qed

context petgraph_laws
begin

lemma add_dependency_edges_effect:
  assumes "\<And>d. d \<in> set ds \<Longrightarrow> \<exists>a. map_of (tg_index s) d = Some a \<and> a < length (pg_raw_nodes pg (tg_graph s))"
    "n < length (pg_raw_nodes pg (tg_graph s))"
  shows "\<exists>g. add_dependency_edges pg ds n s = (s\<lparr>tg_graph := g\<rparr>, Ok ()) \<and>
    pg_raw_nodes pg g = pg_raw_nodes pg (tg_graph s) \<and>
    pg_raw_edges pg g = pg_raw_edges pg (tg_graph s) @ map (\<lambda>d. (the (map_of (tg_index s) d), n)) ds"
  using assms
proof (induction ds arbitrary: s)
  case (Cons d ds)
  from Cons.prems(1) [of d] obtain a where a: "map_of (tg_index s) d = Some a"
    "a < length (pg_raw_nodes pg (tg_graph s))" by auto
  let ?s = "s\<lparr>tg_graph := fst (pg_add_edge pg a n (tg_graph s))\<rparr>"
  note ae = add_edge_cases [OF a(2) Cons.prems(2)]
  have "\<exists>g. add_dependency_edges pg ds n ?s = (?s\<lparr>tg_graph := g\<rparr>, Ok ()) \<and>
      pg_raw_nodes pg g = pg_raw_nodes pg (tg_graph ?s) \<and>
      pg_raw_edges pg g = pg_raw_edges pg (tg_graph ?s) @ map (\<lambda>d. (the (map_of (tg_index ?s) d), n)) ds"
    using Cons.prems by (intro Cons.IH) (simp_all add: ae)
  then show ?case by (auto simp: a ae)
next
  case Nil
  show ?case by (intro exI [of _ "tg_graph s"]) simp
qed

text \<open>What \<open>insert\<close> does when it succeeds.\<close>

lemma insert_task_Ok:
  assumes "graph_inv pg s" "map_of (tg_nodes s) (tn_id node) = None"
    "\<forall>d \<in> set (tn_dependencies node). map_of (tg_nodes s) d \<noteq> None"
  shows "\<exists>g. insert_task pg node s =
      (s\<lparr>tg_graph := g,
         tg_index := AList.update (tn_id node) (length (pg_raw_nodes pg (tg_graph s))) (tg_index s),
         tg_nodes := AList.update (tn_id node) node (tg_nodes s)\<rparr>, Ok (tn_id node)) \<and>
    pg_raw_nodes pg g = pg_raw_nodes pg (tg_graph s) @ [tn_id node] \<and>
    pg_raw_edges pg g = pg_raw_edges pg (tg_graph s) @
      map (\<lambda>d. (the (map_of (tg_index s) d), length (pg_raw_nodes pg (tg_graph s)))) (tn_dependencies node)"
proof -
  let ?n = "length (pg_raw_nodes pg (tg_graph s))" and ?i = "tn_id node"
  obtain g0 m where an: "pg_add_node pg ?i (tg_graph s) = (g0, m)" by fastforce
  from add_node [OF an] have m: "m = ?n" and g0: "pg_raw_nodes pg g0 = pg_raw_nodes pg (tg_graph s) @ [?i]"
    "pg_raw_edges pg g0 = pg_raw_edges pg (tg_graph s)" by auto
  let ?s1 = "s\<lparr>tg_graph := g0, tg_index := AList.update ?i ?n (tg_index s)\<rparr>"
  have idx: "\<exists>a. map_of (tg_index s) d = Some a \<and> a < ?n \<and> d \<noteq> ?i" if "d \<in> set (tn_dependencies node)" for d
  proof -
    from that assms(3) obtain t where t: "map_of (tg_nodes s) d = Some t" by blast
    from known_index [OF assms(1) this] obtain a where "map_of (tg_index s) d = Some a" .
    with graph_invD(3) [OF assms(1)] t assms(2) show ?thesis by auto
  qed
  obtain g where g: "add_dependency_edges pg (tn_dependencies node) ?n ?s1 = (?s1\<lparr>tg_graph := g\<rparr>, Ok ()) \<and>
      pg_raw_nodes pg g = pg_raw_nodes pg (tg_graph ?s1) \<and>
      pg_raw_edges pg g = pg_raw_edges pg (tg_graph ?s1) @
        map (\<lambda>d. (the (map_of (tg_index ?s1) d), ?n)) (tn_dependencies node)"
  proof -
    have "\<exists>a. map_of (tg_index ?s1) d = Some a \<and> a < length (pg_raw_nodes pg (tg_graph ?s1))"
      if "d \<in> set (tn_dependencies node)" for d using idx [OF that] by (auto simp: g0)
    from add_dependency_edges_effect [OF this, of _ ?n] that show thesis by (auto simp: g0)
  qed
  moreover have "find (\<lambda>d. map_of (tg_nodes s) d = None) (tn_dependencies node) = None"
    using assms(3) by (auto simp: find_None_iff)
  moreover have "map (\<lambda>d. (the (map_of (tg_index ?s1) d), ?n)) (tn_dependencies node) =
      map (\<lambda>d. (the (map_of (tg_index s) d), ?n)) (tn_dependencies node)"
    using idx by (auto simp: map_eq_conv)
  ultimately show ?thesis
    using assms(2) by (intro exI [of _ g]) (simp add: insert_task_def an m g0)
qed

lemma insert_task_fails:
  assumes "map_of (tg_nodes s) (tn_id node) \<noteq> None \<or> (\<exists>d \<in> set (tn_dependencies node). map_of (tg_nodes s) d = None)"
  shows "\<exists>e. insert_task pg node s = (s, Err e)"
proof (cases "map_of (tg_nodes s) (tn_id node)")
  case None
  with assms have "find (\<lambda>d. map_of (tg_nodes s) d = None) (tn_dependencies node) \<noteq> None"
    unfolding find_None_iff by blast
  with None show ?thesis by (auto simp: insert_task_def)
qed (simp add: insert_task_def)

lemma insert_task_inv: "graph_inv pg s \<Longrightarrow> graph_inv pg (fst (insert_task pg node s))"
proof (cases "map_of (tg_nodes s) (tn_id node) = None \<and> (\<forall>d \<in> set (tn_dependencies node). map_of (tg_nodes s) d \<noteq> None)")
  case False
  assume inv: "graph_inv pg s"
  from False have "map_of (tg_nodes s) (tn_id node) \<noteq> None \<or> (\<exists>d \<in> set (tn_dependencies node). map_of (tg_nodes s) d = None)"
    by simp
  from insert_task_fails [OF this] inv show ?thesis by auto
next
  case True
  assume inv: "graph_inv pg s"
  let ?i = "tn_id node" and ?n = "length (pg_raw_nodes pg (tg_graph s))"
  let ?idx = "\<lambda>d. the (map_of (tg_index s) d)" and ?es = "pg_raw_edges pg (tg_graph s)"
  from insert_task_Ok [OF inv] True obtain g where
    ins: "insert_task pg node s = (s\<lparr>tg_graph := g, tg_index := AList.update ?i ?n (tg_index s),
      tg_nodes := AList.update ?i node (tg_nodes s)\<rparr>, Ok ?i)"
    and gn: "pg_raw_nodes pg g = pg_raw_nodes pg (tg_graph s) @ [?i]"
    and ge: "pg_raw_edges pg g = ?es @ map (\<lambda>d. (?idx d, ?n)) (tn_dependencies node)" by blast
  have idx: "\<exists>a. map_of (tg_index s) d = Some a \<and> a < ?n \<and> d \<noteq> ?i" if "d \<in> set (tn_dependencies node)" for d
  proof -
    from that True obtain t where t: "map_of (tg_nodes s) d = Some t" by blast
    from known_index [OF inv this] obtain a where "map_of (tg_index s) d = Some a" .
    with graph_invD(3) [OF inv] t True show ?thesis by auto
  qed
  have ok: "\<forall>(a, b) \<in> set ?es. a < ?n \<and> b < ?n" using graph_invD(6) [OF inv] by (simp add: edges_ok_def)
  have "set (pg_raw_edges pg g) = set ?es \<union> (?idx ` set (tn_dependencies node)) \<times> {?n}"
    by (auto simp: ge)
  moreover have "acyclic (set ?es \<union> (?idx ` set (tn_dependencies node)) \<times> {?n})"
    using ok idx by (intro acyclic_new_sink graph_invD(7) [OF inv]) fastforce+
  ultimately have ac: "acyclic (set (pg_raw_edges pg g))" by simp
  have eo: "edges_ok pg g" using ok idx by (fastforce simp: edges_ok_def gn ge)
  have old: "\<exists>a b. ((map_of (tg_index s))(?i \<mapsto> ?n)) d = Some a \<and> ((map_of (tg_index s))(?i \<mapsto> ?n)) j = Some b \<and>
      (a, b) \<in> set (pg_raw_edges pg g)"
    if j: "map_of (tg_nodes s) j = Some t" "d \<in> set (tn_dependencies t)" for j t d
  proof -
    from graph_invD(8) [OF inv j] obtain a b where "map_of (tg_index s) d = Some a"
      "map_of (tg_index s) j = Some b" "(a, b) \<in> set ?es" by blast
    moreover have "d \<noteq> ?i" "j \<noteq> ?i" using dependency_known [OF inv j] j(1) True by auto
    ultimately show ?thesis by (auto simp: ge)
  qed
  have new: "\<exists>a b. ((map_of (tg_index s))(?i \<mapsto> ?n)) d = Some a \<and> ((map_of (tg_index s))(?i \<mapsto> ?n)) ?i = Some b \<and>
      (a, b) \<in> set (pg_raw_edges pg g)" if "d \<in> set (tn_dependencies node)" for d
    using idx [OF that] that by (force simp: ge)
  have nodes: "\<forall>j n. ((map_of (tg_index s))(?i \<mapsto> ?n)) j = Some n \<longrightarrow>
      n < length (pg_raw_nodes pg g) \<and> pg_raw_nodes pg g ! n = j"
    using graph_invD(3,4) [OF inv] by (auto simp: gn nth_append less_SucI)
  have deps: "\<forall>j t d. ((map_of (tg_nodes s))(?i \<mapsto> node)) j = Some t \<longrightarrow> d \<in> set (tn_dependencies t) \<longrightarrow>
      (\<exists>a b. ((map_of (tg_index s))(?i \<mapsto> ?n)) d = Some a \<and> ((map_of (tg_index s))(?i \<mapsto> ?n)) j = Some b \<and>
        (a, b) \<in> set (pg_raw_edges pg g))"
  proof (intro allI impI)
    fix j t d
    assume "((map_of (tg_nodes s))(?i \<mapsto> node)) j = Some t" "d \<in> set (tn_dependencies t)"
    then show "\<exists>a b. ((map_of (tg_index s))(?i \<mapsto> ?n)) d = Some a \<and> ((map_of (tg_index s))(?i \<mapsto> ?n)) j = Some b \<and>
        (a, b) \<in> set (pg_raw_edges pg g)"
      using old [of j t d] new [of d] by (cases "j = ?i") simp_all
  qed
  have ids: "\<forall>j t. ((map_of (tg_nodes s))(?i \<mapsto> node)) j = Some t \<longrightarrow> tn_id t = j"
    using graph_invD(5) [OF inv] by simp
  show ?thesis
    using graph_invD(1,2) [OF inv] ac eo deps nodes ids
    by (simp add: ins graph_inv_def distinct_update del: fun_upd_apply)
qed

section \<open>Dynamic edges\<close>

lemma assert_acyclic_iff:
  assumes "edges_ok pg (tg_graph s)"
  shows "assert_acyclic pg s = Ok () \<longleftrightarrow> acyclic (set (pg_raw_edges pg (tg_graph s)))"
  using toposort_iff_acyclic [OF assms] by (auto simp: assert_acyclic_def split: sum.split)

text \<open>The four ways \<open>add_dependency\<close> can end.\<close>

lemma add_dependency_cases:
  assumes inv: "graph_inv pg s" and ad: "add_dependency pg task d s = (s', r)"
  obtains (unknown) i where "s' = s" "r = Err (NotFound ''task'' i)" "map_of (tg_nodes s) i = None" "i = task \<or> i = d"
  | (self) "s' = s" "r = Err (CyclicGraph task)" "task = d" "map_of (tg_nodes s) task \<noteq> None"
  | (present) t where "s' = s" "r = Ok ()" "task \<noteq> d" "map_of (tg_nodes s) task = Some t" "d \<in> set (tn_dependencies t)"
  | (cycle) a b g c where "map_of (tg_index s) d = Some a" "map_of (tg_index s) task = Some b" "task \<noteq> d"
      "\<not> acyclic (insert (a, b) (set (pg_raw_edges pg (tg_graph s))))"
      "s' = s\<lparr>tg_graph := g\<rparr>" "pg_raw_nodes pg g = pg_raw_nodes pg (tg_graph s)"
      "pg_raw_edges pg g = pg_raw_edges pg (tg_graph s)" "r = Err (CyclicGraph c)"
  | (added) a b g t where "map_of (tg_index s) d = Some a" "map_of (tg_index s) task = Some b" "task \<noteq> d"
      "map_of (tg_nodes s) task = Some t" "d \<notin> set (tn_dependencies t)"
      "acyclic (insert (a, b) (set (pg_raw_edges pg (tg_graph s))))"
      "s' = update_task task (\<lambda>n. n\<lparr>tn_dependencies := tn_dependencies n @ [d]\<rparr>) (s\<lparr>tg_graph := g\<rparr>)"
      "pg_raw_nodes pg g = pg_raw_nodes pg (tg_graph s)"
      "pg_raw_edges pg g = pg_raw_edges pg (tg_graph s) @ [(a, b)]" "r = Ok ()"
proof -
  have idx: "map_of (tg_index s) i = None \<longleftrightarrow> map_of (tg_nodes s) i = None" for i
    using graph_invD(2) [OF inv] by (metis domIff)
  show thesis
  proof (cases "map_of (tg_nodes s) task = None \<or> map_of (tg_nodes s) d = None")
    case True
    then consider "map_of (tg_index s) task = None"
      | b where "map_of (tg_index s) task = Some b" "map_of (tg_index s) d = None"
      using idx by (metis not_None_eq)
    then show ?thesis
      using ad idx by cases (auto simp: add_dependency_def index_of_def intro: unknown)
  next
    case False
    then obtain t where t: "map_of (tg_nodes s) task = Some t" by auto
    from False obtain a b where ab: "map_of (tg_index s) d = Some a" "map_of (tg_index s) task = Some b"
      by (metis idx not_None_eq)
    note lt = graph_invD(3) [OF inv ab(1)] graph_invD(3) [OF inv ab(2)]
    obtain g e where ae: "pg_add_edge pg a b (tg_graph s) = (g, e)" by fastforce
    from add_edge [OF lt ae] have g: "pg_raw_nodes pg g = pg_raw_nodes pg (tg_graph s)"
      "pg_raw_edges pg g = pg_raw_edges pg (tg_graph s) @ [(a, b)]" by auto
    have "edges_ok pg g" using graph_invD(6) [OF inv] lt by (auto simp: edges_ok_def g)
    then have ac: "assert_acyclic pg (s\<lparr>tg_graph := g\<rparr>) = Ok () \<longleftrightarrow>
        acyclic (insert (a, b) (set (pg_raw_edges pg (tg_graph s))))"
      by (subst assert_acyclic_iff) (simp_all add: g)
    note undo = add_then_remove [OF lt ae]
    consider (1) "task = d" | (2) "task \<noteq> d" "d \<in> set (tn_dependencies t)"
      | (3) "task \<noteq> d" "d \<notin> set (tn_dependencies t)" "assert_acyclic pg (s\<lparr>tg_graph := g\<rparr>) = Ok ()"
      | (4) "task \<noteq> d" "d \<notin> set (tn_dependencies t)" "assert_acyclic pg (s\<lparr>tg_graph := g\<rparr>) \<noteq> Ok ()" by blast
    then show ?thesis
    proof cases
      case 1
      then show ?thesis using ad ab t by (auto simp: add_dependency_def index_of_def intro: self)
    next
      case 2
      then show ?thesis using ad ab t by (auto simp: add_dependency_def index_of_def intro: present)
    next
      case 3
      then show ?thesis using ad ab t g ac ae
        by (intro added [of a b t g]) (simp_all add: add_dependency_def index_of_def)
    next
      case 4
      then obtain c where "assert_acyclic pg (s\<lparr>tg_graph := g\<rparr>) = Err (CyclicGraph c)"
        by (auto simp: assert_acyclic_def split: sum.splits)
      with 4 show ?thesis using ad ab t ac ae undo
        by (intro cycle [of a b "pg_remove_edge pg e g" c])
          (auto simp: add_dependency_def index_of_def simp del: acyclic_insert)
    qed
  qed
qed

lemma add_dependency_inv:
  assumes "graph_inv pg s"
  shows "graph_inv pg (fst (add_dependency pg task d s))"
proof -
  obtain s' r where ad: "add_dependency pg task d s = (s', r)" by fastforce
  have "graph_inv pg s'"
    using assms ad
  proof (cases rule: add_dependency_cases)
    case (cycle a b g c)
    then show ?thesis using assms by (auto intro!: graph_inv_cong [OF assms])
  next
    case (added a b g t)
    let ?nodes = "map_of (tg_nodes s)" and ?t = "t\<lparr>tn_dependencies := tn_dependencies t @ [d]\<rparr>"
    have nodes': "map_of (tg_nodes s') = ?nodes(task \<mapsto> ?t)" "tg_index s' = tg_index s" "tg_graph s' = g"
      "keys_distinct (tg_nodes s')"
      using added graph_invD(1) [OF assms] by (simp_all add: map_of_update_task update_task_distinct)
    have lt: "a < length (pg_raw_nodes pg (tg_graph s))" "b < length (pg_raw_nodes pg (tg_graph s))"
      using graph_invD(3) [OF assms] added(1,2) by auto
    have "edges_ok pg g" using graph_invD(6) [OF assms] lt by (auto simp: edges_ok_def added)
    moreover have "acyclic (set (pg_raw_edges pg g))" using added(6,9) by simp
    moreover have "\<exists>x y. map_of (tg_index s) e = Some x \<and> map_of (tg_index s) j = Some y \<and>
        (x, y) \<in> set (pg_raw_edges pg g)"
      if "(?nodes(task \<mapsto> ?t)) j = Some u" "e \<in> set (tn_dependencies u)" for j u e
    proof (cases "j = task \<and> e = d")
      case True
      then show ?thesis using added by auto
    next
      case False
      with that obtain u0 where "?nodes j = Some u0" "e \<in> set (tn_dependencies u0)"
        using added(4) by (auto split: if_splits)
      from graph_invD(8) [OF assms this] show ?thesis by (auto simp: added(9))
    qed
    moreover have "tn_id u = j" if "(?nodes(task \<mapsto> ?t)) j = Some u" for j u
      using that graph_invD(5) [OF assms] added(4) by (auto split: if_splits)
    moreover have "dom (map_of (tg_index s)) = dom (?nodes(task \<mapsto> ?t))"
      using graph_invD(2) [OF assms] added(4) by auto
    ultimately show ?thesis
      using graph_invD(3,4) [OF assms] nodes' unfolding graph_inv_def by (simp add: added(8) del: fun_upd_apply)
  qed (use assms in simp_all)
  then show ?thesis by (simp add: ad)
qed

section \<open>Removing edges\<close>

lemma remove_edges_subset:
  assumes "graph_inv pg s" "set (pg_raw_edges pg g) \<subseteq> set (pg_raw_edges pg (tg_graph s))"
    "pg_raw_nodes pg g = pg_raw_nodes pg (tg_graph s)"
  shows "edges_ok pg g" "acyclic (set (pg_raw_edges pg g))"
  using graph_invD(6) [OF assms(1)] assms(2,3) acyclic_subset [OF graph_invD(7) [OF assms(1)] assms(2)]
  by (auto simp: edges_ok_def)

text \<open>Removing one edge and forgetting the dependency it stands for.\<close>

lemma drop_edge_inv:
  assumes inv: "graph_inv pg s" and ab: "map_of (tg_index s) d = Some a" "map_of (tg_index s) task = Some b"
    and g: "pg_raw_nodes pg g = pg_raw_nodes pg (tg_graph s)"
      "set (pg_raw_edges pg g) \<subseteq> set (pg_raw_edges pg (tg_graph s))"
      "set (pg_raw_edges pg (tg_graph s)) \<subseteq> insert (a, b) (set (pg_raw_edges pg g))"
  shows "graph_inv pg (update_task task (forget d) (s\<lparr>tg_graph := g\<rparr>))"
proof -
  let ?s = "update_task task (forget d) (s\<lparr>tg_graph := g\<rparr>)"
  have nodes: "map_of (tg_nodes ?s) =
      (case map_of (tg_nodes s) task of None \<Rightarrow> map_of (tg_nodes s) | Some n \<Rightarrow> (map_of (tg_nodes s))(task \<mapsto> forget d n))"
    by (simp add: map_of_update_task split: option.split)
  have "\<exists>x y. map_of (tg_index s) e = Some x \<and> map_of (tg_index s) j = Some y \<and> (x, y) \<in> set (pg_raw_edges pg g)"
    if u: "map_of (tg_nodes ?s) j = Some u" "e \<in> set (tn_dependencies u)" for j u e
  proof -
    from u obtain u0 where u0: "map_of (tg_nodes s) j = Some u0" "e \<in> set (tn_dependencies u0)"
      "\<not> (j = task \<and> e = d)"
      by (cases "map_of (tg_nodes s) task"; cases "j = task") (auto simp: nodes forget_def)
    from graph_invD(8) [OF inv u0(1,2)] obtain x y where xy: "map_of (tg_index s) e = Some x"
      "map_of (tg_index s) j = Some y" "(x, y) \<in> set (pg_raw_edges pg (tg_graph s))" by blast
    moreover have "(x, y) \<noteq> (a, b)" using u0(3) index_inject [OF inv] xy ab by auto
    ultimately show ?thesis using g(3) by blast
  qed
  moreover have "tn_id u = j" if "map_of (tg_nodes ?s) j = Some u" for j u
    using that graph_invD(5) [OF inv] by (auto simp: nodes forget_def split: option.splits if_splits)
  moreover have "dom (map_of (tg_index s)) = dom (map_of (tg_nodes ?s))"
    using graph_invD(2) [OF inv] by (auto simp: nodes split: option.splits)
  moreover have "keys_distinct (tg_nodes ?s)" using graph_invD(1) [OF inv] by (simp add: update_task_distinct)
  ultimately show ?thesis
    using graph_invD(3,4) [OF inv] remove_edges_subset [OF inv g(2,1)]
    unfolding graph_inv_def by (simp add: g(1))
qed

lemma set_remove_one:
  assumes "mset xs = mset ys - {#x#}"
  shows "set xs \<subseteq> set ys" "set ys \<subseteq> insert x (set xs)"
proof -
  show "set xs \<subseteq> set ys" using assms by (metis in_diffD set_mset_mset subsetI)
  show "set ys \<subseteq> insert x (set xs)"
  proof
    fix y assume "y \<in> set ys"
    show "y \<in> insert x (set xs)"
    proof (cases "y = x")
      case False
      then have "y \<in># mset ys - {#x#}" using \<open>y \<in> set ys\<close> by (simp add: in_diff_count)
      then show ?thesis using assms by (metis insertI2 set_mset_mset)
    qed simp
  qed
qed

lemma remove_dependency_effect:
  assumes inv: "graph_inv pg s" and d: "map_of (tg_nodes s) d \<noteq> None"
  shows "graph_inv pg (remove_dependency pg task d s) \<and>
    tg_index (remove_dependency pg task d s) = tg_index s \<and>
    map_of (tg_nodes (remove_dependency pg task d s)) =
      (case map_of (tg_nodes s) task of None \<Rightarrow> map_of (tg_nodes s)
       | Some n \<Rightarrow> (map_of (tg_nodes s))(task \<mapsto> forget d n))"
proof -
  have idx: "map_of (tg_index s) i = None \<longleftrightarrow> map_of (tg_nodes s) i = None" for i
    using graph_invD(2) [OF inv] by (metis domIff)
  obtain a where a: "map_of (tg_index s) d = Some a" using d idx by (metis not_None_eq)
  show ?thesis
  proof (cases "map_of (tg_index s) task")
    case None
    then have "remove_dependency pg task d s = s" by (simp add: remove_dependency_def index_of_def)
    with None inv show ?thesis by (simp add: idx)
  next
    case (Some b)
    define g where "g = (case pg_find_edge pg a b (tg_graph s) of
        Some e \<Rightarrow> pg_remove_edge pg e (tg_graph s) | None \<Rightarrow> tg_graph s)"
    have r: "remove_dependency pg task d s = update_task task (forget d) (s\<lparr>tg_graph := g\<rparr>)"
      by (simp add: remove_dependency_def index_of_def a Some g_def Let_def forget_def [abs_def] split: option.split)
    have gn: "pg_raw_nodes pg g = pg_raw_nodes pg (tg_graph s)"
      by (simp add: g_def remove_edge_nodes split: option.split)
    have "mset (pg_raw_edges pg g) = mset (pg_raw_edges pg (tg_graph s)) - {#(a, b)#}"
    proof (cases "pg_find_edge pg a b (tg_graph s)")
      case None
      then show ?thesis using find_edge_None [OF None] by (simp add: g_def)
    next
      case (Some e)
      then show ?thesis using find_edge_Some [OF Some] by (simp add: g_def remove_edge mset_swap_remove)
    qed
    from drop_edge_inv [OF inv a Some gn set_remove_one [OF this]] show ?thesis
      by (simp add: r map_of_update_task split: option.split)
  qed
qed

text \<open>Rolling back: the tasks in \<open>ts\<close> forget the dependency, the others keep theirs.\<close>

lemma remove_dependencies_effect:
  assumes "graph_inv pg s" "map_of (tg_nodes s) d \<noteq> None"
  shows "graph_inv pg (fold (\<lambda>e. remove_dependency pg e d) ts s) \<and>
    (\<forall>j. map_of (tg_nodes (fold (\<lambda>e. remove_dependency pg e d) ts s)) j =
       map_option (\<lambda>n. if j \<in> set ts then forget d n else n) (map_of (tg_nodes s) j))"
  using assms
proof (induction ts arbitrary: s)
  case Nil
  then show ?case by (simp add: option.map_ident)
next
  case (Cons t ts)
  note eff = remove_dependency_effect [OF Cons.prems, of t]
  have "map_of (tg_nodes (remove_dependency pg t d s)) d \<noteq> None"
    using eff Cons.prems(2) by (auto split: option.splits)
  with Cons.IH [of "remove_dependency pg t d s"] eff
  have "graph_inv pg (fold (\<lambda>e. remove_dependency pg e d) (t # ts) s)"
    "\<And>j. map_of (tg_nodes (fold (\<lambda>e. remove_dependency pg e d) (t # ts) s)) j =
       map_option (\<lambda>n. if j \<in> set ts then forget d n else n) (map_of (tg_nodes (remove_dependency pg t d s)) j)"
    by auto
  moreover have "map_option (\<lambda>n. if j \<in> set ts then forget d n else n) (map_of (tg_nodes (remove_dependency pg t d s)) j) =
      map_option (\<lambda>n. if j \<in> set (t # ts) then forget d n else n) (map_of (tg_nodes s) j)" for j
    using eff by (cases "map_of (tg_nodes s) j"; cases "j = t") (auto simp: forget_def split: option.splits)
  ultimately show ?case by simp
qed

section \<open>Inserting with dependents\<close>

lemma delete_unused_inv:
  assumes inv: "graph_inv pg s"
    and unused: "\<And>j t. map_of (tg_nodes s) j = Some t \<Longrightarrow> i \<notin> set (tn_dependencies t)"
  shows "graph_inv pg (s\<lparr>tg_nodes := AList.delete i (tg_nodes s), tg_index := AList.delete i (tg_index s)\<rparr>)"
proof -
  have "\<exists>a b. map_of (AList.delete i (tg_index s)) d = Some a \<and> map_of (AList.delete i (tg_index s)) j = Some b \<and>
      (a, b) \<in> set (pg_raw_edges pg (tg_graph s))"
    if "map_of (AList.delete i (tg_nodes s)) j = Some t" "d \<in> set (tn_dependencies t)" for j t d
  proof -
    from that(1) have j: "map_of (tg_nodes s) j = Some t" "j \<noteq> i" by (auto split: if_splits)
    with unused [OF j(1)] that(2) graph_invD(8) [OF inv j(1) that(2)] show ?thesis by auto
  qed
  then show ?thesis
    using graph_invD(1-7) [OF inv]
    by (auto simp: graph_inv_def hm_delete_distinct split: if_splits)
qed

text \<open>The state of \<open>insert_dynamic\<close> between two dependents: only the tasks in \<open>attached\<close> depend on the new one.\<close>

definition attaching :: "'g TaskGraph \<Rightarrow> TaskId \<Rightarrow> TaskId list \<Rightarrow> bool" where
  "attaching s i attached \<longleftrightarrow>
     map_of (tg_nodes s) i \<noteq> None \<and>
     (\<forall>j t. map_of (tg_nodes s) j = Some t \<longrightarrow> (i \<in> set (tn_dependencies t) \<longleftrightarrow> j \<in> set attached)) \<and>
     (\<forall>j \<in> set attached. map_of (tg_nodes s) j \<noteq> None)"

lemma attach_dependents_inv:
  assumes "graph_inv pg s" "attaching s i attached" "all = attached @ rest"
  shows "graph_inv pg (fst (attach_dependents pg all i rest s))"
  using assms
proof (induction rest arbitrary: s attached)
  case (Cons x rest)
  obtain s1 r where ad: "add_dependency pg x i s = (s1, r)" by fastforce
  have inv1: "graph_inv pg s1" using add_dependency_inv [OF Cons.prems(1), of x i] ad by simp
  show ?case
  proof (cases r)
    case (Inr u)
    have "attaching s1 i (attached @ [x])"
      using Cons.prems(1) ad
    proof (cases rule: add_dependency_cases)
      case (present t)
      then show ?thesis using Cons.prems(2) by (auto simp: attaching_def)
    next
      case (added a b g t)
      then show ?thesis
        using Cons.prems(2) by (auto simp: attaching_def map_of_update_task split: if_splits)
    qed (use Inr in simp_all)
    with Cons.IH [OF inv1, of "attached @ [x]"] Cons.prems(3) ad Inr show ?thesis by simp
  next
    case (Inl e)
    have same: "tg_nodes s1 = tg_nodes s"
      using Cons.prems(1) ad by (cases rule: add_dependency_cases) (use Inl in simp_all)
    have "x \<notin> set attached"
    proof
      assume "x \<in> set attached"
      then obtain t where t: "map_of (tg_nodes s) x = Some t" "i \<in> set (tn_dependencies t)"
        using Cons.prems(2) by (fastforce simp: attaching_def)
      have "x \<noteq> i" using graph_invD(7,8) [OF Cons.prems(1)] t by (fastforce simp: acyclic_def)
      show False using Cons.prems(1) ad
      proof (cases rule: add_dependency_cases)
        case (unknown k)
        then show ?thesis using t(1) Cons.prems(2) by (auto simp: attaching_def)
      next
        case (cycle a b g c)
        from index_of_def [of s x] index_of_def [of s i] ad t \<open>x \<noteq> i\<close> Inl cycle show ?thesis
          by (simp add: add_dependency_def)
      qed (use t \<open>x \<noteq> i\<close> Inl in simp_all)
    qed
    then have tw: "takeWhile (\<lambda>earlier. earlier \<noteq> x) all = attached"
      using Cons.prems(3) by (auto simp: takeWhile_tail)
    let ?s2 = "fold (\<lambda>earlier. remove_dependency pg earlier i) attached s1"
    have "map_of (tg_nodes s1) i \<noteq> None" using Cons.prems(2) same by (simp add: attaching_def)
    note eff = remove_dependencies_effect [OF inv1 this, of attached]
    have free: "i \<notin> set (tn_dependencies t)" if "map_of (tg_nodes ?s2) j = Some t" for j t
    proof -
      from that eff obtain n where "map_of (tg_nodes s) j = Some n" "t = (if j \<in> set attached then forget i n else n)"
        by (auto simp: same)
      then show ?thesis
        using Cons.prems(2) by (cases "j \<in> set attached") (auto simp: attaching_def forget_def)
    qed
    from eff have "graph_inv pg ?s2" by blast
    from delete_unused_inv [OF this free] ad Inl tw show ?thesis by (simp add: Let_def)
  qed
qed simp

lemma insert_dynamic_inv:
  assumes "graph_inv pg s"
  shows "graph_inv pg (fst (insert_dynamic pg node ds s))"
proof (cases "map_of (tg_nodes s) (tn_id node) = None \<and> (\<forall>d \<in> set (tn_dependencies node). map_of (tg_nodes s) d \<noteq> None)")
  case False
  then have "map_of (tg_nodes s) (tn_id node) \<noteq> None \<or> (\<exists>d \<in> set (tn_dependencies node). map_of (tg_nodes s) d = None)"
    by simp
  from insert_task_fails [OF this] assms show ?thesis by (auto simp: insert_dynamic_def)
next
  case True
  from insert_task_Ok [OF assms] True obtain g where
    ins: "insert_task pg node s = (s\<lparr>tg_graph := g,
      tg_index := AList.update (tn_id node) (length (pg_raw_nodes pg (tg_graph s))) (tg_index s),
      tg_nodes := AList.update (tn_id node) node (tg_nodes s)\<rparr>, Ok (tn_id node))" (is "_ = (?s1, _)") by blast
  have "graph_inv pg ?s1" using insert_task_inv [OF assms, of node] ins by simp
  moreover have "tn_id node \<notin> set (tn_dependencies t)" if "map_of (tg_nodes s) j = Some t" for j t
    using dependency_known [OF assms that, of "tn_id node"] True by auto
  then have "attaching ?s1 (tn_id node) []"
    using True by (auto simp: attaching_def split: if_splits)
  ultimately show ?thesis
    using attach_dependents_inv [of ?s1 "tn_id node" "[]" ds ds] by (simp add: insert_dynamic_def ins)
qed

section \<open>Splitting\<close>

text \<open>
  Removing by the edge numbers collected beforehand: a number not yet used names the same edge, or
  none at all once the edge with that number was moved into a freed place.
\<close>

lemma nth_swap_remove:
  "e < length es \<Longrightarrow> k < length es - 1 \<Longrightarrow> k \<noteq> e \<Longrightarrow> swap_remove e es ! k = es ! k"
  by (simp add: swap_remove_def nth_butlast)

lemma fold_remove_edges:
  assumes "distinct ids" "\<And>e. e \<in> set ids \<Longrightarrow> e < length (pg_raw_edges pg g) \<Longrightarrow> snd (pg_raw_edges pg g ! e) = n"
  shows "pg_raw_nodes pg (fold (pg_remove_edge pg) ids g) = pg_raw_nodes pg g"
    "set (pg_raw_edges pg (fold (pg_remove_edge pg) ids g)) \<subseteq> set (pg_raw_edges pg g)"
    "\<And>a b. (a, b) \<in> set (pg_raw_edges pg g) \<Longrightarrow> b \<noteq> n \<Longrightarrow>
      (a, b) \<in> set (pg_raw_edges pg (fold (pg_remove_edge pg) ids g))"
proof -
  have "pg_raw_nodes pg (fold (pg_remove_edge pg) ids g) = pg_raw_nodes pg g \<and>
    set (pg_raw_edges pg (fold (pg_remove_edge pg) ids g)) \<subseteq> set (pg_raw_edges pg g) \<and>
    (\<forall>a b. (a, b) \<in> set (pg_raw_edges pg g) \<longrightarrow> b \<noteq> n \<longrightarrow>
      (a, b) \<in> set (pg_raw_edges pg (fold (pg_remove_edge pg) ids g)))"
    using assms
  proof (induction ids arbitrary: g)
    case (Cons e ids)
    let ?es = "pg_raw_edges pg g" and ?g = "pg_remove_edge pg e g"
    have sub: "set (pg_raw_edges pg ?g) \<subseteq> set ?es" by (simp add: remove_edge set_swap_remove_subset)
    have keep: "(a, b) \<in> set (pg_raw_edges pg ?g)" if "(a, b) \<in> set ?es" "b \<noteq> n" for a b
    proof (cases "e < length ?es")
      case True
      then have "snd (?es ! e) = n" using Cons.prems(2) [of e] by simp
      with that(2) have "(a, b) \<noteq> ?es ! e" by (metis snd_conv)
      moreover have "set ?es \<subseteq> insert (?es ! e) (set (pg_raw_edges pg ?g))"
        by (rule set_remove_one(2)) (simp add: remove_edge mset_swap_remove True)
      ultimately show ?thesis using that(1) by blast
    qed (use that in \<open>simp add: remove_edge swap_remove_def\<close>)
    have "snd (pg_raw_edges pg ?g ! k) = n" if "k \<in> set ids" "k < length (pg_raw_edges pg ?g)" for k
    proof -
      have "k \<noteq> e" using that(1) Cons.prems(1) by auto
      then have "pg_raw_edges pg ?g ! k = ?es ! k \<and> k < length ?es"
        using that(2) by (cases "e < length ?es") (auto simp: remove_edge nth_butlast swap_remove_def)
      then show ?thesis using Cons.prems(2) [of k] that(1) by simp
    qed
    from Cons.IH [OF _ this] Cons.prems(1) sub keep remove_edge_nodes show ?case by fastforce
  qed simp
  then show "pg_raw_nodes pg (fold (pg_remove_edge pg) ids g) = pg_raw_nodes pg g"
    "set (pg_raw_edges pg (fold (pg_remove_edge pg) ids g)) \<subseteq> set (pg_raw_edges pg g)"
    "\<And>a b. (a, b) \<in> set (pg_raw_edges pg g) \<Longrightarrow> b \<noteq> n \<Longrightarrow>
      (a, b) \<in> set (pg_raw_edges pg (fold (pg_remove_edge pg) ids g))" by auto
qed

lemma detach_inv:
  assumes inv: "graph_inv pg s" and n: "map_of (tg_index s) task = Some n"
    and g: "pg_raw_nodes pg g = pg_raw_nodes pg (tg_graph s)"
      "set (pg_raw_edges pg g) \<subseteq> set (pg_raw_edges pg (tg_graph s))"
      "\<And>a b. (a, b) \<in> set (pg_raw_edges pg (tg_graph s)) \<Longrightarrow> b \<noteq> n \<Longrightarrow> (a, b) \<in> set (pg_raw_edges pg g)"
  shows "graph_inv pg (update_task task (\<lambda>t. t\<lparr>tn_dependencies := []\<rparr>) (s\<lparr>tg_graph := g\<rparr>))"
proof -
  let ?s = "update_task task (\<lambda>t. t\<lparr>tn_dependencies := []\<rparr>) (s\<lparr>tg_graph := g\<rparr>)"
  have "task \<in> dom (map_of (tg_nodes s))" using graph_invD(2) [OF inv] n by blast
  then obtain t0 where t0: "map_of (tg_nodes s) task = Some t0" by blast
  then have nodes: "map_of (tg_nodes ?s) = (map_of (tg_nodes s))(task \<mapsto> t0\<lparr>tn_dependencies := []\<rparr>)"
    by (simp add: map_of_update_task)
  have "\<exists>x y. map_of (tg_index s) e = Some x \<and> map_of (tg_index s) j = Some y \<and> (x, y) \<in> set (pg_raw_edges pg g)"
    if u: "map_of (tg_nodes ?s) j = Some u" "e \<in> set (tn_dependencies u)" for j u e
  proof -
    from u have j: "map_of (tg_nodes s) j = Some u" "j \<noteq> task" by (auto simp: nodes split: if_splits)
    from graph_invD(8) [OF inv j(1) u(2)] obtain x y where xy: "map_of (tg_index s) e = Some x"
      "map_of (tg_index s) j = Some y" "(x, y) \<in> set (pg_raw_edges pg (tg_graph s))" by blast
    moreover have "y \<noteq> n" using j(2) index_inject [OF inv] xy(2) n by blast
    ultimately show ?thesis using g(3) by blast
  qed
  moreover have "tn_id u = j" if "map_of (tg_nodes ?s) j = Some u" for j u
    using that graph_invD(5) [OF inv] t0 by (auto simp: nodes split: if_splits)
  moreover have "dom (map_of (tg_index s)) = dom (map_of (tg_nodes ?s))"
    using graph_invD(2) [OF inv] t0 by (auto simp: nodes)
  moreover have "keys_distinct (tg_nodes ?s)" using graph_invD(1) [OF inv] by (simp add: update_task_distinct)
  ultimately show ?thesis
    using graph_invD(3,4) [OF inv] remove_edges_subset [OF inv g(2,1)]
    unfolding graph_inv_def by (simp add: g(1))
qed

lemma split_children_inv:
  "graph_inv pg s \<Longrightarrow> graph_inv pg (fst (split_children pg task inherited children ids s))"
proof (induction children arbitrary: s ids)
  case (Cons child children)
  obtain s1 r1 where 1: "insert_task pg (child\<lparr>tn_dependencies := inherited\<rparr>) s = (s1, r1)" by fastforce
  then have inv1: "graph_inv pg s1"
    using insert_task_inv [OF Cons.prems, of "child\<lparr>tn_dependencies := inherited\<rparr>"] by simp
  show ?case
  proof (cases r1)
    case (Inr child_id)
    obtain s2 r2 where 2: "add_dependency pg task child_id s1 = (s2, r2)" by fastforce
    then have "graph_inv pg s2" using add_dependency_inv [OF inv1, of task child_id] by simp
    with Cons.IH 1 2 Inr show ?thesis by (cases r2) simp_all
  qed (use 1 inv1 in simp)
qed simp

lemma split_task_inv:
  assumes "graph_inv pg s"
  shows "graph_inv pg (fst (split_task pg task children s))"
proof (cases "map_of (tg_index s) task")
  case None
  with assms show ?thesis by (simp add: split_task_def index_of_def)
next
  case (Some n)
  let ?ids = "pg_edges_incoming pg n (tg_graph s)"
  have inc: "distinct ?ids" "set ?ids = {e. e < length (pg_raw_edges pg (tg_graph s)) \<and> snd (pg_raw_edges pg (tg_graph s) ! e) = n}"
    using edges_incoming [OF graph_invD(6) [OF assms] graph_invD(3) [OF assms Some]] by auto
  have "\<And>e. e \<in> set ?ids \<Longrightarrow> snd (pg_raw_edges pg (tg_graph s) ! e) = n" unfolding inc(2) by blast
  note f = fold_remove_edges [OF inc(1) this]
  from detach_inv [OF assms Some f(1,2,3)] split_children_inv assms show ?thesis
    by (simp add: split_task_def index_of_def Some Let_def)
qed

end

end
