(* ===== verification/GraphProperties.thy ===== *)
theory GraphProperties
  imports GraphInvariant
begin

text \<open>
  Properties of the task graph: it stays a DAG whatever is done to it, dynamic edges are refused
  exactly when they would close a cycle and leave no trace, orders and layers respect the
  dependencies, the ready set is exact, blocked tasks are found, and a job whose tasks all rest
  always has something to do.
\<close>

section \<open>Histories\<close>

datatype GraphOp =
    GInsert TaskNode
  | GAddDependency TaskId TaskId
  | GInsertDynamic TaskNode "TaskId list"
  | GSplit TaskId "TaskNode list"
  | GSetState DateTime TaskId TaskState string "string option" CorrelationId
  | GRestore TaskId TaskState

fun run_graph :: "'g petgraph \<Rightarrow> GraphOp \<Rightarrow> 'g TaskGraph \<Rightarrow> 'g TaskGraph" where
  "run_graph pg (GInsert node) s = fst (insert_task pg node s)"
| "run_graph pg (GAddDependency task d) s = fst (add_dependency pg task d s)"
| "run_graph pg (GInsertDynamic node ds) s = fst (insert_dynamic pg node ds s)"
| "run_graph pg (GSplit task children) s = fst (split_task pg task children s)"
| "run_graph pg (GSetState now task dst actor reason corr) s = fst (set_state now task dst actor reason corr s)"
| "run_graph pg (GRestore task st) s = fst (restore_state task st s)"

lemma set_state_inv: "graph_inv pg s \<Longrightarrow> graph_inv pg (fst (set_state now task dst actor reason corr s))"
  by (auto simp: set_state_def split: option.split sum.split intro!: update_task_inv)

lemma restore_state_inv: "graph_inv pg s \<Longrightarrow> graph_inv pg (fst (restore_state task st s))"
  by (auto simp: restore_state_def split: option.split intro!: update_task_inv)

lemma run_graph_inv: "petgraph_laws pg \<Longrightarrow> graph_inv pg s \<Longrightarrow> graph_inv pg (run_graph pg op s)"
  by (cases op) (simp_all add: petgraph_laws.insert_task_inv petgraph_laws.add_dependency_inv
      petgraph_laws.insert_dynamic_inv petgraph_laws.split_task_inv set_state_inv restore_state_inv)

lemma run_graphs_inv: "petgraph_laws pg \<Longrightarrow> graph_inv pg s \<Longrightarrow> graph_inv pg (fold (run_graph pg) ops s)"
  by (induction ops arbitrary: s) (simp_all add: run_graph_inv)

lemma history_inv: "petgraph_laws pg \<Longrightarrow> graph_inv pg (fold (run_graph pg) ops (new_graph pg j))"
  by (intro run_graphs_inv new_graph_inv)

section \<open>Orders\<close>

lemma before_map: "before xs a b \<Longrightarrow> before (map f xs) (f a) (f b)"
  unfolding before_def by (metis length_map less_trans nth_map)

context petgraph_laws
begin

lemma order_exists:
  assumes inv: "graph_inv pg s"
  shows "\<exists>order. topological_order pg s = Ok order \<and> set order = set (pg_raw_nodes pg (tg_graph s)) \<and>
    dom (map_of (tg_nodes s)) \<subseteq> set order \<and>
    (\<forall>i t d. map_of (tg_nodes s) i = Some t \<longrightarrow> d \<in> set (tn_dependencies t) \<longrightarrow> before order d i)"
proof -
  let ?w = "pg_weight pg (tg_graph s)" and ?ns = "pg_raw_nodes pg (tg_graph s)"
  obtain o1 where o1: "pg_toposort pg (tg_graph s) = Inr o1"
    using toposort_iff_acyclic [OF graph_invD(6) [OF inv]] graph_invD(7) [OF inv] by blast
  note tp = toposort_Ok [OF graph_invD(6) [OF inv] o1]
  have w: "?w n = ?ns ! n" if "n < length ?ns" for n using weight that by blast
  have "set (map ?w o1) = set ?ns"
    using tp w by (fastforce simp: in_set_conv_nth)
  moreover have "dom (map_of (tg_nodes s)) \<subseteq> set ?ns"
  proof
    fix i assume "i \<in> dom (map_of (tg_nodes s))"
    then obtain n where "map_of (tg_index s) i = Some n" using graph_invD(2) [OF inv] by blast
    with graph_invD(3,4) [OF inv this] show "i \<in> set ?ns" by (metis nth_mem)
  qed
  moreover have "before (map ?w o1) d i"
    if it: "map_of (tg_nodes s) i = Some t" "d \<in> set (tn_dependencies t)" for i t d
  proof -
    from graph_invD(8) [OF inv it] obtain a b where ab: "map_of (tg_index s) d = Some a"
      "map_of (tg_index s) i = Some b" "(a, b) \<in> set (pg_raw_edges pg (tg_graph s))" by blast
    then have "before o1 a b" using tp by blast
    moreover have "?w a = d" "?w b = i"
      using w graph_invD(3,4) [OF inv ab(1)] graph_invD(3,4) [OF inv ab(2)] by auto
    ultimately show ?thesis using before_map [of o1 a b ?w] by simp
  qed
  ultimately show ?thesis using o1 by (simp add: topological_order_def)
qed

lemma dependents_complete:
  assumes inv: "graph_inv pg s" and it: "map_of (tg_nodes s) i = Some t" "d \<in> set (tn_dependencies t)"
  shows "i \<in> set (dependents pg s d)"
proof -
  from graph_invD(8) [OF inv it] obtain a b where ab: "map_of (tg_index s) d = Some a"
    "map_of (tg_index s) i = Some b" "(a, b) \<in> set (pg_raw_edges pg (tg_graph s))" by blast
  then have "b \<in> set (pg_neighbors_outgoing pg a (tg_graph s))"
    using neighbors_outgoing [OF graph_invD(6) [OF inv] graph_invD(3) [OF inv ab(1)]] by blast
  moreover have "pg_weight pg (tg_graph s) b = i"
    using weight graph_invD(3,4) [OF inv ab(2)] by simp
  ultimately show ?thesis by (force simp: dependents_def ab(1))
qed

lemma add_dependency_refusal:
  assumes inv: "graph_inv pg s" and ad: "add_dependency pg task d s = (s', r)"
    and idx: "map_of (tg_index s) task = Some b" "map_of (tg_index s) d = Some a"
  shows "(r = Ok () \<longleftrightarrow> (b, a) \<notin> (set (pg_raw_edges pg (tg_graph s)))\<^sup>*) \<and>
    (r \<noteq> Ok () \<longrightarrow> tg_nodes s' = tg_nodes s \<and> tg_index s' = tg_index s \<and>
       pg_raw_nodes pg (tg_graph s') = pg_raw_nodes pg (tg_graph s) \<and>
       pg_raw_edges pg (tg_graph s') = pg_raw_edges pg (tg_graph s))"
  using inv ad
proof (cases rule: add_dependency_cases)
  case (unknown i)
  then show ?thesis using idx graph_invD(2) [OF inv] by (metis domI domIff)
next
  case self
  then show ?thesis using idx by simp
next
  case (present t)
  from graph_invD(8) [OF inv present(4,5)] idx
  have "(a, b) \<in> set (pg_raw_edges pg (tg_graph s))" by auto
  then have "(b, a) \<notin> (set (pg_raw_edges pg (tg_graph s)))\<^sup>*"
    using graph_invD(7) [OF inv] by (metis acyclic_def rtrancl_into_trancl1)
  then show ?thesis using present by simp
next
  case (cycle a' b' g c)
  then show ?thesis using idx graph_invD(7) [OF inv] by auto
next
  case (added a' b' g t)
  then show ?thesis using idx by auto
qed

end

text \<open>A small graph for the closed examples: task 2 depends on task 1.\<close>

definition demo_task :: "TaskId \<Rightarrow> TaskId list \<Rightarrow> TaskNode" where
  "demo_task i ds = with_dependencies ds (new_task uuid_hyphenated i 9 TaskKind.Work ''t'' ''d'' 0)"

lemma demo_task_sel [simp]:
  "tn_id (demo_task i ds) = i" "tn_dependencies (demo_task i ds) = ds"
  "tn_state (demo_task i ds) = TaskState.Created" "tn_stage (demo_task i ds) = 0"
  by (simp_all add: demo_task_def with_dependencies_def new_task_def)

definition demo_graph_ops :: "GraphOp list" where
  "demo_graph_ops = [GInsert (demo_task 1 []), GInsert (demo_task 2 [1])]"

definition demo_graph :: "list_graph TaskGraph" where
  "demo_graph = fold (run_graph list_pg) demo_graph_ops (new_graph list_pg 9)"

lemma demo_graph_eq:
  "demo_graph = \<lparr>tg_job_id = 9, tg_graph = ([1, 2], [(0, 1)]), tg_index = [(1, 0), (2, 1)],
     tg_nodes = [(1, demo_task 1 []), (2, demo_task 2 [1])]\<rparr>"
  by (simp add: demo_graph_def demo_graph_ops_def new_graph_def insert_task_def list_pg_def)

lemma demo_graph_inv: "graph_inv list_pg demo_graph"
  unfolding demo_graph_def by (rule history_inv) (rule list_pg.petgraph_laws_axioms)

text \<open>C8: a job's graph is a DAG at every moment. Whatever sequence of insertions, dynamic insertions,
  added dependencies, splits and state changes was attempted, successful or refused, the cycle check
  passes, and a topological order exists that lists every task after all tasks it depends on.\<close>

theorem graph_stays_acyclic:
  assumes "petgraph_laws pg" "s = fold (run_graph pg) ops (new_graph pg j)"
  shows "assert_acyclic pg s = Ok () \<and>
    (\<exists>order. topological_order pg s = Ok order \<and> dom (map_of (tg_nodes s)) \<subseteq> set order \<and>
      (\<forall>i t d. map_of (tg_nodes s) i = Some t \<longrightarrow> d \<in> set (tn_dependencies t) \<longrightarrow> before order d i))"
proof -
  have inv: "graph_inv pg s" unfolding assms(2) by (rule history_inv [OF assms(1)])
  then show ?thesis
    using petgraph_laws.assert_acyclic_iff [OF assms(1), of s] petgraph_laws.order_exists [OF assms(1) inv]
      graph_invD(6,7) [OF inv] by blast
qed

theorem graph_stays_acyclic_witness:
  "\<exists>order. topological_order list_pg demo_graph = Ok order \<and> before order 1 2"
proof -
  have 2: "map_of (tg_nodes demo_graph) 2 = Some (demo_task 2 [1])" by (simp add: demo_graph_eq)
  show ?thesis
    using graph_stays_acyclic [OF list_pg.petgraph_laws_axioms demo_graph_def] 2 by fastforce
qed

text \<open>Adding a dependency between two known tasks succeeds exactly when the dependency does not
  already (transitively) wait for the task, so a running job cannot deadlock itself; a refused edge
  is rolled back, leaving tasks, index and topology as they were.\<close>

theorem add_dependency_exact:
  assumes "petgraph_laws pg" "graph_inv pg s" "add_dependency pg task d s = (s', r)"
    "map_of (tg_index s) task = Some b" "map_of (tg_index s) d = Some a"
  shows "(r = Ok () \<longleftrightarrow> (b, a) \<notin> (set (pg_raw_edges pg (tg_graph s)))\<^sup>*) \<and>
    (r \<noteq> Ok () \<longrightarrow> tg_nodes s' = tg_nodes s \<and> tg_index s' = tg_index s \<and>
       pg_raw_nodes pg (tg_graph s') = pg_raw_nodes pg (tg_graph s) \<and>
       pg_raw_edges pg (tg_graph s') = pg_raw_edges pg (tg_graph s))"
  using petgraph_laws.add_dependency_refusal [OF assms] .

theorem add_dependency_exact_witness:
  "snd (add_dependency list_pg 1 2 demo_graph) \<noteq> Ok ()"
proof -
  obtain s' r where ad: "add_dependency list_pg 1 2 demo_graph = (s', r)" by fastforce
  have i: "map_of (tg_index demo_graph) 1 = Some 0" "map_of (tg_index demo_graph) 2 = Some 1"
    by (simp_all add: demo_graph_eq)
  have "(0, 1) \<in> (set (pg_raw_edges list_pg (tg_graph demo_graph)))\<^sup>*"
    by (rule r_into_rtrancl) (simp add: demo_graph_eq list_pg_def)
  with add_dependency_exact [OF list_pg.petgraph_laws_axioms demo_graph_inv ad i] ad show ?thesis by simp
qed

section \<open>Readiness\<close>

lemma ids_where:
  assumes "graph_inv pg s"
  shows "i \<in> set (map tn_id (filter P (hm_values (tg_nodes s)))) \<longleftrightarrow>
    (\<exists>t. map_of (tg_nodes s) i = Some t \<and> P t)"
proof
  assume "i \<in> set (map tn_id (filter P (hm_values (tg_nodes s))))"
  then obtain t where t: "t \<in> set (hm_values (tg_nodes s))" "P t" "tn_id t = i" by auto
  then obtain k where "map_of (tg_nodes s) k = Some t"
    using hm_value_iff [OF graph_invD(1) [OF assms]] by blast
  with graph_invD(5) [OF assms this] t show "\<exists>t. map_of (tg_nodes s) i = Some t \<and> P t" by auto
next
  assume "\<exists>t. map_of (tg_nodes s) i = Some t \<and> P t"
  then obtain t where t: "map_of (tg_nodes s) i = Some t" "P t" by blast
  then have "t \<in> set (hm_values (tg_nodes s))" using hm_value_iff [OF graph_invD(1) [OF assms]] by blast
  with t graph_invD(5) [OF assms t(1)] show "i \<in> set (map tn_id (filter P (hm_values (tg_nodes s))))" by force
qed

lemma distinct_ids_where:
  assumes "graph_inv pg s"
  shows "distinct (map tn_id (filter P (hm_values (tg_nodes s))))"
proof -
  have eq: "map tn_id (hm_values (tg_nodes s)) = map fst (tg_nodes s)"
    using graph_invD(1,5) [OF assms] by (auto simp: map_eq_conv)
  have "distinct (map tn_id (hm_values (tg_nodes s)))" unfolding eq by (rule graph_invD(1) [OF assms])
  then show ?thesis by (rule distinct_map_filter)
qed

lemma completed_ids_iff:
  assumes "graph_inv pg s"
  shows "d \<in> completed_ids s \<longleftrightarrow> (\<exists>u. map_of (tg_nodes s) d = Some u \<and> tn_state u = TaskState.Completed)"
  unfolding completed_ids_def by (rule ids_where [OF assms])

lemma stage_key_inj: "stage_key s i = stage_key s j \<longleftrightarrow> i = j"
  by (auto simp: stage_key_def split: option.splits)

definition waits_for_queue :: "'g TaskGraph \<Rightarrow> TaskNode \<Rightarrow> bool" where
  "waits_for_queue s n \<longleftrightarrow>
     (tn_state n = TaskState.Created \<or> tn_state n = TaskState.WaitingForDependency) \<and>
     dependencies_satisfied n (completed_ids s)"

lemma ready_eq: "ready s = sort_key (stage_key s) (map tn_id (filter (waits_for_queue s) (hm_values (tg_nodes s))))"
  unfolding ready_def waits_for_queue_def [abs_def] ..

lemma ready_iff:
  assumes "graph_inv pg s"
  shows "i \<in> set (ready s) \<longleftrightarrow>
    (\<exists>t. map_of (tg_nodes s) i = Some t \<and>
       (tn_state t = TaskState.Created \<or> tn_state t = TaskState.WaitingForDependency) \<and>
       (\<forall>d \<in> set (tn_dependencies t). \<exists>u. map_of (tg_nodes s) d = Some u \<and> tn_state u = TaskState.Completed))"
  using ids_where [OF assms, of i "waits_for_queue s"]
  by (simp add: ready_eq waits_for_queue_def dependencies_satisfied_def list_all_iff completed_ids_iff [OF assms])

lemma ready_permute:
  assumes "graph_inv pg s" and m: "mset m = mset (tg_nodes s)"
  shows "ready (s\<lparr>tg_nodes := m\<rparr>) = ready s"
proof -
  have "map_of m = map_of (tg_nodes s)"
    using graph_invD(1) [OF assms(1)] m
    by (metis map_of_inject_set mset_eq_imp_distinct_iff mset_eq_setD mset_map)
  then have k: "stage_key (s\<lparr>tg_nodes := m\<rparr>) = stage_key s" by (simp add: stage_key_def fun_eq_iff)
  have "completed_ids (s\<lparr>tg_nodes := m\<rparr>) = completed_ids s"
    using mset_eq_setD [OF m] by (auto simp: completed_ids_def)
  then have p: "waits_for_queue (s\<lparr>tg_nodes := m\<rparr>) = waits_for_queue s"
    by (simp add: waits_for_queue_def fun_eq_iff)
  have "mset (map tn_id (filter (waits_for_queue s) (hm_values m))) =
      mset (map tn_id (filter (waits_for_queue s) (hm_values (tg_nodes s))))"
    using arg_cong [OF m, of "\<lambda>x. image_mset tn_id (filter_mset (waits_for_queue s) (image_mset snd x))"] by simp
  moreover have "inj_on (stage_key s) A" for A by (simp add: inj_on_def stage_key_inj)
  ultimately show ?thesis
    unfolding ready_eq [of "s\<lparr>tg_nodes := m\<rparr>"] ready_eq [of s] k p
    by (intro sort_key_inj_key_eq) simp_all
qed

text \<open>C26: the ready set is exact and reproducible. A task is ready precisely when it waits to be queued
  and every task it depends on has completed; the list has no duplicates and is sorted by stage and
  then by identifier, and it does not depend on the iteration order of the task map.\<close>

theorem ready_exact:
  assumes "graph_inv pg s"
  shows "(\<forall>i. i \<in> set (ready s) \<longleftrightarrow>
      (\<exists>t. map_of (tg_nodes s) i = Some t \<and>
         (tn_state t = TaskState.Created \<or> tn_state t = TaskState.WaitingForDependency) \<and>
         (\<forall>d \<in> set (tn_dependencies t). \<exists>u. map_of (tg_nodes s) d = Some u \<and> tn_state u = TaskState.Completed))) \<and>
    distinct (ready s) \<and> sorted (map (stage_key s) (ready s)) \<and>
    (\<forall>m. mset m = mset (tg_nodes s) \<longrightarrow> ready (s\<lparr>tg_nodes := m\<rparr>) = ready s)"
proof -
  have "distinct (ready s)" unfolding ready_eq using distinct_ids_where [OF assms] by simp
  moreover have "sorted (map (stage_key s) (ready s))" unfolding ready_eq by simp
  ultimately show ?thesis using ready_iff [OF assms] ready_permute [OF assms] by blast
qed

theorem ready_exact_witness: "1 \<in> set (ready demo_graph) \<and> 2 \<notin> set (ready demo_graph)"
proof -
  have n: "map_of (tg_nodes demo_graph) 1 = Some (demo_task 1 [])" "map_of (tg_nodes demo_graph) 2 = Some (demo_task 2 [1])"
    by (simp_all add: demo_graph_eq)
  note ex = ready_exact [OF demo_graph_inv, THEN conjunct1, rule_format]
  show ?thesis using ex [of 1] ex [of 2] n by simp
qed

section \<open>Blocked tasks\<close>

definition unfinished :: "'g TaskGraph \<Rightarrow> TaskId \<Rightarrow> bool" where
  "unfinished s i \<longleftrightarrow> (case map_of (tg_nodes s) i of None \<Rightarrow> False | Some n \<Rightarrow> \<not> node_is_terminal n)"

text \<open>The specification: unfinished tasks reached from an abandoned one through unfinished tasks.\<close>

inductive cut_off :: "'g petgraph \<Rightarrow> 'g TaskGraph \<Rightarrow> TaskId \<Rightarrow> bool" for pg s where
  cut_start: "a \<in> set (abandoned_ids s) \<Longrightarrow> x \<in> set (dependents pg s a) \<Longrightarrow> unfinished s x \<Longrightarrow> cut_off pg s x"
| cut_step: "cut_off pg s y \<Longrightarrow> x \<in> set (dependents pg s y) \<Longrightarrow> unfinished s x \<Longrightarrow> cut_off pg s x"

lemma visit_eq:
  "visit s d (b, f, seen) =
     (if d \<in> seen then (b, f, seen)
      else if unfinished s d then (b @ [d], f @ [d], insert d seen) else (b, f, insert d seen))"
  by (auto simp: unfinished_def split: option.split)

lemma visits_effect:
  "fold (visit s) ds (b, f, seen) = (b', f', seen') \<Longrightarrow>
   \<exists>new. b' = b @ new \<and> f' = f @ new \<and> seen' = seen \<union> set ds \<and> distinct new \<and>
     set new = {d \<in> set ds. unfinished s d \<and> d \<notin> seen}"
proof (induction ds arbitrary: b f seen)
  case (Cons d ds)
  show ?case
  proof (cases "d \<notin> seen \<and> unfinished s d")
    case True
    with Cons.prems have "fold (visit s) ds (b @ [d], f @ [d], insert d seen) = (b', f', seen')"
      by (simp add: visit_eq del: visit.simps)
    from Cons.IH [OF this] obtain new where "b' = (b @ [d]) @ new" "f' = (f @ [d]) @ new"
      "seen' = insert d seen \<union> set ds" "distinct new"
      "set new = {e \<in> set ds. unfinished s e \<and> e \<notin> insert d seen}" by blast
    then show ?thesis using True by (intro exI [of _ "d # new"]) auto
  next
    case False
    with Cons.prems have "fold (visit s) ds (b, f, insert d seen) = (b', f', seen')"
      by (auto simp: visit_eq insert_absorb simp del: visit.simps split: if_splits)
    from Cons.IH [OF this] obtain new where "b' = b @ new" "f' = f @ new"
      "seen' = insert d seen \<union> set ds" "distinct new"
      "set new = {e \<in> set ds. unfinished s e \<and> e \<notin> insert d seen}" by blast
    then show ?thesis using False by (intro exI [of _ new]) auto
  qed
qed simp

text \<open>The invariant of the walk, with \<open>A\<close> the abandoned tasks.\<close>

definition walk_inv ::
  "'g petgraph \<Rightarrow> 'g TaskGraph \<Rightarrow> TaskId set \<Rightarrow> TaskId list \<times> TaskId list \<times> TaskId set \<Rightarrow> bool" where
  "walk_inv pg s A st \<longleftrightarrow> (case st of (b, f, seen) \<Rightarrow>
     distinct b \<and> (\<forall>x \<in> set b. cut_off pg s x) \<and> set f \<subseteq> A \<union> set b \<and> A \<union> set b \<subseteq> seen \<and>
     (\<forall>x \<in> seen. unfinished s x \<longrightarrow> x \<in> set b) \<and>
     (\<forall>y \<in> (A \<union> set b) - set f. set (dependents pg s y) \<subseteq> seen))"

lemma walk_step_inv:
  assumes inv: "walk_inv pg s A (b, f, seen)" and A: "A = set (abandoned_ids s)" and f: "f \<noteq> []"
  shows "walk_inv pg s A (fold (visit s) (dependents pg s (last f)) (b, butlast f, seen))"
proof -
  let ?ds = "dependents pg s (last f)"
  obtain b' f' seen' where v: "fold (visit s) ?ds (b, butlast f, seen) = (b', f', seen')" by (metis prod_cases3)
  from visits_effect [OF v] obtain new where n: "b' = b @ new" "f' = butlast f @ new" "seen' = seen \<union> set ?ds"
    "distinct new" "set new = {d \<in> set ?ds. unfinished s d \<and> d \<notin> seen}" by blast
  have sf: "set f = insert (last f) (set (butlast f))"
    using f by (metis append_butlast_last_id list.simps(15) rotate1.simps(2) set_rotate1)
  have "last f \<in> A \<union> set b" using inv last_in_set [OF f] by (auto simp: walk_inv_def)
  then have "cut_off pg s x" if "x \<in> set new" for x
    using that n(5) inv A by (auto simp: walk_inv_def intro: cut_start cut_step)
  then show ?thesis
    unfolding v using inv n sf by (auto simp: walk_inv_def)
qed

lemma blocked_loop_inv:
  "walk_inv pg s (set (abandoned_ids s)) st \<Longrightarrow>
   \<exists>seen. walk_inv pg s (set (abandoned_ids s)) (blocked_loop pg s st, [], seen)"
proof (induction pg s st rule: blocked_loop.induct)
  case (1 pg s b f seen)
  show ?case
  proof (cases "f = []")
    case True
    with "1.prems" show ?thesis by (auto simp: blocked_loop.simps)
  next
    case False
    from "1.IH" [OF False walk_step_inv [OF "1.prems" refl False]] False show ?thesis
      by (subst blocked_loop.simps) simp
  qed
qed

lemma abandoned_terminal:
  assumes "graph_inv pg s" "a \<in> set (abandoned_ids s)"
  shows "\<not> unfinished s a"
  using ids_where [OF assms(1), of a "\<lambda>n. tn_state n = TaskState.DeadLettered \<or> tn_state n = TaskState.Cancelled"] assms(2)
  by (auto simp: abandoned_ids_def unfinished_def node_is_terminal_def)

lemma blocked_set:
  assumes "graph_inv pg s"
  shows "set (blocked_by_abandoned pg s) = {x. cut_off pg s x} \<and> distinct (blocked_by_abandoned pg s)"
proof (cases "abandoned_ids s = []")
  case True
  have "\<not> cut_off pg s x" for x
  proof
    assume "cut_off pg s x"
    then show False by induction (use True in simp_all)
  qed
  then show ?thesis using True by (simp add: blocked_by_abandoned_def)
next
  case False
  let ?A = "set (abandoned_ids s)" and ?b = "blocked_by_abandoned pg s"
  have "walk_inv pg s ?A ([], abandoned_ids s, ?A)"
    using abandoned_terminal [OF assms] by (auto simp: walk_inv_def)
  from blocked_loop_inv [OF this] False obtain seen where w: "walk_inv pg s ?A (?b, [], seen)"
    by (auto simp: blocked_by_abandoned_def Let_def)
  then have closed: "\<And>y z. y \<in> ?A \<union> set ?b \<Longrightarrow> z \<in> set (dependents pg s y) \<Longrightarrow> unfinished s z \<Longrightarrow> z \<in> set ?b"
    unfolding walk_inv_def by fastforce
  have "x \<in> set ?b" if "cut_off pg s x" for x
    using that by induction (blast intro: closed)+
  with w show ?thesis by (auto simp: walk_inv_def)
qed

text \<open>C25: the walk over the graph ends and finds exactly the tasks that an abandoned (dead-lettered or
  cancelled) task cuts off: every unfinished task that depends on one, directly or through other
  unfinished tasks, is reported once, and nothing else is.\<close>

theorem blocked_exact:
  assumes "graph_inv pg s"
  shows "set (blocked_by_abandoned pg s) = {x. cut_off pg s x} \<and> distinct (blocked_by_abandoned pg s)"
  by (rule blocked_set [OF assms])

definition stuck_graph :: "list_graph TaskGraph" where
  "stuck_graph = run_graph list_pg (GRestore 1 TaskState.DeadLettered) demo_graph"

lemma stuck_graph_inv: "graph_inv list_pg stuck_graph"
  unfolding stuck_graph_def by (rule run_graph_inv [OF list_pg.petgraph_laws_axioms demo_graph_inv])

theorem blocked_exact_witness: "2 \<in> set (blocked_by_abandoned list_pg stuck_graph)"
proof -
  have "1 \<in> set (abandoned_ids stuck_graph)" "2 \<in> set (dependents list_pg stuck_graph 1)" "unfinished stuck_graph 2"
    by (simp_all add: stuck_graph_def demo_graph_eq restore_state_def update_task_def abandoned_ids_def
        dependents_def unfinished_def node_is_terminal_def list_pg_def)
  then have "cut_off list_pg stuck_graph 2" by (rule cut_start)
  with blocked_exact [OF stuck_graph_inv] show ?thesis by blast
qed

section \<open>Progress\<close>

lemma dependency_order_wf:
  assumes "graph_inv pg s"
  shows "wf {(d, i). \<exists>t. map_of (tg_nodes s) i = Some t \<and> d \<in> set (tn_dependencies t)}"
proof -
  let ?e = "set (pg_raw_edges pg (tg_graph s))" and ?ix = "\<lambda>i. the (map_of (tg_index s) i)"
  have "wf (inv_image ?e ?ix)"
    using graph_invD(7) [OF assms] by (intro wf_inv_image finite_acyclic_wf) simp_all
  moreover have "{(d, i). \<exists>t. map_of (tg_nodes s) i = Some t \<and> d \<in> set (tn_dependencies t)} \<subseteq> inv_image ?e ?ix"
    using graph_invD(8) [OF assms] by (fastforce simp: inv_image_def)
  ultimately show ?thesis by (rule wf_subset)
qed

text \<open>C9: a job cannot hang. If some task is unfinished and no task is queued, leased, running, preempted
  or awaiting a retry, then some task is ready to be queued, or some unfinished task is reported as
  cut off by an abandoned one (and the engine cancels those): the scheduler always has a next step
  until every task is finished.\<close>

theorem never_stuck:
  assumes "petgraph_laws pg" "graph_inv pg s" "unfinished s x"
    "\<And>i t. map_of (tg_nodes s) i = Some t \<Longrightarrow>
       tn_state t \<in> {TaskState.Created, TaskState.WaitingForDependency, TaskState.Completed,
         TaskState.Cancelled, TaskState.DeadLettered}"
  shows "ready s \<noteq> [] \<or> blocked_by_abandoned pg s \<noteq> []"
proof -
  let ?r = "{(d, i). \<exists>t. map_of (tg_nodes s) i = Some t \<and> d \<in> set (tn_dependencies t)}"
  obtain i where "i \<in> {i. unfinished s i}" and min: "\<And>d. (d, i) \<in> ?r \<Longrightarrow> d \<notin> {i. unfinished s i}"
    by (rule wfE_min [OF dependency_order_wf [OF assms(2)], of x "{i. unfinished s i}"]) (use assms(3) in simp_all)
  then have i: "unfinished s i" "\<And>d. (d, i) \<in> ?r \<Longrightarrow> \<not> unfinished s d" by simp_all
  then obtain t where t: "map_of (tg_nodes s) i = Some t" "\<not> node_is_terminal t"
    by (auto simp: unfinished_def split: option.splits)
  have st: "tn_state t = TaskState.Created \<or> tn_state t = TaskState.WaitingForDependency"
    using assms(4) [OF t(1)] t(2) by (auto simp: node_is_terminal_def)
  have dep: "\<exists>u. map_of (tg_nodes s) d = Some u \<and> node_is_terminal u" if "d \<in> set (tn_dependencies t)" for d
    using i(2) [of d] that t(1) dependency_known [OF assms(2) t(1) that]
    by (auto simp: unfinished_def split: option.splits)
  show ?thesis
  proof (cases "\<exists>d \<in> set (tn_dependencies t). d \<in> set (abandoned_ids s)")
    case True
    then obtain d where "d \<in> set (abandoned_ids s)" "d \<in> set (tn_dependencies t)" by blast
    then have "cut_off pg s i"
      using petgraph_laws.dependents_complete [OF assms(1,2) t(1)] i(1) by (blast intro: cut_start)
    with blocked_set [OF assms(2)] show ?thesis by force
  next
    case False
    have "\<exists>u. map_of (tg_nodes s) d = Some u \<and> tn_state u = TaskState.Completed"
      if d: "d \<in> set (tn_dependencies t)" for d
    proof -
      from dep [OF d] obtain u where u: "map_of (tg_nodes s) d = Some u" "node_is_terminal u" by blast
      have "\<not> (tn_state u = TaskState.DeadLettered \<or> tn_state u = TaskState.Cancelled)"
        using False d u(1) ids_where [OF assms(2), of d "\<lambda>n. tn_state n = TaskState.DeadLettered \<or> tn_state n = TaskState.Cancelled"]
        unfolding abandoned_ids_def by blast
      with u show ?thesis by (auto simp: node_is_terminal_def)
    qed
    with t st have "i \<in> set (ready s)" using ready_iff [OF assms(2)] by blast
    then show ?thesis by auto
  qed
qed

lemma stuck_graph_nodes: "map_of (tg_nodes stuck_graph) =
    [1 \<mapsto> (demo_task 1 [])\<lparr>tn_state := TaskState.DeadLettered\<rparr>, 2 \<mapsto> demo_task 2 [1]]"
  by (auto simp: stuck_graph_def demo_graph_eq restore_state_def update_task_def)

lemma stuck_graph_rests:
  "map_of (tg_nodes stuck_graph) i = Some t \<Longrightarrow>
   tn_state t \<in> {TaskState.Created, TaskState.WaitingForDependency, TaskState.Completed,
     TaskState.Cancelled, TaskState.DeadLettered}"
  by (auto simp: stuck_graph_nodes split: if_splits)

theorem never_stuck_witness: "ready stuck_graph @ blocked_by_abandoned list_pg stuck_graph \<noteq> []"
proof -
  have "unfinished stuck_graph 2" by (simp add: unfinished_def stuck_graph_nodes node_is_terminal_def)
  from never_stuck [OF list_pg.petgraph_laws_axioms stuck_graph_inv this stuck_graph_rests]
  show ?thesis by simp
qed

section \<open>Counts\<close>

definition counted :: "GraphCounts \<Rightarrow> nat" where
  "counted c = gc_pending c + gc_queued c + gc_in_flight c + gc_completed c + gc_retrying c + gc_abandoned c"

lemma count_state_counted: "counted (count_state st c) = counted c + 1"
  by (cases st) (simp_all add: counted_def)

lemma count_state_terminal:
  "terminal_count (count_state (tn_state n) c) = terminal_count c + (if node_is_terminal n then 1 else 0)"
  by (cases "tn_state n") (simp_all add: terminal_count_def node_is_terminal_def)

lemma count_state_total: "gc_total (count_state st c) = gc_total c"
  by (cases st) simp_all

lemma fold_counts:
  "counted (fold (\<lambda>n. count_state (tn_state n)) ns c) = counted c + length ns"
  "terminal_count (fold (\<lambda>n. count_state (tn_state n)) ns c) = terminal_count c + length (filter node_is_terminal ns)"
  "gc_total (fold (\<lambda>n. count_state (tn_state n)) ns c) = gc_total c"
  by (induction ns arbitrary: c) (simp_all add: count_state_counted count_state_terminal count_state_total)

lemma zero_counts_zero:
  "counted (zero_counts n) = 0" "terminal_count (zero_counts n) = 0" "gc_total (zero_counts n) = n"
  by (simp_all add: zero_counts_def counted_def terminal_count_def)

text \<open>The progress figures add up: every task is counted in exactly one group, the job is complete
  exactly when it has tasks and all of them are terminal, and the reported progress lies between 0
  and 1 and reaches 1 exactly on completion.\<close>

theorem counts_partition:
  "counted (counts s) = gc_total (counts s) \<and> gc_total (counts s) = length (tg_nodes s) \<and>
   (is_complete s \<longleftrightarrow> tg_nodes s \<noteq> [] \<and> terminal_count (counts s) = gc_total (counts s)) \<and>
   0 \<le> progress s \<and> progress s \<le> 1 \<and> (progress s = 1 \<longleftrightarrow> is_complete s)"
proof -
  let ?v = "hm_values (tg_nodes s)"
  have t: "terminal_count (counts s) = length (filter node_is_terminal ?v)"
    "gc_total (counts s) = length ?v" "counted (counts s) = length ?v"
    by (simp_all add: counts_def fold_counts zero_counts_zero)
  have le: "length (filter node_is_terminal ?v) \<le> length ?v" by simp
  have all: "length (filter node_is_terminal ?v) = length ?v \<longleftrightarrow> list_all node_is_terminal ?v"
    unfolding list_all_iff by (metis (no_types, lifting) filter_True length_filter_less less_irrefl)
  have p: "progress s = (if ?v = [] then 0 else real (length (filter node_is_terminal ?v)) / real (length ?v))"
    by (simp add: progress_def t)
  have "progress s = 1 \<longleftrightarrow> ?v \<noteq> [] \<and> list_all node_is_terminal ?v"
    unfolding p using all by (auto simp: divide_eq_eq)
  moreover have "0 \<le> progress s" "progress s \<le> 1" unfolding p using le by (auto simp: divide_le_eq)
  ultimately show ?thesis using t all by (auto simp: is_complete_def)
qed

section \<open>Layers\<close>

lemma max_depth_props:
  "d \<in> set ds \<Longrightarrow> d < max_depth ds" "0 < max_depth ds \<Longrightarrow> max_depth ds - 1 \<in> set ds"
  by (auto simp: max_depth_def less_Suc_eq_le split: if_splits)

lemma push_layer_nth:
  "length (push_layer d x ls) = max (length ls) (d + 1)"
  "k < length (push_layer d x ls) \<Longrightarrow>
   push_layer d x ls ! k = (if k < length ls then ls ! k else []) @ (if k = d then [x] else [])"
  by (auto simp: push_layer_def Let_def nth_append nth_list_update max_def)

definition layered :: "(TaskId \<Rightarrow> TaskId list) \<Rightarrow> TaskId list \<Rightarrow> (TaskId \<rightharpoonup> nat) \<Rightarrow> TaskId list list \<Rightarrow> bool" where
  "layered deps xs D ls \<longleftrightarrow>
     dom D = set xs \<and>
     (\<forall>k < length ls. ls ! k = filter (\<lambda>t. D t = Some k) xs) \<and>
     (\<forall>t k. D t = Some k \<longrightarrow> k < length ls \<and>
        (\<forall>d \<in> set (deps t). \<exists>m < k. D d = Some m) \<and>
        (0 < k \<longrightarrow> (\<exists>d \<in> set (deps t). D d = Some (k - 1))))"

lemma layered_step:
  assumes l: "layered deps xs D ls" and x: "x \<notin> set xs" "set (deps x) \<subseteq> set xs"
    and d: "d = max_depth (List.map_filter D (deps x))"
  shows "layered deps (xs @ [x]) (D(x \<mapsto> d)) (push_layer d x ls)"
proof -
  have dom: "dom D = set xs" using l by (simp add: layered_def)
  then have Dx: "D x = None" using x(1) by auto
  have known: "\<exists>m. D e = Some m" if "e \<in> set (deps x)" for e using that x(2) dom by blast
  have mf: "set (List.map_filter D (deps x)) = {m. \<exists>e \<in> set (deps x). D e = Some m}"
    by (auto simp: List.map_filter_def) (force simp: image_iff)
  have lt: "\<exists>m < d. D e = Some m" if "e \<in> set (deps x)" for e
    using known [OF that] max_depth_props(1) mf that unfolding d by blast
  have pred: "\<exists>e \<in> set (deps x). D e = Some (d - 1)" if "0 < d"
    using max_depth_props(2) [of "List.map_filter D (deps x)"] that mf unfolding d by blast
  have keep: "(D(x \<mapsto> d)) e = Some m" if "D e = Some m" for e m using that Dx by auto
  have fl: "filter (\<lambda>t. (D(x \<mapsto> d)) t = Some k) xs = filter (\<lambda>t. D t = Some k) xs" for k
    using x(1) by (intro filter_cong) auto
  have "push_layer d x ls ! k = filter (\<lambda>t. (D(x \<mapsto> d)) t = Some k) (xs @ [x])"
    if "k < length (push_layer d x ls)" for k
  proof -
    have "filter (\<lambda>t. D t = Some k) xs = []" if "\<not> k < length ls"
      using that l by (auto simp: layered_def filter_empty_conv)
    then show ?thesis using that l unfolding push_layer_nth(2) [OF that] filter_append fl
      by (auto simp: layered_def)
  qed
  moreover have "k < length (push_layer d x ls) \<and> (\<forall>e \<in> set (deps t). \<exists>m < k. (D(x \<mapsto> d)) e = Some m) \<and>
      (0 < k \<longrightarrow> (\<exists>e \<in> set (deps t). (D(x \<mapsto> d)) e = Some (k - 1)))"
    if "(D(x \<mapsto> d)) t = Some k" for t k
  proof (cases "t = x")
    case True
    with that have k: "k = d" by simp
    then have "k < length (push_layer d x ls)" by (simp add: push_layer_nth(1))
    moreover have "\<exists>m < k. (D(x \<mapsto> d)) e = Some m" if "e \<in> set (deps t)" for e
      using lt [of e] that True k keep by blast
    moreover have "\<exists>e \<in> set (deps t). (D(x \<mapsto> d)) e = Some (k - 1)" if "0 < k"
      using pred that True k keep by blast
    ultimately show ?thesis by blast
  next
    case False
    with that have D: "D t = Some k" by simp
    then have "k < length ls" using l by (auto simp: layered_def)
    then have "k < length (push_layer d x ls)" by (simp add: push_layer_nth(1))
    moreover have "\<exists>m < k. (D(x \<mapsto> d)) e = Some m" if "e \<in> set (deps t)" for e
    proof -
      have "\<exists>m < k. D e = Some m" using l D that unfolding layered_def by blast
      then show ?thesis using keep by blast
    qed
    moreover have "\<exists>e \<in> set (deps t). (D(x \<mapsto> d)) e = Some (k - 1)" if "0 < k"
    proof -
      have "\<exists>e \<in> set (deps t). D e = Some (k - 1)" using l D that unfolding layered_def by blast
      then show ?thesis using keep by blast
    qed
    ultimately show ?thesis by blast
  qed
  ultimately show ?thesis using dom by (auto simp: layered_def)
qed

lemma layers_loop_layered:
  assumes "layered deps xs D ls" "distinct (xs @ ys)"
    "\<And>i. i < length ys \<Longrightarrow> set (deps (ys ! i)) \<subseteq> set xs \<union> set (take i ys)"
  shows "\<exists>D'. fst (layers_loop deps ys D ls) = D' \<and> layered deps (xs @ ys) D' (snd (layers_loop deps ys D ls))"
  using assms
proof (induction ys arbitrary: xs D ls)
  case (Cons y ys)
  let ?d = "max_depth (List.map_filter D (deps y))"
  have "layered deps (xs @ [y]) (D(y \<mapsto> ?d)) (push_layer ?d y ls)"
    using Cons.prems(2) Cons.prems(3) [of 0] by (intro layered_step [OF Cons.prems(1)]) auto
  moreover have "set (deps (ys ! i)) \<subseteq> set (xs @ [y]) \<union> set (take i ys)" if "i < length ys" for i
    using Cons.prems(3) [of "Suc i"] that by auto
  ultimately show ?case
    using Cons.IH [of "xs @ [y]"] Cons.prems(2) by (simp add: Let_def)
qed simp

lemma layered_places:
  assumes "layered deps xs D ls"
  shows "t \<in> set xs \<Longrightarrow> \<exists>!k. k < length ls \<and> t \<in> set (ls ! k)"
    "k < length ls \<Longrightarrow> t \<in> set (ls ! k) \<longleftrightarrow> t \<in> set xs \<and> D t = Some k"
proof -
  show at_k: "k < length ls \<Longrightarrow> t \<in> set (ls ! k) \<longleftrightarrow> t \<in> set xs \<and> D t = Some k" for k t
    using assms by (simp add: layered_def)
  assume t: "t \<in> set xs"
  then obtain k where k: "D t = Some k" using assms unfolding layered_def by blast
  then have "k < length ls" using assms unfolding layered_def by blast
  with k t show "\<exists>!k. k < length ls \<and> t \<in> set (ls ! k)" by (auto simp: at_k)
qed

lemma layered_empty: "layered deps [] Map.empty []"
  by (simp add: layered_def)

context petgraph_laws
begin

lemma dependencies_earlier:
  assumes inv: "graph_inv pg s" and o1: "pg_toposort pg (tg_graph s) = Inr o1"
    and i: "i < length o1" "d \<in> set (dependencies pg s (map (pg_weight pg (tg_graph s)) o1 ! i))"
    and dist: "distinct (pg_raw_nodes pg (tg_graph s))"
  shows "d \<in> set (take i (map (pg_weight pg (tg_graph s)) o1))"
proof -
  let ?w = "pg_weight pg (tg_graph s)" and ?ns = "pg_raw_nodes pg (tg_graph s)"
  note tp = toposort_Ok [OF graph_invD(6) [OF inv] o1]
  from i obtain n a where n: "map_of (tg_index s) (?w (o1 ! i)) = Some n"
    "a \<in> set (pg_neighbors_incoming pg n (tg_graph s))" "d = ?w a"
    by (cases "map_of (tg_index s) (?w (o1 ! i))") (auto simp: dependencies_def)
  have oi: "o1 ! i < length ?ns" using tp i(1) nth_mem by fastforce
  have nl: "n < length ?ns" "?ns ! n = ?w (o1 ! i)" using graph_invD(3,4) [OF inv n(1)] .
  then have "n = o1 ! i" using weight [OF oi] nth_eq_iff_index_eq [OF dist nl(1) oi] by simp
  moreover have "(a, n) \<in> set (pg_raw_edges pg (tg_graph s))"
    using neighbors_incoming [OF graph_invD(6) [OF inv] nl(1)] n(2) by blast
  ultimately have "before o1 a (o1 ! i)" using tp by blast
  then obtain k j where kj: "k < j" "j < length o1" "o1 ! k = a" "o1 ! j = o1 ! i"
    unfolding before_def by blast
  then have "j = i" using nth_eq_iff_index_eq [of o1 j i] tp i(1) by blast
  with kj have "a = take i o1 ! k" "k < length (take i o1)" by simp_all
  then have "a \<in> set (take i o1)" using nth_mem by blast
  then show ?thesis using n(3) by (simp add: take_map)
qed

lemma layers_layered:
  assumes inv: "graph_inv pg s" and dist: "distinct (pg_raw_nodes pg (tg_graph s))"
  shows "\<exists>xs D ls. layers pg s = Ok ls \<and> layered (dependencies pg s) xs D ls \<and>
    set xs = set (pg_raw_nodes pg (tg_graph s)) \<and> distinct xs"
proof -
  let ?w = "pg_weight pg (tg_graph s)" and ?ns = "pg_raw_nodes pg (tg_graph s)"
  obtain o1 where o1: "pg_toposort pg (tg_graph s) = Inr o1"
    using toposort_iff_acyclic [OF graph_invD(6) [OF inv]] graph_invD(7) [OF inv] by blast
  note tp = toposort_Ok [OF graph_invD(6) [OF inv] o1]
  let ?xs = "map ?w o1"
  have top: "topological_order pg s = Ok ?xs" by (simp add: topological_order_def o1)
  then have st: "set ?xs = set ?ns" using order_exists [OF inv] by auto
  have "length o1 = length ?ns" using tp distinct_card [of o1] by simp
  then have ds: "distinct ?xs" using st dist by (metis card_distinct distinct_card length_map)
  obtain D where "layered (dependencies pg s) ?xs D (snd (layers_loop (dependencies pg s) ?xs Map.empty []))"
    using layers_loop_layered [OF layered_empty, of ?xs "dependencies pg s"] ds
      dependencies_earlier [OF inv o1 _ _ dist] by fastforce
  then show ?thesis using top st ds by (force simp: layers_def)
qed

end

text \<open>Layering is the tightest parallel schedule. When no two nodes carry the same task, \<open>layers\<close>
  succeeds, puts every task into exactly one layer, and a task's layer comes after the layers of all
  its dependencies and directly after that of one of them: nothing runs later than it has to.\<close>

theorem layers_correct:
  assumes "petgraph_laws pg" "graph_inv pg s" "distinct (pg_raw_nodes pg (tg_graph s))"
  shows "\<exists>ls. layers pg s = Ok ls \<and>
    (\<forall>t \<in> dom (map_of (tg_nodes s)). \<exists>!k. k < length ls \<and> t \<in> set (ls ! k)) \<and>
    (\<forall>k < length ls. distinct (ls ! k) \<and>
      (\<forall>t \<in> set (ls ! k).
        (\<forall>d \<in> set (dependencies pg s t). \<exists>m < k. d \<in> set (ls ! m)) \<and>
        (0 < k \<longrightarrow> (\<exists>d \<in> set (dependencies pg s t). d \<in> set (ls ! (k - 1))))))"
proof -
  from petgraph_laws.layers_layered [OF assms] obtain xs D ls where l: "layers pg s = Ok ls"
    "layered (dependencies pg s) xs D ls" "set xs = set (pg_raw_nodes pg (tg_graph s))" "distinct xs" by blast
  note pl = layered_places [OF l(2)]
  have dom: "dom (map_of (tg_nodes s)) \<subseteq> set xs"
    using petgraph_laws.order_exists [OF assms(1,2)] l(3) by metis
  have in_xs: "e \<in> set xs" if "D e = Some m" for e m using l(2) that unfolding layered_def by blast
  have lay: "m < length ls" if "D e = Some m" for e m using l(2) that unfolding layered_def by blast
  have place: "e \<in> set (ls ! m)" if "D e = Some m" for e m using pl(2) [OF lay [OF that]] in_xs [OF that] that by blast
  have "(\<forall>d \<in> set (dependencies pg s t). \<exists>m < k. d \<in> set (ls ! m)) \<and>
      (0 < k \<longrightarrow> (\<exists>d \<in> set (dependencies pg s t). d \<in> set (ls ! (k - 1))))"
    if k: "k < length ls" "t \<in> set (ls ! k)" for k t
  proof -
    have D: "D t = Some k" using pl(2) [OF k(1)] k(2) by blast
    have "\<forall>d \<in> set (dependencies pg s t). \<exists>m < k. D d = Some m"
      and "0 < k \<longrightarrow> (\<exists>d \<in> set (dependencies pg s t). D d = Some (k - 1))"
      using l(2) D unfolding layered_def by blast+
    then show ?thesis using place by blast
  qed
  moreover have "distinct (ls ! k)" if "k < length ls" for k using l(2,4) that by (simp add: layered_def)
  ultimately show ?thesis using l(1) pl(1) dom by (intro exI [of _ ls]) blast
qed

theorem layers_correct_witness:
  "\<exists>ls. layers list_pg demo_graph = Ok ls \<and> (\<exists>!k. k < length ls \<and> 2 \<in> set (ls ! k))"
proof -
  have "distinct (pg_raw_nodes list_pg (tg_graph demo_graph))" by (simp add: demo_graph_eq list_pg_def)
  moreover have "2 \<in> dom (map_of (tg_nodes demo_graph))" by (simp add: demo_graph_eq)
  ultimately show ?thesis
    using layers_correct [OF list_pg.petgraph_laws_axioms demo_graph_inv] by blast
qed

section \<open>State changes\<close>

text \<open>A task changes state only along the edges of its state machine. \<open>set_state\<close> on a known task
  succeeds exactly for an edge of the machine; it then changes the state of that task and of no other,
  touches neither the dependencies nor the topology, and returns the audit record of the change. When
  it fails the graph is unchanged.\<close>

theorem set_state_exact:
  assumes "map_of (tg_nodes s) i = Some n" "set_state now i dst actor reason corr s = (s', r)"
  shows "((\<exists>t. r = Ok t) \<longleftrightarrow> dst \<in> set (sm_allowed task_machine (tn_state n))) \<and>
    (\<forall>t. r = Ok t \<longrightarrow>
       map_of (tg_nodes s') = (map_of (tg_nodes s))(i \<mapsto> n\<lparr>tn_state := dst\<rparr>) \<and>
       tg_graph s' = tg_graph s \<and> tg_index s' = tg_index s \<and>
       t_from t = Some (tn_state n) \<and> t_to t = dst \<and> t_actor t = actor \<and> t_reason t = reason \<and>
       t_at t = now) \<and>
    (\<forall>e. r = Err e \<longrightarrow> s' = s)"
proof (cases "dst \<in> set (sm_allowed task_machine (tn_state n))")
  case True
  with assms have "s' = update_task i (\<lambda>n. n\<lparr>tn_state := dst\<rparr>) s"
    "r = Ok (new_transition task_machine now (Some (tn_state n)) dst actor reason corr)"
    by (simp_all add: set_state_def apply_transition_def transition_def can_transition_to_def)
  then show ?thesis using True assms(1) by (simp add: new_transition_def map_of_update_task)
next
  case False
  with assms show ?thesis
    by (auto simp: set_state_def apply_transition_def transition_def can_transition_to_def)
qed

theorem set_state_exact_witness:
  "fst (set_state 0 1 TaskState.Completed ''a'' None 7 demo_graph) = demo_graph"
proof -
  obtain s' r where st: "set_state 0 1 TaskState.Completed ''a'' None 7 demo_graph = (s', r)" by fastforce
  have n: "map_of (tg_nodes demo_graph) 1 = Some (demo_task 1 [])" by (simp add: demo_graph_eq)
  have "\<not> (\<exists>t. r = Ok t)" using set_state_exact [OF n st] by (simp add: task_machine_def)
  moreover have "r = Err (InvalidTransition ''task'' ''Created'' ''Completed'')"
    using st n by (simp add: set_state_def apply_transition_def transition_def can_transition_to_def
        task_machine_def bindR_def)
  ultimately show ?thesis using set_state_exact [OF n st] st by simp
qed

section \<open>What a refused dynamic insertion leaves behind\<close>

text \<open>
  \<open>insert_dynamic\<close> removes the record and the index entry of a task whose attachment was refused, but
  not its node and edges in the petgraph graph, which the topological order then still lists: here
  task 3 is refused (it would close the cycle 1, 3, 2), is no task of the graph afterwards, and
  still occurs in the topological order.
\<close>

lemma refused_insertion_leaves_node:
  fixes s defines "s \<equiv> fst (insert_dynamic list_pg (demo_task 3 [2]) [1] demo_graph)"
  shows "tg_nodes s = tg_nodes demo_graph \<and> (\<exists>order. topological_order list_pg s = Ok order \<and> 3 \<in> set order)"
proof -
  let ?es = "[(0, Suc 0), (Suc 0, Suc (Suc 0)), (Suc (Suc 0), 0)]"
  have "(0, 0) \<in> (set ?es)\<^sup>+"
    by (rule trancl_into_trancl [OF trancl_into_trancl [OF r_into_trancl [of 0 "Suc 0"]],
        of _ "Suc (Suc 0)"]) auto
  then have t: "list_toposort ([1, 2, 3], ?es) = Inl 0" by (simp add: list_toposort_def upt_rec)
  have s: "s = demo_graph\<lparr>tg_graph := ([1, 2, 3], [(0, 1), (1, 2)])\<rparr>"
    unfolding s_def demo_graph_eq using t
    by (simp add: insert_dynamic_def insert_task_def add_dependency_def index_of_def assert_acyclic_def
        list_pg_def Let_def swap_remove_def del: upt_Suc)
  have "graph_inv list_pg s"
    unfolding s_def by (rule list_pg.insert_dynamic_inv [OF demo_graph_inv])
  from list_pg.order_exists [OF this] show ?thesis by (auto simp: s list_pg_def)
qed

end
