(* ===== verification/Journal.thy ===== *)
theory Journal
  imports Lifecycle RustStr
begin

text \<open>
  The durable journal (\<open>crates/persistence\<close>): its records, the in-memory journal, and the file of
  JSON lines with its buffered writer. The JSON encoder and decoder of \<open>serde_json\<close> are arguments
  (\<open>encode\<close>, \<open>decode\<close>), and so is what the operating system answers to a write, a sync or an open. A
  process that dies in the middle of an append leaves what a partial write leaves.
\<close>

datatype 'v JournalRecord =
    JobPlanned Job "TaskNode list"
  | JobStatusChanged JobId JobStatus "string option" DateTime
  | TaskTransitioned JobId "TaskState Transition" TaskId u32
  | TaskCompleted JobId "'v TaskResult"
  | TaskFailed JobId TaskFailure
  | JobFinished JobId "'v FinalResult"

fun record_job_id :: "'v JournalRecord \<Rightarrow> JobId" where
  "record_job_id (JobPlanned job tasks) = j_id job"
| "record_job_id (JobStatusChanged job_id status reason at_time) = job_id"
| "record_job_id (TaskTransitioned job_id tr task_id attempt) = job_id"
| "record_job_id (TaskCompleted job_id res) = job_id"
| "record_job_id (TaskFailed job_id failure) = job_id"
| "record_job_id (JobFinished job_id res) = job_id"

fun record_kind :: "'v JournalRecord \<Rightarrow> string" where
  "record_kind (JobPlanned _ _) = ''job_planned''"
| "record_kind (JobStatusChanged _ _ _ _) = ''job_status_changed''"
| "record_kind (TaskTransitioned _ _ _ _) = ''task_transitioned''"
| "record_kind (TaskCompleted _ _) = ''task_completed''"
| "record_kind (TaskFailed _ _) = ''task_failed''"
| "record_kind (JobFinished _ _) = ''job_finished''"

section \<open>The in-memory journal\<close>

type_synonym 'r MemoryJournal = "'r list"

definition new_memory_journal :: "'r MemoryJournal" where "new_memory_journal = []"

definition memory_append :: "'r \<Rightarrow> 'r MemoryJournal \<Rightarrow> 'r MemoryJournal \<times> unit result" where
  "memory_append r s = (s @ [r], Ok ())"

definition memory_replay :: "'r MemoryJournal \<Rightarrow> 'r list result" where
  "memory_replay s = Ok s"

definition memory_journal_len :: "'r MemoryJournal \<Rightarrow> nat result" where
  "memory_journal_len s = Ok (length s)"

section \<open>Reading lines\<close>

text \<open>
  \<open>BufRead::lines\<close>: lines end with a newline, which is dropped together with a carriage return
  before it; a last line without newline is returned as it is. A line that is not UTF-8 is an error.
\<close>

definition newline :: char where "newline = CHR 0x0A"

definition chomp :: "string \<Rightarrow> string" where
  "chomp cur = (if cur \<noteq> [] \<and> last cur = CHR 0x0D then butlast cur else cur)"

fun lines_from :: "string \<Rightarrow> string \<Rightarrow> string list" where
  "lines_from cur [] = (if cur = [] then [] else [cur])"
| "lines_from cur (c # cs) =
     (if c = newline then chomp cur # lines_from [] cs else lines_from (cur @ [c]) cs)"

definition cont :: "char \<Rightarrow> bool" where
  "cont c \<longleftrightarrow> (let n = of_char c :: nat in 0x80 \<le> n \<and> n \<le> 0xBF)"

definition second_ok :: "nat \<Rightarrow> nat \<Rightarrow> bool" where
  "second_ok b c \<longleftrightarrow>
     (if b = 0xE0 then 0xA0 else if b = 0xF0 then 0x90 else 0x80) \<le> c \<and>
     c \<le> (if b = 0xED then 0x9F else if b = 0xF4 then 0x8F else 0xBF)"

text \<open>Well-formed UTF-8: the byte sequences of table 3-7 of the Unicode standard.\<close>

fun utf8_valid :: "string \<Rightarrow> bool" where
  "utf8_valid [] = True"
| "utf8_valid (b # s) =
     (let n = of_char b :: nat in
      if n < 0x80 then utf8_valid s
      else if 0xC2 \<le> n \<and> n \<le> 0xDF then
        (case s of c # t \<Rightarrow> cont c \<and> utf8_valid t | _ \<Rightarrow> False)
      else if 0xE0 \<le> n \<and> n \<le> 0xEF then
        (case s of c # d # t \<Rightarrow> second_ok n (of_char c) \<and> cont d \<and> utf8_valid t | _ \<Rightarrow> False)
      else if 0xF0 \<le> n \<and> n \<le> 0xF4 then
        (case s of c # d # e # t \<Rightarrow> second_ok n (of_char c) \<and> cont d \<and> cont e \<and> utf8_valid t | _ \<Rightarrow> False)
      else False)"

section \<open>The file journal\<close>

text \<open>
  \<open>fj_file\<close> are the bytes that reached the file, \<open>fj_buffer\<close> those in the buffered writer. A write
  that fails got its first \<open>n\<close> pending bytes into the file; the rest stays in the buffer, or is
  gone when it was too long to be buffered.
\<close>

record FileJournal =
  fj_path :: string
  fj_file :: string
  fj_buffer :: string
  fj_fsync :: bool

datatype io = IoDone | IoFail nat bool

definition with_fsync ::
  "string option \<Rightarrow> string option \<Rightarrow> string \<Rightarrow> bool \<Rightarrow> string \<Rightarrow> FileJournal result" where
  "with_fsync mkdir_error open_error path fsync file =
     (case mkdir_error of
        Some e \<Rightarrow> Err (Config ''creating journal directory'')
      | None \<Rightarrow>
          (case open_error of
             Some e \<Rightarrow> Err (Config ''opening journal'')
           | None \<Rightarrow> Ok \<lparr>fj_path = path, fj_file = file, fj_buffer = [], fj_fsync = fsync\<rparr>))"

definition open_journal :: "string option \<Rightarrow> string option \<Rightarrow> string \<Rightarrow> string \<Rightarrow> FileJournal result" where
  "open_journal mkdir_error open_error path file = with_fsync mkdir_error open_error path True file"

definition write_flush :: "io \<Rightarrow> string \<Rightarrow> FileJournal \<Rightarrow> FileJournal \<times> bool" where
  "write_flush outcome bytes s =
     (let pending = fj_buffer s @ bytes in
      case outcome of
        IoDone \<Rightarrow> (s\<lparr>fj_file := fj_file s @ pending, fj_buffer := []\<rparr>, True)
      | IoFail n keep \<Rightarrow>
          (s\<lparr>fj_file := fj_file s @ take n pending, fj_buffer := if keep then drop n pending else []\<rparr>, False))"

definition file_append ::
  "('r \<Rightarrow> string + string) \<Rightarrow> io \<times> bool \<Rightarrow> 'r \<Rightarrow> FileJournal \<Rightarrow> FileJournal \<times> unit result" where
  "file_append encode os r s =
     (case encode r of
        Inl e \<Rightarrow> (s, Err (Internal ''encoding journal record''))
      | Inr line \<Rightarrow>
          (case write_flush (fst os) (line @ [newline]) s of
             (s1, False) \<Rightarrow> (s1, Err (Internal ''writing journal''))
           | (s1, True) \<Rightarrow>
               if fj_fsync s1 \<and> \<not> snd os then (s1, Err (Internal ''syncing journal'')) else (s1, Ok ())))"

fun replay_lines :: "(string \<Rightarrow> string + 'r) \<Rightarrow> 'r list \<Rightarrow> string list \<Rightarrow> 'r list result" where
  "replay_lines decode records [] = Ok records"
| "replay_lines decode records (line # lines) =
     (if \<not> utf8_valid line then Err (Internal ''reading journal line'')
      else if trim line = [] then replay_lines decode records lines
      else
        case decode line of
          Inr r \<Rightarrow> replay_lines decode (records @ [r]) lines
        | Inl e \<Rightarrow>
            if lines = [] then replay_lines decode records lines
            else Err (Internal ''journal is corrupt''))"

definition file_replay ::
  "(string \<Rightarrow> string + 'r) \<Rightarrow> io \<Rightarrow> string option \<Rightarrow> FileJournal \<Rightarrow> FileJournal \<times> 'r list result" where
  "file_replay decode outcome open_error s =
     (case write_flush outcome [] s of
        (s1, False) \<Rightarrow> (s1, Err (Internal ''flushing journal''))
      | (s1, True) \<Rightarrow>
          (case open_error of
             Some e \<Rightarrow> (s1, Err (Config ''reading journal''))
           | None \<Rightarrow> (s1, replay_lines decode [] (lines_from [] (fj_file s1)))))"

text \<open>The default methods \<open>len\<close> and \<open>is_empty\<close> of the trait.\<close>

definition journal_len :: "'r list result \<Rightarrow> nat result" where
  "journal_len replayed = bindR replayed (\<lambda>rs. Ok (length rs))"

definition journal_is_empty :: "'r list result \<Rightarrow> bool result" where
  "journal_is_empty replayed = bindR (journal_len replayed) (\<lambda>n. Ok (n = 0))"

section \<open>The interface\<close>

text \<open>
  What a journal promises: an acknowledged append adds its record at the end, and a replay returns
  the records appended, in order. \<open>holds s rs\<close> says that \<open>s\<close> stores exactly \<open>rs\<close>; \<open>good\<close> are the
  records that can be stored.
\<close>

locale journal =
  fixes append_to :: "'os \<Rightarrow> 'r \<Rightarrow> 's \<Rightarrow> 's \<times> unit result"
    and replay_of :: "'s \<Rightarrow> 'r list result"
    and holds :: "'s \<Rightarrow> 'r list \<Rightarrow> bool"
    and good :: "'r \<Rightarrow> bool"
  assumes append_law: "holds s rs \<Longrightarrow> good r \<Longrightarrow> append_to os r s = (s', Ok ()) \<Longrightarrow> holds s' (rs @ [r])"
    and replay_law: "holds s rs \<Longrightarrow> replay_of s = Ok rs"

text \<open>A sequence of appends, all acknowledged.\<close>

inductive appended :: "('os \<Rightarrow> 'r \<Rightarrow> 's \<Rightarrow> 's \<times> unit result) \<Rightarrow> 's \<Rightarrow> 'r list \<Rightarrow> 's \<Rightarrow> bool"
  for append_to where
  appended_Nil: "appended append_to s [] s"
| appended_snoc: "appended append_to s rs s1 \<Longrightarrow> append_to os r s1 = (s2, Ok ()) \<Longrightarrow>
    appended append_to s (rs @ [r]) s2"

context journal
begin

lemma appended_holds:
  "appended append_to s rs s' \<Longrightarrow> holds s rs0 \<Longrightarrow> list_all good rs \<Longrightarrow> holds s' (rs0 @ rs)"
proof (induction rule: appended.induct)
  case (appended_snoc s rs s1 os r s2)
  then have "holds s1 (rs0 @ rs)" "good r" by simp_all
  from append_law [OF this appended_snoc.hyps(2)] show ?case by simp
qed simp

lemma replay_appended:
  "appended append_to s rs s' \<Longrightarrow> holds s rs0 \<Longrightarrow> list_all good rs \<Longrightarrow> replay_of s' = Ok (rs0 @ rs)"
  by (rule replay_law [OF appended_holds])

end

interpretation memory_journal: journal "\<lambda>_ :: unit. memory_append" memory_replay "\<lambda>s rs. s = rs" "\<lambda>_. True"
  by unfold_locales (auto simp: memory_append_def memory_replay_def)

text \<open>
  What the code relies on of the codec for a record: compact JSON is one line of UTF-8 that starts
  and ends with a brace, it decodes to the record, and no proper prefix of it is a document.
\<close>

definition codec_ok :: "('r \<Rightarrow> string + string) \<Rightarrow> (string \<Rightarrow> string + 'r) \<Rightarrow> 'r \<Rightarrow> bool" where
  "codec_ok encode decode r \<longleftrightarrow>
     (\<exists>line. encode r = Inr line \<and> newline \<notin> set line \<and> trim line \<noteq> [] \<and> chomp line = line \<and>
        utf8_valid line \<and> decode line = Inr r \<and> (\<forall>p. strict_prefix p line \<longrightarrow> (\<exists>e. decode p = Inl e)))"

definition line_of :: "('r \<Rightarrow> string + string) \<Rightarrow> 'r \<Rightarrow> string" where
  "line_of encode r = projr (encode r)"

definition file_text :: "('r \<Rightarrow> string + string) \<Rightarrow> 'r list \<Rightarrow> string" where
  "file_text encode rs = concat (map (\<lambda>r. line_of encode r @ [newline]) rs)"

definition file_holds ::
  "('r \<Rightarrow> string + string) \<Rightarrow> (string \<Rightarrow> string + 'r) \<Rightarrow> FileJournal \<Rightarrow> 'r list \<Rightarrow> bool" where
  "file_holds encode decode s rs \<longleftrightarrow>
     fj_buffer s = [] \<and> fj_file s = file_text encode rs \<and> list_all (codec_ok encode decode) rs"

lemma codec_okD:
  assumes "codec_ok encode decode r"
  shows "encode r = Inr (line_of encode r)" "newline \<notin> set (line_of encode r)" "trim (line_of encode r) \<noteq> []"
    "chomp (line_of encode r) = line_of encode r" "utf8_valid (line_of encode r)" "decode (line_of encode r) = Inr r"
    "strict_prefix p (line_of encode r) \<Longrightarrow> \<exists>e. decode p = Inl e"
  using assms by (auto simp: codec_ok_def line_of_def)

lemma lines_from_line:
  "newline \<notin> set line \<Longrightarrow> lines_from cur (line @ newline # cs) = chomp (cur @ line) # lines_from [] cs"
  by (induction line arbitrary: cur) auto

lemma lines_from_tail:
  "newline \<notin> set tail \<Longrightarrow> lines_from cur tail = (if cur @ tail = [] then [] else [cur @ tail])"
  by (induction tail arbitrary: cur) auto

lemma trim_Nil: "trim [] = []"
  by (simp add: trim_def trim_start.simps trim_end.simps)

lemma replay_file_text:
  assumes "list_all (codec_ok encode decode) rs"
  shows "replay_lines decode acc (lines_from [] (file_text encode rs @ tail)) =
    replay_lines decode (acc @ rs) (lines_from [] tail)"
  using assms
proof (induction rs arbitrary: acc)
  case (Cons r rs)
  then have r: "codec_ok encode decode r" by simp
  note ok = codec_okD [OF r]
  have "lines_from [] (file_text encode (r # rs) @ tail) =
      line_of encode r # lines_from [] (file_text encode rs @ tail)"
    using lines_from_line [OF ok(2), of "[]" "file_text encode rs @ tail"] ok(4) by (simp add: file_text_def)
  then show ?case using Cons ok by simp
qed (simp add: file_text_def)

lemma file_append_ok:
  assumes "file_holds encode decode s rs" "codec_ok encode decode r" "file_append encode os r s = (s', Ok ())"
  shows "file_holds encode decode s' (rs @ [r])"
  using assms codec_okD(1) [OF assms(2)]
  by (auto simp: file_holds_def file_append_def write_flush_def file_text_def Let_def
      split: io.splits if_splits)

lemma file_replay_ok: "file_holds encode decode s rs \<Longrightarrow> snd (file_replay decode IoDone None s) = Ok rs"
  using replay_file_text [of encode decode rs "[]" "[]"]
  by (simp add: file_holds_def file_replay_def write_flush_def Let_def)

interpretation file_journal: journal "file_append encode" "\<lambda>s. snd (file_replay decode IoDone None s)"
    "file_holds encode decode" "codec_ok encode decode" for encode :: "'r \<Rightarrow> string + string" and decode
  by unfold_locales (erule (2) file_append_ok, erule file_replay_ok)

section \<open>Properties\<close>

definition empty_file :: "string \<Rightarrow> FileJournal" where
  "empty_file path = \<lparr>fj_path = path, fj_file = [], fj_buffer = [], fj_fsync = True\<rparr>"

lemma empty_file_holds: "file_holds encode decode (empty_file path) []"
  by (simp add: file_holds_def empty_file_def file_text_def)

text \<open>A codec that knows one record, for the closed examples.\<close>

definition demo_enc :: "nat \<Rightarrow> string + string" where
  "demo_enc r = (if r = 7 then Inr ''{7}'' else Inl ''unsupported'')"

definition demo_dec :: "string \<Rightarrow> string + nat" where
  "demo_dec line = (if line = ''{7}'' then Inr 7 else Inl ''expected a value'')"

lemma demo_codec_ok: "codec_ok demo_enc demo_dec 7"
proof -
  have "ws_prefix ''{7}'' = None" "ws_suffix ''{7}'' = None"
    by (simp_all add: ws_prefix_def ws_suffix_def ws_encodings_def suffix_def)
  then have "trim ''{7}'' = ''{7}''" by (simp add: trim_def trim_start.simps trim_end.simps)
  then show ?thesis
    by (auto simp: codec_ok_def demo_enc_def demo_dec_def newline_def chomp_def strict_prefix_def Let_def)
qed


lemma demo_appended:
  "appended (file_append demo_enc) (empty_file ''j'') [7] \<lparr>fj_path = ''j'', fj_file = ''{7}'' @ [newline],
     fj_buffer = [], fj_fsync = True\<rparr>"
  using appended_snoc [OF appended_Nil, of "file_append demo_enc" "(IoDone, True)" 7 "empty_file ''j''"]
  by (simp add: file_append_def demo_enc_def empty_file_def write_flush_def)


lemma replay_torn:
  assumes "codec_ok encode decode r" "prefix p (line_of encode r @ [newline])"
  shows "replay_lines decode rs (lines_from [] p) =
    (if line_of encode r = p \<or> line_of encode r @ [newline] = p then Ok (rs @ [r])
     else if utf8_valid p then Ok rs else Err (Internal ''reading journal line''))"
proof (cases "prefix p (line_of encode r)")
  case True
  note ok = codec_okD [OF assms(1)]
  have nl: "newline \<notin> set p" using True ok(2) set_mono_prefix by blast
  then have l: "lines_from [] p = (if p = [] then [] else [p])" using lines_from_tail [OF nl, of "[]"] by simp
  have ne: "line_of encode r @ [newline] \<noteq> p" using nl by auto
  show ?thesis
  proof (cases "p = line_of encode r")
    case True
    then have "p \<noteq> []" using ok(3) trim_Nil by auto
    with l True ok show ?thesis by simp
  next
    case False
    with True have "strict_prefix p (line_of encode r)" by (simp add: strict_prefix_def)
    then obtain e where "decode p = Inl e" using ok(7) by blast
    then show ?thesis using l ne False by auto
  qed
next
  case False
  then have p: "p = line_of encode r @ [newline]" using assms(2) by (simp add: prefix_snoc)
  note ok = codec_okD [OF assms(1)]
  have "lines_from [] p = [line_of encode r]"
    using lines_from_line [OF ok(2), of "[]" "[]"] ok(4) p by simp
  then show ?thesis using p ok by simp
qed



section \<open>What a restart after a torn append does\<close>

text \<open>
  A restarted coordinator appends to the file as it is. The first record written after a torn one
  continues the torn line: although its append is acknowledged, replay no longer returns it, and
  after one more append the whole replay is refused as corrupt.
\<close>

lemma torn_tail_swallows_next:
  assumes "list_all (codec_ok encode decode) (rs @ [a, b])" "newline \<notin> set p" "p \<noteq> []"
    "utf8_valid (p @ line_of encode a)" "trim (p @ line_of encode a) \<noteq> []" "decode (p @ line_of encode a) = Inl e"
    "last (line_of encode a) \<noteq> CHR 0x0D" "line_of encode a \<noteq> []"
    "s = \<lparr>fj_path = path, fj_file = file_text encode rs @ p, fj_buffer = [], fj_fsync = True\<rparr>"
    "file_append encode (IoDone, True) a s = (s1, res1)" "file_append encode (IoDone, True) b s1 = (s2, res2)"
  shows "res1 = Ok () \<and> snd (file_replay decode IoDone None s1) = Ok rs \<and>
    res2 = Ok () \<and> snd (file_replay decode IoDone None s2) = Err (Internal ''journal is corrupt'')"
proof -
  have ok: "list_all (codec_ok encode decode) rs" "codec_ok encode decode a" "codec_ok encode decode b" using assms(1) by simp_all
  note a = codec_okD [OF ok(2)] and b = codec_okD [OF ok(3)]
  let ?pa = "p @ line_of encode a"
  have s1: "s1 = s\<lparr>fj_file := file_text encode rs @ ?pa @ [newline]\<rparr>" "res1 = Ok ()"
    using assms(9,10) a(1) by (auto simp: file_append_def write_flush_def)
  have s2: "s2 = s\<lparr>fj_file := file_text encode rs @ ?pa @ newline # line_of encode b @ [newline]\<rparr>" "res2 = Ok ()"
    using assms(9,11) s1(1) b(1) by (auto simp: file_append_def write_flush_def)
  have "chomp ?pa = ?pa" using assms(7,8) by (simp add: chomp_def)
  then have l: "lines_from [] (?pa @ newline # cs) = ?pa # lines_from [] cs" for cs
    using lines_from_line [of ?pa "[]" cs] assms(2) a(2) by simp
  have lb: "lines_from [] (line_of encode b @ [newline]) = [line_of encode b]"
    using lines_from_line [OF b(2), of "[]" "[]"] b(4) by simp
  have "snd (file_replay decode IoDone None s1) = Ok rs"
    using replay_file_text [OF ok(1), of "[]" "?pa @ [newline]"] l [of "[]"] assms(4-6,9)
    by (simp add: s1 file_replay_def write_flush_def Let_def)
  moreover have "snd (file_replay decode IoDone None s2) = Err (Internal ''journal is corrupt'')"
    using replay_file_text [OF ok(1), of "[]" "?pa @ newline # line_of encode b @ [newline]"]
      l [of "line_of encode b @ [newline]"] lb assms(4-6,9)
    by (simp add: s2 file_replay_def write_flush_def Let_def)
  ultimately show ?thesis using s1(2) s2(2) by simp
qed

end
