(* ===== verification/Gateway.thy ===== *)
theory Gateway
  imports ErrorModel RustStr Hashing
begin

text \<open>
  The model gateway (\<open>crates/model-gateway/src/lib.rs\<close> and \<open>gateway.rs\<close>): requests and their cache
  key, circuit breakers, retries, ordered fallback, the response cache, budget and accounting.

  A provider is code outside the crate: a record of its name, the models it serves and what it answers.
  Answers may depend on the state of the world (type \<open>'w\<close>), which also holds the clock; \<open>environment\<close> gives
  the clock and the effect of sleeping. The configuration, the providers and the model limits never
  change after construction and form the record \<open>Gateway\<close>; what calls change forms \<open>GatewayState\<close>.
  The two semaphores only delay calls; they are the subject of the theory of interleaved calls.
\<close>

section \<open>Requests and responses\<close>

datatype Role = System | User | Assistant | Tool

fun role_byte :: "Role \<Rightarrow> char" where
  "role_byte Role.System = CHR 0x00"
| "role_byte Role.User = CHR 0x01"
| "role_byte Role.Assistant = CHR 0x02"
| "role_byte Role.Tool = CHR 0x03"

record Message =
  msg_role :: Role
  msg_content :: string

definition system_message :: "string \<Rightarrow> Message" where
  "system_message content = \<lparr>msg_role = Role.System, msg_content = content\<rparr>"

definition user_message :: "string \<Rightarrow> Message" where
  "user_message content = \<lparr>msg_role = Role.User, msg_content = content\<rparr>"

definition assistant_message :: "string \<Rightarrow> Message" where
  "assistant_message content = \<lparr>msg_role = Role.Assistant, msg_content = content\<rparr>"

text \<open>The temperature (an \<open>f32\<close>) is only passed on and hashed: it is kept as its 32 bits.\<close>

record CompletionRequest =
  cr_model :: string
  cr_messages :: "Message list"
  cr_max_tokens :: "u32 option"
  cr_temperature :: "u32 option"
  cr_stop :: "string list"
  cr_json_mode :: bool
  cr_bypass_cache :: bool
  cr_idempotency_key :: string
  cr_job_id :: "JobId option"
  cr_task_id :: "TaskId option"
  cr_agent_id :: "AgentId option"

definition new_completion_request :: "string \<Rightarrow> Message list \<Rightarrow> CompletionRequest" where
  "new_completion_request model messages =
     \<lparr>cr_model = model, cr_messages = messages, cr_max_tokens = None, cr_temperature = None, cr_stop = [],
      cr_json_mode = False, cr_bypass_cache = False, cr_idempotency_key = [], cr_job_id = None,
      cr_task_id = None, cr_agent_id = None\<rparr>"

definition json_request :: "CompletionRequest \<Rightarrow> CompletionRequest" where
  "json_request r = r\<lparr>cr_json_mode := True\<rparr>"

definition with_temperature :: "u32 \<Rightarrow> CompletionRequest \<Rightarrow> CompletionRequest" where
  "with_temperature t r = r\<lparr>cr_temperature := Some t\<rparr>"

definition with_max_tokens :: "u32 \<Rightarrow> CompletionRequest \<Rightarrow> CompletionRequest" where
  "with_max_tokens n r = r\<lparr>cr_max_tokens := Some n\<rparr>"

definition with_idempotency_key :: "string \<Rightarrow> CompletionRequest \<Rightarrow> CompletionRequest" where
  "with_idempotency_key key r = r\<lparr>cr_idempotency_key := key\<rparr>"

definition bypassing_cache :: "bool \<Rightarrow> CompletionRequest \<Rightarrow> CompletionRequest" where
  "bypassing_cache b r = r\<lparr>cr_bypass_cache := b\<rparr>"

definition attributed_to :: "JobId \<Rightarrow> TaskId \<Rightarrow> AgentId \<Rightarrow> CompletionRequest \<Rightarrow> CompletionRequest" where
  "attributed_to job_id task_id agent_id r =
     r\<lparr>cr_job_id := Some job_id, cr_task_id := Some task_id, cr_agent_id := Some agent_id\<rparr>"

definition last_user_message :: "CompletionRequest \<Rightarrow> string" where
  "last_user_message r =
     (case find (\<lambda>m. msg_role m = Role.User) (rev (cr_messages r)) of
        None \<Rightarrow> [] | Some m \<Rightarrow> msg_content m)"

definition estimated_prompt_tokens :: "CompletionRequest \<Rightarrow> u64" where
  "estimated_prompt_tokens r =
     sum_list (map (\<lambda>m. of_nat (length (split_whitespace (msg_content m)))) (cr_messages r))"

definition le_bytes :: "u32 \<Rightarrow> string" where
  "le_bytes w = map (\<lambda>i. char_of (unat (drop_bit (8 * i) w) mod 256)) [0, 1, 2, 3]"

definition hash_message :: "Message \<Rightarrow> u64 \<Rightarrow> u64" where
  "hash_message m hash = fnv1a (fnv1a hash [role_byte (msg_role m)]) (msg_content m)"

definition cache_key :: "CompletionRequest \<Rightarrow> u64" where
  "cache_key r =
     (let hash = fnv1a OFFSET (cr_model r);
          hash = fold hash_message (cr_messages r) hash;
          hash = fnv1a hash [if cr_json_mode r then CHR 0x01 else CHR 0x00];
          hash = (case cr_temperature r of Some t \<Rightarrow> fnv1a hash (le_bytes t) | None \<Rightarrow> hash);
          hash = (case cr_max_tokens r of Some n \<Rightarrow> fnv1a hash (le_bytes n) | None \<Rightarrow> hash)
      in hash)"

record CompletionResponse =
  rs_text :: string
  rs_provider :: string
  rs_model :: string
  rs_tokens_in :: u64
  rs_tokens_out :: u64
  rs_cost_usd :: real
  rs_latency_ms :: u64
  rs_cached :: bool
  rs_finish_reason :: string

definition parse_json :: "(string \<Rightarrow> string + 'v) \<Rightarrow> CompletionResponse \<Rightarrow> 'v result" where
  "parse_json decode r =
     (case decode (rs_text r) of
        Inl e \<Rightarrow> Err (Provider (rs_provider r) ''response is not valid JSON'')
      | Inr v \<Rightarrow> Ok v)"

record ProviderHealth =
  ph_provider :: string
  ph_healthy :: bool
  ph_latency_ms :: u64
  ph_circuit_open :: bool
  ph_detail :: "string option"

record ModelPricing =
  input_per_million :: real
  output_per_million :: real

definition default_pricing :: ModelPricing where
  "default_pricing = \<lparr>input_per_million = 3, output_per_million = 15\<rparr>"

definition pricing_cost :: "ModelPricing \<Rightarrow> u64 \<Rightarrow> u64 \<Rightarrow> real" where
  "pricing_cost p tokens_in tokens_out =
     real (unat tokens_in) / 1000000 * input_per_million p + real (unat tokens_out) / 1000000 * output_per_million p"

section \<open>Configuration and state\<close>

record GatewayConfig =
  gc_max_concurrent :: nat
  gc_cache_enabled :: bool
  gc_cache_capacity :: nat
  gc_max_attempts :: u32
  gc_retry_backoff_ms :: u64
  gc_circuit_failure_threshold :: u32
  gc_circuit_reset_ms :: u64
  gc_budget_usd :: "real option"

definition default_gateway_config :: GatewayConfig where
  "default_gateway_config =
     \<lparr>gc_max_concurrent = 32, gc_cache_enabled = True, gc_cache_capacity = 4096, gc_max_attempts = 3,
      gc_retry_backoff_ms = 50, gc_circuit_failure_threshold = 5, gc_circuit_reset_ms = 5000,
      gc_budget_usd = None\<rparr>"

record Usage =
  us_requests :: u64
  us_cache_hits :: u64
  us_failures :: u64
  us_fallbacks :: u64
  us_circuit_rejections :: u64
  us_tokens_in :: u64
  us_tokens_out :: u64
  us_cost_usd :: real

definition default_usage :: Usage where
  "default_usage =
     \<lparr>us_requests = 0, us_cache_hits = 0, us_failures = 0, us_fallbacks = 0, us_circuit_rejections = 0,
      us_tokens_in = 0, us_tokens_out = 0, us_cost_usd = 0\<rparr>"

record Breaker =
  br_consecutive_failures :: u32
  br_opened_at :: "Nanos option"

definition new_breaker :: Breaker where
  "new_breaker = \<lparr>br_consecutive_failures = 0, br_opened_at = None\<rparr>"

text \<open>The trait \<open>ModelProvider\<close>; a token stream is opaque (type \<open>'t\<close>).\<close>

record ('w, 't) ModelProvider =
  pv_name :: string
  pv_complete :: "CompletionRequest \<Rightarrow> 'w \<Rightarrow> 'w \<times> (SwarmError + CompletionResponse)"
  pv_stream :: "CompletionRequest \<Rightarrow> 'w \<Rightarrow> 'w \<times> (SwarmError + 't)"
  pv_health_check :: "'w \<Rightarrow> 'w \<times> (SwarmError + ProviderHealth)"
  pv_supports_model :: "string \<Rightarrow> bool"

record 'w environment =
  env_now :: "'w \<Rightarrow> Nanos"
  env_sleep :: "u64 \<Rightarrow> 'w \<Rightarrow> 'w"

record ('w, 't) Gateway =
  gw_config :: GatewayConfig
  gw_providers :: "('w, 't) ModelProvider list"
  gw_model_limits :: "(string, nat) hashmap"

record GatewayState =
  gs_cache :: "(u64, CompletionResponse) hashmap"
  gs_cache_order :: "u64 list"
  gs_breakers :: "(string, Breaker) hashmap"
  gs_usage :: Usage

definition new_gateway :: "GatewayConfig \<Rightarrow> ('w, 't) Gateway \<times> GatewayState" where
  "new_gateway config =
     (\<lparr>gw_config = config, gw_providers = [], gw_model_limits = []\<rparr>,
      \<lparr>gs_cache = [], gs_cache_order = [], gs_breakers = [], gs_usage = default_usage\<rparr>)"

definition and_provider ::
  "('w, 't) ModelProvider \<Rightarrow> ('w, 't) Gateway \<times> GatewayState \<Rightarrow> ('w, 't) Gateway \<times> GatewayState" where
  "and_provider p g =
     ((fst g)\<lparr>gw_providers := gw_providers (fst g) @ [p]\<rparr>,
      (snd g)\<lparr>gs_breakers := AList.update (pv_name p) new_breaker (gs_breakers (snd g))\<rparr>)"

definition with_provider :: "('w, 't) ModelProvider \<Rightarrow> ('w, 't) Gateway \<times> GatewayState" where
  "with_provider p = and_provider p (new_gateway default_gateway_config)"

definition and_model_limit ::
  "string \<Rightarrow> nat \<Rightarrow> ('w, 't) Gateway \<times> GatewayState \<Rightarrow> ('w, 't) Gateway \<times> GatewayState" where
  "and_model_limit model limit g =
     ((fst g)\<lparr>gw_model_limits := AList.update model (max limit 1) (gw_model_limits (fst g))\<rparr>, snd g)"

definition provider_names :: "('w, 't) Gateway \<Rightarrow> string list" where
  "provider_names g = map pv_name (gw_providers g)"

definition reset_usage :: "GatewayState \<Rightarrow> GatewayState" where
  "reset_usage s = s\<lparr>gs_usage := default_usage\<rparr>"

definition remaining_budget :: "('w, 't) Gateway \<Rightarrow> GatewayState \<Rightarrow> real option" where
  "remaining_budget g s =
     map_option (\<lambda>budget. max (budget - us_cost_usd (gs_usage s)) 0) (gc_budget_usd (gw_config g))"

section \<open>Breakers, cache and accounting\<close>

text \<open>\<open>Instant::elapsed\<close> saturates at zero; the reset time is positive or zero anyway.\<close>

definition circuit_is_open :: "GatewayConfig \<Rightarrow> Nanos \<Rightarrow> string \<Rightarrow> GatewayState \<Rightarrow> GatewayState \<times> bool" where
  "circuit_is_open cfg now provider s =
     (case map_of (gs_breakers s) provider of
        None \<Rightarrow> (s, False)
      | Some b \<Rightarrow>
          (case br_opened_at b of
             Some since \<Rightarrow>
               if max (now - since) 0 < ms (int (unat (gc_circuit_reset_ms cfg))) then (s, True)
               else (s\<lparr>gs_breakers := AList.update provider
                          (b\<lparr>br_opened_at := None, br_consecutive_failures := 0\<rparr>) (gs_breakers s)\<rparr>, False)
           | None \<Rightarrow> (s, False)))"

definition record_failure :: "GatewayConfig \<Rightarrow> Nanos \<Rightarrow> string \<Rightarrow> GatewayState \<Rightarrow> GatewayState" where
  "record_failure cfg now provider s =
     (let s = s\<lparr>gs_usage := (gs_usage s)\<lparr>us_failures := us_failures (gs_usage s) + 1\<rparr>\<rparr> in
      case map_of (gs_breakers s) provider of
        None \<Rightarrow> s
      | Some b \<Rightarrow>
          (let failures = br_consecutive_failures b + 1;
               b = b\<lparr>br_consecutive_failures := failures\<rparr>;
               b = (if gc_circuit_failure_threshold cfg \<le> failures \<and> br_opened_at b = None
                    then b\<lparr>br_opened_at := Some now\<rparr> else b)
           in s\<lparr>gs_breakers := AList.update provider b (gs_breakers s)\<rparr>))"

text \<open>The eviction loop: drop the oldest entry of the order, and its response, until it fits.\<close>

fun evict ::
  "nat \<Rightarrow> u64 list \<Rightarrow> (u64, CompletionResponse) hashmap \<Rightarrow> u64 list \<times> (u64, CompletionResponse) hashmap" where
  "evict capacity [] cache = ([], cache)"
| "evict capacity (oldest # order) cache =
     (if capacity < length (oldest # order) then evict capacity order (AList.delete oldest cache)
      else (oldest # order, cache))"

definition record_success ::
  "GatewayConfig \<Rightarrow> string \<Rightarrow> CompletionResponse \<Rightarrow> u64 \<Rightarrow> GatewayState \<Rightarrow> GatewayState" where
  "record_success cfg provider response key s =
     (let s = (case map_of (gs_breakers s) provider of
                 None \<Rightarrow> s
               | Some b \<Rightarrow> s\<lparr>gs_breakers := AList.update provider
                    (b\<lparr>br_consecutive_failures := 0, br_opened_at := None\<rparr>) (gs_breakers s)\<rparr>);
          u = gs_usage s;
          s = s\<lparr>gs_usage := u\<lparr>us_tokens_in := us_tokens_in u + rs_tokens_in response,
                 us_tokens_out := us_tokens_out u + rs_tokens_out response,
                 us_cost_usd := us_cost_usd u + rs_cost_usd response\<rparr>\<rparr>
      in if gc_cache_enabled cfg then
           (case evict (gc_cache_capacity cfg) (gs_cache_order s @ [key])
                   (AList.update key response (gs_cache s)) of
              (order, cache) \<Rightarrow> s\<lparr>gs_cache := cache, gs_cache_order := order\<rparr>)
         else s)"

section \<open>Calls\<close>

definition count_request :: "GatewayState \<Rightarrow> GatewayState" where
  "count_request s = s\<lparr>gs_usage := (gs_usage s)\<lparr>us_requests := us_requests (gs_usage s) + 1\<rparr>\<rparr>"

definition call_once ::
  "('w, 't) ModelProvider \<Rightarrow> CompletionRequest \<Rightarrow> GatewayState \<Rightarrow> 'w \<Rightarrow>
   GatewayState \<times> 'w \<times> (SwarmError + CompletionResponse)" where
  "call_once p r s w = (count_request s, pv_complete p r w)"

definition retry_backoff :: "GatewayConfig \<Rightarrow> u32 \<Rightarrow> u64" where
  "retry_backoff cfg attempt =
     saturating_mul (gc_retry_backoff_ms cfg) (push_bit (min (unat (attempt - 1)) 10) 1)"

function call_with_retries ::
  "'w environment \<Rightarrow> GatewayConfig \<Rightarrow> ('w, 't) ModelProvider \<Rightarrow> CompletionRequest \<Rightarrow> u32 \<Rightarrow> GatewayState \<Rightarrow> 'w \<Rightarrow>
   GatewayState \<times> 'w \<times> (SwarmError + CompletionResponse)" where
  "call_with_retries env cfg p r attempt s w =
     (case call_once p r s w of
        (s1, w1, Inr response) \<Rightarrow> (s1, w1, Inr response)
      | (s1, w1, Inl err) \<Rightarrow>
          (let s2 = record_failure cfg (env_now env w1) (pv_name p) s1 in
           if gc_max_attempts cfg \<le> attempt + 1 \<or> \<not> is_retryable err then (s2, w1, Inl err)
           else call_with_retries env cfg p r (attempt + 1) s2
                  (env_sleep env (retry_backoff cfg (attempt + 1)) w1)))"
  by pat_completeness auto

text \<open>The counter starts at zero and stays below the limit, so it does not wrap; the measure allows for
  a start at the largest word too.\<close>

termination
proof (relation "measure (\<lambda>(env, cfg, p, r, attempt, s, w).
    if attempt < gc_max_attempts cfg then unat (gc_max_attempts cfg) - unat attempt else 2 ^ 33)",
    simp, goal_cases)
  case (1 env cfg p r attempt s w s1 y w1 z err s2)
  let ?max = "gc_max_attempts cfg"
  from 1 have lt: "attempt + 1 < ?max" by (simp add: not_le)
  have "unat ?max < 2 ^ 32" using unsigned_less [of ?max, where 'a = nat] by simp
  moreover from this have "unat (attempt + 1) = unat attempt + 1" if "attempt < ?max"
    using that by (simp add: unat_word_ariths(1) word_less_nat_alt)
  ultimately show ?case using lt by (auto simp: word_less_nat_alt)
qed

declare call_with_retries.simps [simp del]

fun try_candidates ::
  "'w environment \<Rightarrow> GatewayConfig \<Rightarrow> CompletionRequest \<Rightarrow> nat \<Rightarrow> ('w, 't) ModelProvider list \<Rightarrow>
   SwarmError option \<Rightarrow> GatewayState \<Rightarrow> 'w \<Rightarrow> GatewayState \<times> 'w \<times> CompletionResponse result" where
  "try_candidates env cfg r index [] last_error s w =
     (s, w, Err (case last_error of
                   Some e \<Rightarrow> e
                 | None \<Rightarrow> Provider ''gateway'' ''no provider was able to serve the request''))"
| "try_candidates env cfg r index (p # ps) last_error s w =
     (case circuit_is_open cfg (env_now env w) (pv_name p) s of
        (s, True) \<Rightarrow>
          try_candidates env cfg r (index + 1) ps (Some (CircuitOpen (pv_name p)))
            (s\<lparr>gs_usage := (gs_usage s)\<lparr>us_circuit_rejections := us_circuit_rejections (gs_usage s) + 1\<rparr>\<rparr>) w
      | (s, False) \<Rightarrow>
          (let s = (if 0 < index
                    then s\<lparr>gs_usage := (gs_usage s)\<lparr>us_fallbacks := us_fallbacks (gs_usage s) + 1\<rparr>\<rparr> else s)
           in case call_with_retries env cfg p r 0 s w of
                (s, w, Inr response) \<Rightarrow> (record_success cfg (pv_name p) response (cache_key r) s, w, Ok response)
              | (s, w, Inl e) \<Rightarrow> try_candidates env cfg r (index + 1) ps (Some e) s w))"

definition cache_hit :: "GatewayConfig \<Rightarrow> CompletionRequest \<Rightarrow> GatewayState \<Rightarrow> CompletionResponse option" where
  "cache_hit cfg r s =
     (if gc_cache_enabled cfg \<and> \<not> cr_bypass_cache r then map_of (gs_cache s) (cache_key r) else None)"

definition over_budget :: "GatewayConfig \<Rightarrow> GatewayState \<Rightarrow> bool" where
  "over_budget cfg s \<longleftrightarrow>
     (case gc_budget_usd cfg of None \<Rightarrow> False | Some budget \<Rightarrow> budget \<le> us_cost_usd (gs_usage s))"

definition gateway_complete ::
  "'w environment \<Rightarrow> ('w, 't) Gateway \<Rightarrow> CompletionRequest \<Rightarrow> GatewayState \<Rightarrow> 'w \<Rightarrow>
   GatewayState \<times> 'w \<times> CompletionResponse result" where
  "gateway_complete env g r s w =
     (if gw_providers g = [] then (s, w, Err (Config ''gateway has no providers''))
      else
        case cache_hit (gw_config g) r s of
          Some hit \<Rightarrow>
            (s\<lparr>gs_usage := (gs_usage s)\<lparr>us_cache_hits := us_cache_hits (gs_usage s) + 1\<rparr>\<rparr>, w,
             Ok (hit\<lparr>rs_cached := True\<rparr>))
        | None \<Rightarrow>
            if over_budget (gw_config g) s then (s, w, Err (BudgetExceeded ''gateway has spent its budget''))
            else
              (let candidates = filter (\<lambda>p. pv_supports_model p (cr_model r)) (gw_providers g) in
               if candidates = [] then (s, w, Err (Config ''no provider serves model''))
               else try_candidates env (gw_config g) r 0 candidates None s w))"

fun stream_from ::
  "'w environment \<Rightarrow> GatewayConfig \<Rightarrow> CompletionRequest \<Rightarrow> ('w, 't) ModelProvider list \<Rightarrow> GatewayState \<Rightarrow> 'w \<Rightarrow>
   GatewayState \<times> 'w \<times> 't result" where
  "stream_from env cfg r [] s w = (s, w, Err (Provider ''gateway'' ''no provider could open a stream''))"
| "stream_from env cfg r (p # ps) s w =
     (case circuit_is_open cfg (env_now env w) (pv_name p) s of
        (s, is_open) \<Rightarrow>
          if is_open \<or> \<not> pv_supports_model p (cr_model r) then stream_from env cfg r ps s w
          else
            case pv_stream p r w of
              (w, Inr stream) \<Rightarrow> (s, w, Ok stream)
            | (w, Inl e) \<Rightarrow>
                stream_from env cfg r ps (record_failure cfg (env_now env w) (pv_name p) s) w)"

definition gateway_stream ::
  "'w environment \<Rightarrow> ('w, 't) Gateway \<Rightarrow> CompletionRequest \<Rightarrow> GatewayState \<Rightarrow> 'w \<Rightarrow> GatewayState \<times> 'w \<times> 't result" where
  "gateway_stream env g r s w = stream_from env (gw_config g) r (gw_providers g) s w"

fun health_of ::
  "'w environment \<Rightarrow> GatewayConfig \<Rightarrow> ('w, 't) ModelProvider list \<Rightarrow> ProviderHealth list \<Rightarrow> GatewayState \<Rightarrow> 'w \<Rightarrow>
   GatewayState \<times> 'w \<times> ProviderHealth list" where
  "health_of env cfg [] report s w = (s, w, report)"
| "health_of env cfg (p # ps) report s w =
     (case circuit_is_open cfg (env_now env w) (pv_name p) s of
        (s, circuit_open) \<Rightarrow>
          (case pv_health_check p w of
             (w, res) \<Rightarrow>
               (let health = (case res of
                      Inr h \<Rightarrow> h
                    | Inl _ \<Rightarrow> \<lparr>ph_provider = pv_name p, ph_healthy = False, ph_latency_ms = 0,
                        ph_circuit_open = circuit_open, ph_detail = Some ''health check failed''\<rparr>)
                in health_of env cfg ps (report @ [health\<lparr>ph_circuit_open := circuit_open\<rparr>]) s w)))"

definition gateway_health ::
  "'w environment \<Rightarrow> ('w, 't) Gateway \<Rightarrow> GatewayState \<Rightarrow> 'w \<Rightarrow> GatewayState \<times> 'w \<times> ProviderHealth list" where
  "gateway_health env g s w = health_of env (gw_config g) (gw_providers g) [] s w"

end
