(* ===== verification/GatewayProperties.thy ===== *)
theory GatewayProperties
  imports Gateway
begin

text \<open>
  Properties of the gateway: how often a request can reach providers, when it reaches none, when a
  breaker opens, what the cache holds and returns.
\<close>

section \<open>Induction along the retries of a call\<close>

lemma retry_induct [consumes 1, case_names answered gave_up again]:
  assumes "call_with_retries env cfg p r attempt s w = (s', w', res)"
    and "\<And>attempt s w w' response. pv_complete p r w = (w', Inr response) \<Longrightarrow>
      P attempt s w (count_request s) w' (Inr response)"
    and "\<And>attempt s w w' err. pv_complete p r w = (w', Inl err) \<Longrightarrow>
      gc_max_attempts cfg \<le> attempt + 1 \<or> \<not> is_retryable err \<Longrightarrow>
      P attempt s w (record_failure cfg (env_now env w') (pv_name p) (count_request s)) w' (Inl err)"
    and "\<And>attempt s w w1 err s' w' res. pv_complete p r w = (w1, Inl err) \<Longrightarrow>
      attempt + 1 < gc_max_attempts cfg \<Longrightarrow> is_retryable err \<Longrightarrow>
      P (attempt + 1) (record_failure cfg (env_now env w1) (pv_name p) (count_request s))
        (env_sleep env (retry_backoff cfg (attempt + 1)) w1) s' w' res \<Longrightarrow>
      P attempt s w s' w' res"
  shows "P attempt s w s' w' res"
  using assms
proof (induction env cfg p r attempt s w rule: call_with_retries.induct)
  case (1 env cfg p r attempt s w)
  obtain w1 res1 where pc: "pv_complete p r w = (w1, res1)" by fastforce
  then have co: "call_once p r s w = (count_request s, w1, res1)" by (simp add: call_once_def)
  note eq = 1(2) [unfolded call_with_retries.simps [of env cfg p r attempt s w] co]
  show ?case
  proof (cases res1)
    case (Inr response)
    then show ?thesis using eq 1(3) pc by auto
  next
    case (Inl err)
    let ?s2 = "record_failure cfg (env_now env w1) (pv_name p) (count_request s)"
    show ?thesis
    proof (cases "gc_max_attempts cfg \<le> attempt + 1 \<or> \<not> is_retryable err")
      case True
      then show ?thesis using eq Inl 1(4) [OF pc [unfolded Inl] True] by (auto simp: Let_def)
    next
      case False
      with eq Inl have rec: "call_with_retries env cfg p r (attempt + 1) ?s2
          (env_sleep env (retry_backoff cfg (attempt + 1)) w1) = (s', w', res)" by (simp add: Let_def)
      have "P (attempt + 1) ?s2 (env_sleep env (retry_backoff cfg (attempt + 1)) w1) s' w' res"
        by (rule 1(1) [OF co [symmetric] refl Inl refl False rec], fact 1(3), fact 1(4), fact 1(5))
      then show ?thesis using 1(5) pc Inl False by (simp add: not_le)
    qed
  qed
qed

lemma state_frame [simp]:
  "gs_cache (record_failure cfg now p s) = gs_cache s"
  "gs_cache_order (record_failure cfg now p s) = gs_cache_order s"
  "gs_cache (count_request s) = gs_cache s" "gs_cache_order (count_request s) = gs_cache_order s"
  "gs_breakers (count_request s) = gs_breakers s"
  by (simp_all add: record_failure_def count_request_def Let_def split: option.split)

lemma circuit_frame:
  assumes "circuit_is_open cfg now p s = (s', b)"
  shows "gs_cache s' = gs_cache s" "gs_cache_order s' = gs_cache_order s" "gs_usage s' = gs_usage s"
  using assms by (auto simp: circuit_is_open_def split: option.splits if_splits)

lemma retries_frame:
  assumes "call_with_retries env cfg p r attempt s w = (s', w', res)"
  shows "gs_cache s' = gs_cache s \<and> gs_cache_order s' = gs_cache_order s"
  using assms by (induction rule: retry_induct) simp_all

lemma retries_answer:
  assumes "call_with_retries env cfg p r attempt s w = (s', w', res)"
  shows "\<exists>w1. snd (pv_complete p r w1) = res"
  using assms by (induction rule: retry_induct) (metis snd_conv, metis snd_conv, blast)

section \<open>Providers are called a bounded number of times\<close>

text \<open>\<open>calls\<close> counts calls in the world: a call adds at most one, sleeping none.\<close>

definition counts_calls :: "('w \<Rightarrow> nat) \<Rightarrow> 'w environment \<Rightarrow> ('w, 't) ModelProvider list \<Rightarrow> bool" where
  "counts_calls calls env ps \<longleftrightarrow>
     (\<forall>p \<in> set ps. \<forall>r w. calls (fst (pv_complete p r w)) \<le> calls w + 1) \<and>
     (\<forall>n w. calls (env_sleep env n w) = calls w)"

definition attempts_per_provider :: "GatewayConfig \<Rightarrow> nat" where
  "attempts_per_provider cfg = max 1 (unat (gc_max_attempts cfg))"

lemma calls_once: "counts_calls calls env [p] \<Longrightarrow> pv_complete p r w = (w1, res) \<Longrightarrow> calls w1 \<le> calls w + 1"
  unfolding counts_calls_def by (metis fst_conv list.set_intros(1))

lemma retries_bounded:
  assumes "call_with_retries env cfg p r attempt s w = (s', w', res)" "counts_calls calls env [p]"
  shows "attempt = 0 \<or> attempt < gc_max_attempts cfg \<Longrightarrow>
    calls w' + unat attempt \<le> calls w + attempts_per_provider cfg"
  using assms(1)
proof (induction rule: retry_induct)
  case (again attempt s w w1 err s' w' res)
  have "unat (gc_max_attempts cfg) < 2 ^ 32" using unsigned_less [of "gc_max_attempts cfg", where 'a = nat] by simp
  then have "unat (attempt + 1) = unat attempt + 1"
    using again.prems by (auto simp: unat_word_ariths(1) word_less_nat_alt)
  moreover have "calls w1 \<le> calls w + 1"
    by (rule calls_once [OF assms(2) again.hyps(1)])
  moreover have "calls w' + unat (attempt + 1) \<le> calls w1 + attempts_per_provider cfg"
    using again.IH again.hyps(2) assms(2) by (simp add: counts_calls_def)
  ultimately show ?case by linarith
next
  case (answered attempt s w w' response)
  then have "calls w' \<le> calls w + 1" using calls_once [OF assms(2)] by blast
  then show ?case using answered.prems by (auto simp: attempts_per_provider_def word_less_nat_alt)
next
  case (gave_up attempt s w w' err)
  then have "calls w' \<le> calls w + 1" using calls_once [OF assms(2)] by blast
  then show ?case using gave_up.prems by (auto simp: attempts_per_provider_def word_less_nat_alt)
qed

lemma counts_calls_Cons:
  "counts_calls calls env (p # ps) \<longleftrightarrow> counts_calls calls env [p] \<and> counts_calls calls env ps"
  by (auto simp: counts_calls_def)

lemma candidates_bounded:
  "try_candidates env cfg r index ps last_error s w = (s', w', res) \<Longrightarrow> counts_calls calls env ps \<Longrightarrow>
   calls w' \<le> calls w + length ps * attempts_per_provider cfg"
proof (induction ps arbitrary: index last_error s w)
  case (Cons p ps)
  obtain s1 b where ci: "circuit_is_open cfg (env_now env w) (pv_name p) s = (s1, b)" by fastforce
  note cc = Cons.prems(2) [unfolded counts_calls_Cons [of _ _ p ps]]
  show ?case
  proof (cases b)
    case True
    then show ?thesis using Cons.prems(1) ci Cons.IH cc by (fastforce simp: trans_le_add2)
  next
    case False
    define s2 where "s2 = (if 0 < index
      then s1\<lparr>gs_usage := (gs_usage s1)\<lparr>us_fallbacks := us_fallbacks (gs_usage s1) + 1\<rparr>\<rparr> else s1)"
    obtain s3 w3 res3 where cr: "call_with_retries env cfg p r 0 s2 w = (s3, w3, res3)" by (metis prod_cases3)
    have w3: "calls w3 \<le> calls w + attempts_per_provider cfg"
      using retries_bounded [OF cr, of calls] cc by simp
    show ?thesis
    proof (cases res3)
      case (Inr response)
      then show ?thesis using Cons.prems(1) ci False cr w3 by (simp add: s2_def Let_def)
    next
      case (Inl e)
      then have "try_candidates env cfg r (index + 1) ps (Some e) s3 w3 = (s', w', res)"
        using Cons.prems(1) ci False cr by (simp add: s2_def Let_def)
      from Cons.IH [OF this] cc w3 show ?thesis by simp
    qed
  qed
qed simp

text \<open>A world for the closed examples: the number of calls made so far; the clock stands still.\<close>

definition demo_env :: "nat environment" where
  "demo_env = \<lparr>env_now = (\<lambda>_. 0), env_sleep = (\<lambda>_ w. w)\<rparr>"

definition demo_response :: CompletionResponse where
  "demo_response = \<lparr>rs_text = ''hi'', rs_provider = ''p'', rs_model = ''m'', rs_tokens_in = 1, rs_tokens_out = 1,
     rs_cost_usd = 1, rs_latency_ms = 0, rs_cached = False, rs_finish_reason = ''stop''\<rparr>"

definition demo_provider :: "bool \<Rightarrow> (nat, unit) ModelProvider" where
  "demo_provider up = \<lparr>pv_name = ''p'',
     pv_complete = (\<lambda>r w. (w + 1, if up then Inr demo_response else Inl (Timeout 9))),
     pv_stream = (\<lambda>r w. (w, Inr ())), pv_health_check = (\<lambda>w. (w, Inl (Timeout 9))),
     pv_supports_model = (\<lambda>_. True)\<rparr>"

definition demo_request :: CompletionRequest where
  "demo_request = new_completion_request ''m'' [user_message ''hello'']"

definition demo_gateway :: "bool \<Rightarrow> (nat, unit) Gateway \<times> GatewayState" where
  "demo_gateway up = with_provider (demo_provider up)"

lemmas demo_gateway_simps = demo_gateway_def with_provider_def and_provider_def new_gateway_def
  default_gateway_config_def demo_provider_def demo_env_def default_usage_def new_breaker_def



section \<open>Requests that reach no provider\<close>

definition is_tripped :: "GatewayConfig \<Rightarrow> Nanos \<Rightarrow> GatewayState \<Rightarrow> string \<Rightarrow> bool" where
  "is_tripped cfg now s name \<longleftrightarrow>
     (\<exists>b since. map_of (gs_breakers s) name = Some b \<and> br_opened_at b = Some since \<and>
        max (now - since) 0 < ms (int (unat (gc_circuit_reset_ms cfg))))"

lemma circuit_is_open_iff: "snd (circuit_is_open cfg now p s) \<longleftrightarrow> is_tripped cfg now s p"
  by (auto simp: circuit_is_open_def is_tripped_def split: option.split)

lemma circuit_open_keeps: "is_tripped cfg now s p \<Longrightarrow> circuit_is_open cfg now p s = (s, True)"
  by (auto simp: circuit_is_open_def is_tripped_def)

lemma all_tripped:
  "\<forall>p \<in> set ps. is_tripped cfg (env_now env w) s (pv_name p) \<Longrightarrow> ps \<noteq> [] \<Longrightarrow>
   \<exists>s'. try_candidates env cfg r index ps last_error s w = (s', w, Err (CircuitOpen (pv_name (last ps)))) \<and>
     gs_breakers s' = gs_breakers s"
proof (induction ps arbitrary: index last_error s)
  case (Cons p ps)
  let ?s = "s\<lparr>gs_usage := (gs_usage s)\<lparr>us_circuit_rejections := us_circuit_rejections (gs_usage s) + 1\<rparr>\<rparr>"
  have p: "circuit_is_open cfg (env_now env w) (pv_name p) s = (s, True)"
    using Cons.prems(1) by (simp add: circuit_open_keeps)
  have "is_tripped cfg (env_now env w) ?s = is_tripped cfg (env_now env w) s"
    by (simp add: is_tripped_def fun_eq_iff)
  then show ?case using p Cons.prems(1) Cons.IH [of ?s "index + 1" "Some (CircuitOpen (pv_name p))"]
    by (cases "ps = []") auto
qed simp

text \<open>C30: three kinds of request never reach a provider and cost nothing: one whose answer is cached (it
  gets that answer, marked as cached), one made when the budget is spent, and one whose providers all
  have an open breaker; the latter two are refused with the corresponding error.\<close>

theorem refused_without_call:
  assumes "gw_providers g \<noteq> []" "gateway_complete env g r s w = (s', w', res)"
    "candidates = filter (\<lambda>p. pv_supports_model p (cr_model r)) (gw_providers g)"
  shows "(\<forall>hit. cache_hit (gw_config g) r s = Some hit \<longrightarrow> w' = w \<and> res = Ok (hit\<lparr>rs_cached := True\<rparr>)) \<and>
    (cache_hit (gw_config g) r s = None \<and> over_budget (gw_config g) s \<longrightarrow>
       w' = w \<and> s' = s \<and> (\<exists>m. res = Err (BudgetExceeded m))) \<and>
    (cache_hit (gw_config g) r s = None \<and> \<not> over_budget (gw_config g) s \<and> candidates \<noteq> [] \<and>
     (\<forall>p \<in> set candidates. is_tripped (gw_config g) (env_now env w) s (pv_name p)) \<longrightarrow>
       w' = w \<and> res = Err (CircuitOpen (pv_name (last candidates))))"
proof -
  have "w' = w \<and> res = Err (CircuitOpen (pv_name (last candidates)))"
    if "cache_hit (gw_config g) r s = None" "\<not> over_budget (gw_config g) s" "candidates \<noteq> []"
      "\<forall>p \<in> set candidates. is_tripped (gw_config g) (env_now env w) s (pv_name p)"
    using all_tripped [OF that(4,3), of r 0 None] assms that by (auto simp: gateway_complete_def)
  then show ?thesis using assms(1,2) by (auto simp: gateway_complete_def split: if_splits option.splits)
qed

definition tripped_state :: GatewayState where
  "tripped_state = (snd (demo_gateway True))\<lparr>gs_breakers := [(''p'', \<lparr>br_consecutive_failures = 5, br_opened_at = Some 0\<rparr>)]\<rparr>"

theorem refused_without_call_witness:
  "snd (snd (gateway_complete demo_env (fst (demo_gateway True)) demo_request tripped_state 0)) = Err (CircuitOpen ''p'')"
proof -
  obtain s' w' res where eq: "gateway_complete demo_env (fst (demo_gateway True)) demo_request
    tripped_state 0 = (s', w', res)" by (metis prod_cases3)
  have ne: "gw_providers (fst (demo_gateway True)) \<noteq> []" by (simp add: demo_gateway_simps)
  have "is_tripped (gw_config (fst (demo_gateway True))) 0 tripped_state ''p''"
    by (simp add: is_tripped_def tripped_state_def demo_gateway_simps ms_def)
  with refused_without_call [OF ne eq refl] eq show ?thesis
    by (simp add: cache_hit_def over_budget_def tripped_state_def demo_gateway_simps)
qed

section \<open>When a breaker opens\<close>

lemma record_failure_breaker:
  "map_of (gs_breakers s) p = Some b \<Longrightarrow>
   map_of (gs_breakers (record_failure cfg now p s)) p =
     Some \<lparr>br_consecutive_failures = br_consecutive_failures b + 1,
        br_opened_at = (if br_opened_at b = None \<and> gc_circuit_failure_threshold cfg \<le> br_consecutive_failures b + 1
                        then Some now else br_opened_at b)\<rparr>"
  by (cases b) (auto simp: record_failure_def Let_def)

lemma failures_breaker:
  assumes "length ts < 2 ^ 32" "1 \<le> gc_circuit_failure_threshold cfg"
    "map_of (gs_breakers s) p = Some \<lparr>br_consecutive_failures = 0, br_opened_at = None\<rparr>"
  shows "map_of (gs_breakers (fold (\<lambda>now. record_failure cfg now p) ts s)) p =
    Some \<lparr>br_consecutive_failures = of_nat (length ts),
       br_opened_at = (if unat (gc_circuit_failure_threshold cfg) \<le> length ts
                       then Some (ts ! (unat (gc_circuit_failure_threshold cfg) - 1)) else None)\<rparr>"
  using assms(1)
proof (induction ts rule: rev_induct)
  case Nil
  then show ?case using assms(2,3) by (auto simp: word_le_nat_alt)
next
  case (snoc t ts)
  have le: "gc_circuit_failure_threshold cfg \<le> of_nat (Suc (length ts)) \<longleftrightarrow>
      unat (gc_circuit_failure_threshold cfg) \<le> Suc (length ts)"
    using snoc.prems by (simp add: word_le_nat_alt unat_of_nat del: of_nat_Suc)
  have "1 \<le> unat (gc_circuit_failure_threshold cfg)" using assms(2) by (simp add: word_le_nat_alt)
  then show ?case using snoc record_failure_breaker le by (auto simp: nth_append add.commute le_Suc_eq)
qed

text \<open>A breaker opens exactly at the configured number of consecutive failures. From a closed
  breaker, after fewer failures than the threshold calls still pass; from the failure that reaches it
  on, calls are refused for \<open>circuit_reset_ms\<close> counted from that failure, whatever fails meanwhile.\<close>

theorem breaker_opens_at_threshold:
  assumes "length ts < 2 ^ 32" "1 \<le> gc_circuit_failure_threshold cfg" "threshold = unat (gc_circuit_failure_threshold cfg)"
    "map_of (gs_breakers s) p = Some new_breaker" "s' = fold (\<lambda>now. record_failure cfg now p) ts s"
  shows "snd (circuit_is_open cfg now p s') \<longleftrightarrow>
    threshold \<le> length ts \<and> max (now - ts ! (threshold - 1)) 0 < ms (int (unat (gc_circuit_reset_ms cfg)))"
  using failures_breaker [OF assms(1,2) assms(4) [unfolded new_breaker_def]] assms(3,5)
  by (simp add: circuit_is_open_iff is_tripped_def)

theorem breaker_opens_at_threshold_witness:
  "snd (circuit_is_open default_gateway_config 7 ''p''
     (fold (\<lambda>now. record_failure default_gateway_config now ''p'') [1, 2, 3, 4, 5, 6] (snd (demo_gateway True))))"
proof -
  have "map_of (gs_breakers (snd (demo_gateway True))) ''p'' = Some new_breaker"
    by (simp add: demo_gateway_simps)
  from breaker_opens_at_threshold [OF _ _ refl this refl, of "[1, 2, 3, 4, 5, 6]" default_gateway_config 7]
  show ?thesis by (simp add: default_gateway_config_def ms_def)
qed

text \<open>
  When the reset time is over, the first query closes the breaker for good: the failure count restarts
  at zero, so not one but every following call passes until the threshold is reached again.
\<close>

lemma elapsed_breaker_closes:
  assumes "map_of (gs_breakers s) p = Some b" "br_opened_at b = Some since"
    "ms (int (unat (gc_circuit_reset_ms cfg))) \<le> now - since"
  shows "\<exists>s'. circuit_is_open cfg now p s = (s', False) \<and>
    map_of (gs_breakers s') p = Some (b\<lparr>br_opened_at := None, br_consecutive_failures := 0\<rparr>) \<and>
    circuit_is_open cfg later p s' = (s', False)"
  using assms by (auto simp: circuit_is_open_def)

section \<open>The response cache\<close>

lemma evict_order: "fst (evict c order cache) = drop (length order - c) order"
  by (induction c order cache rule: evict.induct) (auto simp: Suc_diff_le)

lemma evict_lookup:
  "map_of (snd (evict c order cache)) k =
     (if k \<in> set (take (length order - c) order) then None else map_of cache k)"
  by (induction c order cache rule: evict.induct) (auto simp: Suc_diff_le)

lemma evict_distinct: "keys_distinct cache \<Longrightarrow> keys_distinct (snd (evict c order cache))"
  by (induction c order cache rule: evict.induct) (auto simp: hm_delete_distinct)

definition cache_inv :: "GatewayConfig \<Rightarrow> GatewayState \<Rightarrow> bool" where
  "cache_inv cfg s \<longleftrightarrow>
     keys_distinct (gs_cache s) \<and> dom (map_of (gs_cache s)) \<subseteq> set (gs_cache_order s) \<and>
     length (gs_cache_order s) \<le> gc_cache_capacity cfg"

lemma cache_inv_cong:
  "gs_cache s' = gs_cache s \<Longrightarrow> gs_cache_order s' = gs_cache_order s \<Longrightarrow> cache_inv cfg s' = cache_inv cfg s"
  by (simp add: cache_inv_def)

text \<open>What a success does to the cache: the response is stored last, the oldest entries go.\<close>

lemma record_success_cache:
  assumes "gc_cache_enabled cfg" "s' = record_success cfg p response k s"
    "n = length (gs_cache_order s) + 1 - gc_cache_capacity cfg"
  shows "gs_cache_order s' = drop n (gs_cache_order s @ [k])"
    "map_of (gs_cache s') = (\<lambda>q. if q \<in> set (take n (gs_cache_order s @ [k])) then None
       else ((map_of (gs_cache s))(k \<mapsto> response)) q)"
    "keys_distinct (gs_cache s) \<Longrightarrow> keys_distinct (gs_cache s')"
proof -
  let ?e = "evict (gc_cache_capacity cfg) (gs_cache_order s @ [k]) (AList.update k response (gs_cache s))"
  have e: "gs_cache_order s' = fst ?e" "gs_cache s' = snd ?e"
    using assms(1,2) by (auto simp: record_success_def Let_def case_prod_unfold split: option.splits)
  show "gs_cache_order s' = drop n (gs_cache_order s @ [k])"
    using assms(3) by (simp add: e evict_order)
  show "map_of (gs_cache s') = (\<lambda>q. if q \<in> set (take n (gs_cache_order s @ [k])) then None
       else ((map_of (gs_cache s))(k \<mapsto> response)) q)"
    unfolding e using evict_lookup [of "gc_cache_capacity cfg" "gs_cache_order s @ [k]"] assms(3)
    by (simp add: fun_eq_iff)
  show "keys_distinct (gs_cache s) \<Longrightarrow> keys_distinct (gs_cache s')"
    unfolding e by (intro evict_distinct hm_update_distinct)
qed

lemma record_success_off:
  "\<not> gc_cache_enabled cfg \<Longrightarrow> gs_cache (record_success cfg p response k s) = gs_cache s \<and>
     gs_cache_order (record_success cfg p response k s) = gs_cache_order s"
  by (simp add: record_success_def Let_def split: option.split)

lemma record_success_inv:
  assumes "cache_inv cfg s"
  shows "cache_inv cfg (record_success cfg p response k s)"
proof (cases "gc_cache_enabled cfg")
  case True
  let ?o = "gs_cache_order s @ [k]" and ?n = "length (gs_cache_order s) + 1 - gc_cache_capacity cfg"
  note rs = record_success_cache [where s = s and p = p and response = response and k = k, OF True refl refl]
  have "set ?o = set (take ?n ?o) \<union> set (drop ?n ?o)" by (metis append_take_drop_id set_append)
  moreover have "dom (map_of (gs_cache s)) \<subseteq> set ?o" "k \<in> set ?o" using assms by (auto simp: cache_inv_def)
  moreover have "dom (map_of (gs_cache (record_success cfg p response k s))) \<subseteq>
      insert k (dom (map_of (gs_cache s))) - set (take ?n ?o)"
    unfolding rs(2) by (rule subsetI) (simp add: dom_def split: if_splits)
  ultimately have "dom (map_of (gs_cache (record_success cfg p response k s))) \<subseteq> set (drop ?n ?o)" by blast
  moreover have "length (drop ?n ?o) \<le> gc_cache_capacity cfg" by simp
  moreover have "keys_distinct (gs_cache s)" using assms by (simp add: cache_inv_def)
  ultimately show ?thesis unfolding cache_inv_def rs(1) using rs(3) by blast
qed (use assms record_success_off cache_inv_cong in metis)

lemma candidates_inv:
  "try_candidates env cfg r index ps last_error s w = (s', w', res) \<Longrightarrow> cache_inv cfg s \<Longrightarrow> cache_inv cfg s'"
proof (induction ps arbitrary: index last_error s w)
  case (Cons p ps)
  obtain s1 b where ci: "circuit_is_open cfg (env_now env w) (pv_name p) s = (s1, b)" by fastforce
  have s1: "cache_inv cfg s1" using Cons.prems(2) circuit_frame [OF ci] cache_inv_cong by metis
  show ?case
  proof (cases b)
    case True
    with Cons.prems(1) ci have "try_candidates env cfg r (index + 1) ps (Some (CircuitOpen (pv_name p)))
        (s1\<lparr>gs_usage := (gs_usage s1)\<lparr>us_circuit_rejections := us_circuit_rejections (gs_usage s1) + 1\<rparr>\<rparr>) w = (s', w', res)"
      by simp
    from Cons.IH [OF this] s1 show ?thesis by (simp add: cache_inv_def)
  next
    case False
    define s2 where "s2 = (if 0 < index
      then s1\<lparr>gs_usage := (gs_usage s1)\<lparr>us_fallbacks := us_fallbacks (gs_usage s1) + 1\<rparr>\<rparr> else s1)"
    obtain s3 w3 res3 where cr: "call_with_retries env cfg p r 0 s2 w = (s3, w3, res3)" by (metis prod_cases3)
    have s3: "cache_inv cfg s3" using retries_frame [OF cr] s1 by (simp add: cache_inv_def s2_def)
    show ?thesis
    proof (cases res3)
      case (Inr response)
      then show ?thesis using Cons.prems(1) ci False cr record_success_inv [OF s3] by (auto simp: s2_def Let_def)
    next
      case (Inl e)
      then have "try_candidates env cfg r (index + 1) ps (Some e) s3 w3 = (s', w', res)"
        using Cons.prems(1) ci False cr by (simp add: s2_def Let_def)
      from Cons.IH [OF this s3] show ?thesis .
    qed
  qed
qed simp

lemma complete_inv:
  "gateway_complete env g r s w = (s', w', res) \<Longrightarrow> cache_inv (gw_config g) s \<Longrightarrow> cache_inv (gw_config g) s'"
  using candidates_inv by (fastforce simp: gateway_complete_def Let_def cache_inv_def split: if_splits option.splits)

fun complete_all ::
  "'w environment \<Rightarrow> ('w, 't) Gateway \<Rightarrow> CompletionRequest list \<Rightarrow> GatewayState \<Rightarrow> 'w \<Rightarrow> GatewayState \<times> 'w" where
  "complete_all env g [] s w = (s, w)"
| "complete_all env g (r # rs) s w = (case gateway_complete env g r s w of (s, w, _) \<Rightarrow> complete_all env g rs s w)"

lemma complete_all_inv: "cache_inv (gw_config g) s \<Longrightarrow> cache_inv (gw_config g) (fst (complete_all env g rs s w))"
proof (induction rs arbitrary: s w)
  case (Cons r rs)
  obtain s1 w1 res where eq: "gateway_complete env g r s w = (s1, w1, res)" by (metis prod_cases3)
  show ?case using Cons.IH [OF complete_inv [OF eq Cons.prems]] eq by simp
qed simp

text \<open>The cache never outgrows its capacity. After any sequence of requests to a new gateway, with
  any mixture of successes, failures and cache bypasses, it holds at most \<open>cache_capacity\<close>
  responses.\<close>

theorem cache_within_capacity:
  assumes "gw_config g = config" "gs_cache s = []" "gs_cache_order s = []"
    "complete_all env g rs s w = (s', w')"
  shows "length (gs_cache s') \<le> gc_cache_capacity config \<and> length (gs_cache_order s') \<le> gc_cache_capacity config"
proof -
  have "cache_inv config s'"
    using complete_all_inv [of g s env rs w] assms by (simp add: cache_inv_def)
  then have inv: "keys_distinct (gs_cache s')" "dom (map_of (gs_cache s')) \<subseteq> set (gs_cache_order s')"
    "length (gs_cache_order s') \<le> gc_cache_capacity config" by (simp_all add: cache_inv_def)
  have "length (gs_cache s') = card (fst ` set (gs_cache s'))" using distinct_card [OF inv(1)] by simp
  also have "\<dots> \<le> card (set (gs_cache_order s'))"
    using inv(2) by (intro card_mono) (simp_all add: dom_map_of_conv_image_fst)
  finally show ?thesis using inv(3) card_length [of "gs_cache_order s'"] by linarith
qed

theorem cache_within_capacity_witness:
  "length (gs_cache (fst (complete_all demo_env (fst (demo_gateway True)) [demo_request, demo_request]
     (snd (demo_gateway True)) 0))) \<le> 4096"
proof -
  obtain s' w' where "complete_all demo_env (fst (demo_gateway True)) [demo_request, demo_request]
     (snd (demo_gateway True)) 0 = (s', w')" by fastforce
  from cache_within_capacity [OF refl _ _ this] this show ?thesis by (simp add: demo_gateway_simps)
qed

lemma candidates_cached:
  "try_candidates env cfg r index ps last_error s w = (s', w', Inr response) \<Longrightarrow>
   \<exists>p s3. p \<in> set ps \<and> gs_cache s3 = gs_cache s \<and> gs_cache_order s3 = gs_cache_order s \<and>
     s' = record_success cfg (pv_name p) response (cache_key r) s3 \<and>
     (\<exists>w1. snd (pv_complete p r w1) = Inr response)"
proof (induction ps arbitrary: index last_error s w)
  case (Cons p ps)
  obtain s1 b where ci: "circuit_is_open cfg (env_now env w) (pv_name p) s = (s1, b)" by fastforce
  note s1 = circuit_frame [OF ci]
  show ?case
  proof (cases b)
    case True
    with Cons.prems(1) ci have "try_candidates env cfg r (index + 1) ps (Some (CircuitOpen (pv_name p)))
        (s1\<lparr>gs_usage := (gs_usage s1)\<lparr>us_circuit_rejections := us_circuit_rejections (gs_usage s1) + 1\<rparr>\<rparr>) w = (s', w', Inr response)"
      by simp
    from Cons.IH [OF this] s1 show ?thesis by auto
  next
    case False
    define s2 where "s2 = (if 0 < index
      then s1\<lparr>gs_usage := (gs_usage s1)\<lparr>us_fallbacks := us_fallbacks (gs_usage s1) + 1\<rparr>\<rparr> else s1)"
    obtain s3 w3 res3 where cr: "call_with_retries env cfg p r 0 s2 w = (s3, w3, res3)" by (metis prod_cases3)
    have s3: "gs_cache s3 = gs_cache s" "gs_cache_order s3 = gs_cache_order s"
      using retries_frame [OF cr] s1 by (simp_all add: s2_def)
    show ?thesis
    proof (cases res3)
      case (Inr response')
      then have "response' = response" "s' = record_success cfg (pv_name p) response (cache_key r) s3"
        using Cons.prems(1) ci False cr by (auto simp: s2_def Let_def)
      then show ?thesis using s3 retries_answer [OF cr] Inr by auto
    next
      case (Inl e)
      then have "try_candidates env cfg r (index + 1) ps (Some e) s3 w3 = (s', w', Inr response)"
        using Cons.prems(1) ci False cr by (simp add: s2_def Let_def)
      from Cons.IH [OF this] s3 show ?thesis by auto
    qed
  qed
qed simp



section \<open>What the cache key and the eviction order leave out\<close>

text \<open>
  The key does not cover the stop sequences, which change the answer; message boundaries are marked by
  the role byte alone, so a user message containing that byte has the key of two messages; and a
  temperature is hashed like a token limit of the same bits.
\<close>

lemma cache_key_ignores_stop: "cache_key (r\<lparr>cr_stop := stops\<rparr>) = cache_key r"
  by (simp add: cache_key_def)

lemma cache_key_merges_messages:
  "cache_key (new_completion_request m [user_message (a @ role_byte Role.User # b)]) =
   cache_key (new_completion_request m [user_message a, user_message b])"
  by (simp add: cache_key_def new_completion_request_def user_message_def hash_message_def fnv1a_append fnv1a_Cons)

lemma cache_key_confuses_options:
  "cache_key ((new_completion_request m msgs)\<lparr>cr_temperature := Some x\<rparr>) =
   cache_key ((new_completion_request m msgs)\<lparr>cr_max_tokens := Some x\<rparr>)"
  by (simp add: cache_key_def new_completion_request_def)

text \<open>
  Storing a response again (a request that bypassed the cache) leaves its old place in the eviction
  order: when that place comes up, the renewed response is dropped although it is the newest.
\<close>

lemma renewed_response_evicted:
  assumes "gc_cache_enabled cfg" "gc_cache_capacity cfg = 2" "gs_cache_order s = [k, j]"
  shows "map_of (gs_cache (record_success cfg p response k s)) k = None"
  using record_success_cache(2) [where s = s and p = p and response = response and k = k, OF assms(1) refl refl]
  by (simp add: assms(2,3))

end
