(* ===== verification/GatewayLimits.thy ===== *)
theory GatewayLimits
  imports Gateway
begin

text \<open>
  The concurrency limits of the gateway (\<open>call_once\<close> and \<open>model_semaphore\<close> of \<open>gateway.rs\<close>) as a
  step relation of interleaved calls: a call takes the global permit, then the permit of its model if
  the model has a limit (the semaphore is created on first use), talks to the provider, and gives both
  back when it ends; a call abandoned while it waits gives back what it holds. A semaphore is its
  number of free permits.
\<close>

datatype call_phase = HoldsGlobal | InProvider

record LimiterState =
  lm_permits :: nat
  lm_model_permits :: "(string, nat) hashmap"
  lm_calls :: "(string \<times> call_phase) list"

definition new_limiter :: "GatewayConfig \<Rightarrow> LimiterState" where
  "new_limiter cfg = \<lparr>lm_permits = max (gc_max_concurrent cfg) 1, lm_model_permits = [], lm_calls = []\<rparr>"

definition model_semaphore :: "(string, nat) hashmap \<Rightarrow> string \<Rightarrow> LimiterState \<Rightarrow> LimiterState \<times> nat option" where
  "model_semaphore limits model s =
     (case map_of limits model of
        None \<Rightarrow> (s, None)
      | Some limit \<Rightarrow>
          (case map_of (lm_model_permits s) model of
             Some free \<Rightarrow> (s, Some free)
           | None \<Rightarrow> (s\<lparr>lm_model_permits := AList.update model limit (lm_model_permits s)\<rparr>, Some limit)))"

definition release_model :: "(string, nat) hashmap \<Rightarrow> string \<Rightarrow> LimiterState \<Rightarrow> LimiterState" where
  "release_model limits model s =
     (case map_of (lm_model_permits s) model of
        Some free \<Rightarrow> s\<lparr>lm_model_permits := AList.update model (free + 1) (lm_model_permits s)\<rparr>
      | None \<Rightarrow> s)"

inductive call_step :: "(string, nat) hashmap \<Rightarrow> LimiterState \<Rightarrow> LimiterState \<Rightarrow> bool" for limits where
  acquire_global: "0 < lm_permits s \<Longrightarrow>
    call_step limits s (s\<lparr>lm_permits := lm_permits s - 1, lm_calls := lm_calls s @ [(model, HoldsGlobal)]\<rparr>)"
| enter_unlimited: "i < length (lm_calls s) \<Longrightarrow> lm_calls s ! i = (model, HoldsGlobal) \<Longrightarrow>
    model_semaphore limits model s = (s', None) \<Longrightarrow>
    call_step limits s (s'\<lparr>lm_calls := (lm_calls s)[i := (model, InProvider)]\<rparr>)"
| enter_limited: "i < length (lm_calls s) \<Longrightarrow> lm_calls s ! i = (model, HoldsGlobal) \<Longrightarrow>
    model_semaphore limits model s = (s', Some free) \<Longrightarrow> 0 < free \<Longrightarrow>
    call_step limits s (s'\<lparr>lm_model_permits := AList.update model (free - 1) (lm_model_permits s'),
      lm_calls := (lm_calls s)[i := (model, InProvider)]\<rparr>)"
| finish: "i < length (lm_calls s) \<Longrightarrow> lm_calls s ! i = (model, InProvider) \<Longrightarrow>
    call_step limits s ((release_model limits model s)\<lparr>lm_permits := lm_permits s + 1,
      lm_calls := remove_at i (lm_calls s)\<rparr>)"
| abandon: "i < length (lm_calls s) \<Longrightarrow> lm_calls s ! i = (model, HoldsGlobal) \<Longrightarrow>
    call_step limits s (s\<lparr>lm_permits := lm_permits s + 1, lm_calls := remove_at i (lm_calls s)\<rparr>)"

inductive_cases call_stepE: "call_step limits s s'"

definition in_provider :: "string \<Rightarrow> LimiterState \<Rightarrow> nat" where
  "in_provider model s = count (mset (lm_calls s)) (model, InProvider)"

text \<open>Permits are conserved: free ones plus held ones make the limit.\<close>

definition free_of :: "nat \<Rightarrow> string \<Rightarrow> LimiterState \<Rightarrow> nat" where
  "free_of limit model s = (case map_of (lm_model_permits s) model of None \<Rightarrow> limit | Some free \<Rightarrow> free)"

definition limiter_inv :: "(string, nat) hashmap \<Rightarrow> nat \<Rightarrow> LimiterState \<Rightarrow> bool" where
  "limiter_inv limits n s \<longleftrightarrow>
     lm_permits s + length (lm_calls s) = n \<and>
     (\<forall>model limit. map_of limits model = Some limit \<longrightarrow> free_of limit model s + in_provider model s = limit) \<and>
     (\<forall>model. map_of limits model = None \<longrightarrow> map_of (lm_model_permits s) model = None)"

lemma limiter_invD:
  assumes "limiter_inv limits n s"
  shows "lm_permits s + length (lm_calls s) = n"
    "map_of limits model = Some limit \<Longrightarrow> free_of limit model s + in_provider model s = limit"
    "map_of limits model = None \<Longrightarrow> map_of (lm_model_permits s) model = None"
  using assms by (simp_all add: limiter_inv_def)

lemma new_limiter_inv: "limiter_inv limits (max (gc_max_concurrent cfg) 1) (new_limiter cfg)"
  by (simp add: limiter_inv_def new_limiter_def in_provider_def free_of_def)

lemma in_provider_enter:
  "i < length (lm_calls s) \<Longrightarrow> lm_calls s ! i = (model, HoldsGlobal) \<Longrightarrow> lm_calls s' = (lm_calls s)[i := (model, InProvider)] \<Longrightarrow>
   in_provider m s' = in_provider m s + (if m = model then 1 else 0)"
  by (simp add: in_provider_def mset_update)

lemma in_provider_leave:
  assumes "i < length (lm_calls s)" "lm_calls s ! i = (model, ph)" "lm_calls s' = remove_at i (lm_calls s)"
  shows "in_provider m s' + (if m = model \<and> ph = InProvider then 1 else 0) = in_provider m s"
proof -
  have "mset (lm_calls s) = add_mset (model, ph) (mset (lm_calls s'))"
    using mset_remove_at [OF assms(1)] assms(2,3) by simp
  then show ?thesis by (auto simp: in_provider_def)
qed

lemma call_step_inv:
  assumes "call_step limits s s'" "limiter_inv limits n s"
  shows "limiter_inv limits n s'"
  using assms(1)
proof (cases rule: call_step.cases)
  case (acquire_global model)
  then have "in_provider m s' = in_provider m s" "free_of l m s' = free_of l m s" for m l
    by (simp_all add: in_provider_def free_of_def)
  then show ?thesis using assms(2) acquire_global by (simp add: limiter_inv_def)
next
  case (enter_unlimited i model s1)
  then have "s1 = s" "map_of limits model = None"
    by (auto simp: model_semaphore_def split: option.splits)
  moreover from this have "free_of l m s' = free_of l m s" for m l using enter_unlimited by (simp add: free_of_def)
  moreover note in_provider_enter [of i s model s']
  ultimately show ?thesis using enter_unlimited assms(2) by (auto simp: limiter_inv_def)
next
  case (enter_limited i model s1 free)
  then obtain limit where l: "map_of limits model = Some limit" by (auto simp: model_semaphore_def split: option.splits)
  have free: "free = free_of limit model s" and s1: "lm_permits s1 = lm_permits s"
    "map_of (lm_model_permits s1) = (map_of (lm_model_permits s))(model \<mapsto> free)"
    using enter_limited(4) l by (auto simp: model_semaphore_def free_of_def split: option.splits)
  have "free_of l m s' = (if m = model then free - 1 else free_of l m s)" for m l
    using enter_limited(1) s1 by (simp add: free_of_def)
  moreover have "in_provider m s' = in_provider m s + (if m = model then 1 else 0)" for m
    using in_provider_enter [of i s model s'] enter_limited by simp
  moreover have "map_of (lm_model_permits s') = (map_of (lm_model_permits s))(model \<mapsto> free - 1)"
    using enter_limited(1) s1 by simp
  moreover have "free - 1 + (in_provider model s + 1) = limit"
    using limiter_invD(2) [OF assms(2) l] free enter_limited(5) by simp
  moreover have "lm_permits s' + length (lm_calls s') = n"
    using enter_limited(1) s1(1) limiter_invD(1) [OF assms(2)] by simp
  ultimately show ?thesis unfolding limiter_inv_def
    using l limiter_invD(2,3) [OF assms(2)] by simp
next
  case (finish i model)
  have ip: "in_provider m s' + (if m = model then 1 else 0) = in_provider m s" for m
    using in_provider_leave [of i s model InProvider s' m] finish by simp
  have mp: "map_of (lm_model_permits s') m = (if m = model then map_option Suc (map_of (lm_model_permits s) m)
      else map_of (lm_model_permits s) m)" for m
    using finish(1) by (simp add: release_model_def split: option.split)
  have "free_of l m s' + in_provider m s' = l" if lim: "map_of limits m = Some l" for m l
  proof (cases "m = model")
    case True
    have old: "free_of l m s + in_provider m s = l" by (rule limiter_invD(2) [OF assms(2) lim])
    then obtain free where "map_of (lm_model_permits s) m = Some free"
      using ip [of m] True by (cases "map_of (lm_model_permits s) m") (auto simp: free_of_def)
    then show ?thesis using old ip [of m] mp [of m] True by (simp add: free_of_def)
  next
    case False
    then show ?thesis using limiter_invD(2) [OF assms(2) lim] ip [of m] mp [of m] by (simp add: free_of_def)
  qed
  moreover have "map_of (lm_model_permits s') m = None" if "map_of limits m = None" for m
    using limiter_invD(3) [OF assms(2) that] unfolding mp [of m] by (cases "m = model") simp_all
  moreover have "lm_permits s' + length (lm_calls s') = n"
    using finish(1,2) limiter_invD(1) [OF assms(2)] by simp
  ultimately show ?thesis unfolding limiter_inv_def by simp
next
  case (abandon i model)
  have "in_provider m s' = in_provider m s" for m
    using in_provider_leave [of i s model HoldsGlobal s' m] abandon by simp
  moreover have "free_of l m s' = free_of l m s" for m l using abandon by (simp add: free_of_def)
  ultimately show ?thesis using abandon assms(2) by (auto simp: limiter_inv_def)
qed

lemma reachable_inv: "(call_step limits)\<^sup>*\<^sup>* s s' \<Longrightarrow> limiter_inv limits n s \<Longrightarrow> limiter_inv limits n s'"
  by (induction rule: rtranclp_induct) (simp_all add: call_step_inv)



end
