(* ===== verification/AgentRuntime.thy ===== *)
theory AgentRuntime
  imports TaskModel SharedMemory Gateway
begin

text \<open>
  Execution of one task by one agent (\<open>crates/agent-runtime/src/lib.rs\<close>). \<open>Agent::execute\<close> is a
  sequence of awaited calls to the shared memory and the gateway, between which other agents run; it
  is modelled as a machine with one step per awaited call (\<open>exec_step\<close>), and \<open>execute\<close> runs the
  machine to its end.

  \<open>serde_json\<close> is the record \<open>json_ops\<close> of the functions used; Unicode lower-casing, the display of
  uuids, the bits of an \<open>f32\<close>, the clock and the generator of record ids are fields of \<open>Runtime\<close>.
\<close>

record 'v json_ops =
  js_from_str :: "string \<Rightarrow> string + 'v"
  js_get :: "'v \<Rightarrow> string \<Rightarrow> 'v option"
  js_as_str :: "'v \<Rightarrow> string option"
  js_as_array :: "'v \<Rightarrow> 'v list option"
  js_as_f64 :: "'v \<Rightarrow> real option"
  js_object_keys :: "'v \<Rightarrow> string list option"
  js_object :: "(string \<times> 'v) list \<Rightarrow> 'v"
  js_string :: "string \<Rightarrow> 'v"
  js_number :: "nat \<Rightarrow> 'v"
  js_bool :: "bool \<Rightarrow> 'v"
  js_time :: "DateTime \<Rightarrow> 'v"
  js_of_result :: "'v TaskResult \<Rightarrow> string + 'v"
  js_to_result :: "'v \<Rightarrow> string + 'v TaskResult"
  js_of_checkpoint :: "'v Checkpoint \<Rightarrow> string + 'v"
  js_to_checkpoint :: "'v \<Rightarrow> string + 'v Checkpoint"

section \<open>Prompts\<close>

record UpstreamOutput =
  uo_task_id :: TaskId
  uo_title :: string
  uo_output :: string

record TaskContext =
  tc_objective :: string
  tc_context :: "string option"
  tc_upstream :: "UpstreamOutput list"
  tc_allowed_tools :: "string list"

definition new_context :: "string \<Rightarrow> TaskContext" where
  "new_context objective = \<lparr>tc_objective = objective, tc_context = None, tc_upstream = [], tc_allowed_tools = []\<rparr>"

definition with_upstream :: "UpstreamOutput list \<Rightarrow> TaskContext \<Rightarrow> TaskContext" where
  "with_upstream upstream c = c\<lparr>tc_upstream := upstream\<rparr>"

definition nl :: string where "nl = [CHR 0x0A]"

fun role_prompt :: "AgentType \<Rightarrow> string" where
  "role_prompt AgentType.Planner =
     ''You break objectives into independent, verifiable subtasks. Prefer fewer, larger tasks over many trivial ones.''"
| "role_prompt AgentType.Research =
     ''You investigate one narrow question and report findings with sources. State what you could not establish.''"
| "role_prompt AgentType.Coding =
     ''You write correct, minimal code. Prefer the standard library. Explain only what is not obvious from the code.''"
| "role_prompt AgentType.Critic =
     ''You find the weakest claim in the work you are given and say precisely why it is weak. Do not rewrite the work.''"
| "role_prompt AgentType.Verification =
     ''You check claims against their stated evidence and report each as supported, unsupported, or contradicted.''"
| "role_prompt AgentType.Summarization =
     ''You compress inputs without inventing anything. Keep numbers and caveats.''"
| "role_prompt AgentType.ToolUse =
     ''You call only the tools you were permitted and report their raw results.''"
| "role_prompt AgentType.DataAnalysis =
     ''You compute over the data given and report figures with their units and sample sizes.''"
| "role_prompt AgentType.SecurityReview =
     ''You look for security weaknesses and rank them by exploitability and impact.''"
| "role_prompt AgentType.ResultMerger =
     ''You merge validated outputs, remove duplication, and surface contradictions instead of hiding them.''"
| "role_prompt AgentType.General =
     ''You complete the task you are given, accurately and briefly.''"

definition system_prompt :: "AgentType \<Rightarrow> string" where
  "system_prompt agent_type =
     role_prompt agent_type @ nl @ nl @
     ''Respond with a single JSON object containing: summary (string), findings (array of strings), confidence (number between 0 and 1), evidence (array of objects with source, claim, support), and reasoning_summary (one short sentence). Do not include private deliberation.''"

definition render_upstream :: "UpstreamOutput \<Rightarrow> string" where
  "render_upstream u = nl @ ''## '' @ uo_title u @ nl @ take_chars 1200 (uo_output u) @ nl"

definition render_prompt :: "TaskNode \<Rightarrow> TaskContext \<Rightarrow> string" where
  "render_prompt t c =
     ''Task: '' @ tn_title t @ nl @ ''Kind: '' @ kind_as_str (tn_kind t) @ nl @
     ''Objective: '' @ tc_objective c @ nl @ ''Instruction: '' @ tn_description t @ nl @
     (case tc_context c of Some extra \<Rightarrow> ''Background: '' @ extra @ nl | None \<Rightarrow> []) @
     (if tc_upstream c = [] then []
      else nl @ ''Upstream results:'' @ nl @ concat (map render_upstream (tc_upstream c))) @
     (if tc_allowed_tools c = [] then []
      else nl @ ''Permitted tools: '' @ str_join '', '' (tc_allowed_tools c) @ nl)"

fun agent_type_for :: "TaskKind \<Rightarrow> AgentType" where
  "agent_type_for TaskKind.Plan = AgentType.Planner"
| "agent_type_for TaskKind.Subplan = AgentType.Planner"
| "agent_type_for TaskKind.Supervise = AgentType.Planner"
| "agent_type_for TaskKind.Work = AgentType.Research"
| "agent_type_for TaskKind.Map = AgentType.Research"
| "agent_type_for TaskKind.Answer = AgentType.Research"
| "agent_type_for TaskKind.Critique = AgentType.Critic"
| "agent_type_for TaskKind.Verify = AgentType.Verification"
| "agent_type_for TaskKind.Vote = AgentType.Verification"
| "agent_type_for TaskKind.Judge = AgentType.Verification"
| "agent_type_for TaskKind.Reduce = AgentType.ResultMerger"
| "agent_type_for TaskKind.Merge = AgentType.ResultMerger"
| "agent_type_for TaskKind.Summarize = AgentType.Summarization"

section \<open>Parsing what the model answered\<close>

record 'v ParsedOutput =
  po_summary :: string
  po_findings :: "string list"
  po_structured :: 'v
  po_evidence :: "Evidence list"
  po_reasoning_summary :: string
  po_confidence :: real

definition clamp01 :: "real \<Rightarrow> real" where
  "clamp01 x = (if x < 0 then 0 else if 1 < x then 1 else x)"

text \<open>\<open>value.get(key).and_then(Value::as_str)\<close> and its relatives.\<close>

definition get_str :: "'v json_ops \<Rightarrow> 'v \<Rightarrow> string \<Rightarrow> string option" where
  "get_str J v key = Option.bind (js_get J v key) (js_as_str J)"

definition get_f64 :: "'v json_ops \<Rightarrow> 'v \<Rightarrow> string \<Rightarrow> real option" where
  "get_f64 J v key = Option.bind (js_get J v key) (js_as_f64 J)"

definition get_array :: "'v json_ops \<Rightarrow> 'v \<Rightarrow> string \<Rightarrow> 'v list option" where
  "get_array J v key = Option.bind (js_get J v key) (js_as_array J)"

definition unwrap_or :: "'a \<Rightarrow> 'a option \<Rightarrow> 'a" where
  "unwrap_or d x = (case x of None \<Rightarrow> d | Some y \<Rightarrow> y)"

definition parse_evidence :: "'v json_ops \<Rightarrow> 'v \<Rightarrow> Evidence option" where
  "parse_evidence J v =
     map_option (\<lambda>source.
       \<lparr>ev_source = source, ev_claim = unwrap_or [] (get_str J v ''claim''),
        ev_support = clamp01 (unwrap_or (1 / 2) (get_f64 J v ''support'')),
        ev_locator = get_str J v ''locator''\<rparr>) (get_str J v ''source'')"

definition from_text :: "'v json_ops \<Rightarrow> string \<Rightarrow> 'v ParsedOutput" where
  "from_text J text =
     (case js_from_str J text of
        Inl e \<Rightarrow>
          \<lparr>po_summary = trim text, po_findings = [], po_structured = js_object J [(''text'', js_string J text)],
           po_evidence = [], po_reasoning_summary = [], po_confidence = 1 / 2\<rparr>
      | Inr v \<Rightarrow>
          \<lparr>po_summary = unwrap_or (trim text) (get_str J v ''summary''),
           po_findings = (case get_array J v ''findings'' of
              Some items \<Rightarrow> List.map_filter (js_as_str J) items | None \<Rightarrow> []),
           po_structured = v,
           po_evidence = (case get_array J v ''evidence'' of
              Some items \<Rightarrow> List.map_filter (parse_evidence J) items | None \<Rightarrow> []),
           po_reasoning_summary = unwrap_or [] (get_str J v ''reasoning_summary''),
           po_confidence = clamp01 (unwrap_or (1 / 2) (get_f64 J v ''confidence''))\<rparr>)"

definition display_text :: "'v ParsedOutput \<Rightarrow> string" where
  "display_text p =
     (if po_findings p = [] then po_summary p
      else po_summary p @ nl @ concat (map (\<lambda>finding. nl @ ''- '' @ finding) (po_findings p)))"

section \<open>Agents and the state they share\<close>

record ('v, 'w, 't) Runtime =
  rt_disp :: "uuid \<Rightarrow> string"
  rt_lower :: "string \<Rightarrow> string"
  rt_json :: "'v json_ops"
  rt_f32_bits :: "real \<Rightarrow> u32"
  rt_gateway :: "('w, 't) Gateway"
  rt_env :: "'w environment"
  rt_utc :: "'w \<Rightarrow> DateTime"
  rt_fresh_id :: "'w \<Rightarrow> MemoryId"

record ('v, 'w) Shared =
  sh_store :: "'v InMemoryStore"
  sh_gateway :: GatewayState
  sh_world :: 'w

definition agent_new :: "AgentId \<Rightarrow> DateTime \<Rightarrow> AgentType \<Rightarrow> NodeId \<Rightarrow> AgentDescriptor" where
  "agent_new fresh_id now agent_type node_id =
     new_agent_descriptor fresh_id now agent_type node_id default_model_config"

definition agent_actor :: "('v, 'w, 't) Runtime \<Rightarrow> AgentDescriptor \<Rightarrow> string" where
  "agent_actor rt a = ''agent:'' @ rt_disp rt (ad_id a)"

definition stored_result ::
  "('v, 'w, 't) Runtime \<Rightarrow> JobId \<Rightarrow> TaskId \<Rightarrow> ('v, 'w) Shared \<Rightarrow> 'v TaskResult option result" where
  "stored_result rt job_id task_id sh =
     bindR (mem_get (rt_utc rt (sh_world sh)) (ns_results (rt_disp rt) job_id) (rt_disp rt task_id) (sh_store sh))
       (\<lambda>record. case record of
          None \<Rightarrow> Ok None
        | Some r \<Rightarrow> bindR (parse_record (js_to_result (rt_json rt)) r) (\<lambda>x. Ok (Some x)))"

definition latest_checkpoint ::
  "('v, 'w, 't) Runtime \<Rightarrow> JobId \<Rightarrow> TaskId \<Rightarrow> ('v, 'w) Shared \<Rightarrow> 'v Checkpoint option result" where
  "latest_checkpoint rt job_id task_id sh =
     bindR (mem_list (rt_utc rt (sh_world sh)) (ns_checkpoints (rt_disp rt) job_id) (rt_disp rt task_id @ ''/'') (sh_store sh))
       (\<lambda>records. if records = [] then Ok None
          else bindR (parse_record (js_to_checkpoint (rt_json rt)) (last records)) (\<lambda>x. Ok (Some x)))"

definition write_checkpoint ::
  "('v, 'w, 't) Runtime \<Rightarrow> AgentDescriptor \<Rightarrow> TaskNode \<Rightarrow> u32 \<Rightarrow> string \<Rightarrow> 'v \<Rightarrow> ('v, 'w) Shared \<Rightarrow>
   ('v, 'w) Shared \<times> unit result" where
  "write_checkpoint rt a t seq label state sh =
     (let now = rt_utc rt (sh_world sh);
          checkpoint = new_checkpoint now (tn_id t) (tn_attempt t) seq label state
      in case json_write (js_of_checkpoint (rt_json rt)) (ns_checkpoints (rt_disp rt) (tn_job_id t))
                (rt_disp rt (tn_id t) @ ''/'' @ dec (unat (tn_attempt t)) @ ''/'' @ dec (unat seq))
                checkpoint (agent_actor rt a) of
           Inl e \<Rightarrow> (sh, Inl e)
         | Inr w \<Rightarrow>
             (case mem_put now (rt_fresh_id rt (sh_world sh)) (for_job (tn_job_id t) w) (sh_store sh) of
                (st, Inl e) \<Rightarrow> (sh\<lparr>sh_store := st\<rparr>, Inl e)
              | (st, Inr _) \<Rightarrow> (sh\<lparr>sh_store := st\<rparr>, Ok ())))"

section \<open>Executing a task\<close>

datatype 'v exec_phase =
    LookUp
  | ClaimAttempt
  | LostClaim
  | CheckpointStarted
  | CallModel
  | CheckpointResponded CompletionResponse
  | Publish "'v TaskResult"
  | LostPublication "'v TaskResult"
  | CheckpointCompleted "'v TaskResult"
  | Returned "'v TaskResult result"

record 'v Execution =
  ex_agent :: AgentDescriptor
  ex_task :: TaskNode
  ex_context :: TaskContext
  ex_started :: Nanos
  ex_phase :: "'v exec_phase"

definition begin_execution ::
  "('v, 'w, 't) Runtime \<Rightarrow> AgentDescriptor \<Rightarrow> TaskNode \<Rightarrow> TaskContext \<Rightarrow> ('v, 'w) Shared \<Rightarrow> 'v Execution" where
  "begin_execution rt a t c sh =
     \<lparr>ex_agent = a, ex_task = t, ex_context = c, ex_started = env_now (rt_env rt) (sh_world sh), ex_phase = LookUp\<rparr>"

definition claim_write ::
  "('v, 'w, 't) Runtime \<Rightarrow> AgentDescriptor \<Rightarrow> TaskNode \<Rightarrow> ('v, 'w) Shared \<Rightarrow> 'v MemoryWrite" where
  "claim_write rt a t sh =
     (let J = rt_json rt in
      for_job (tn_job_id t)
        (new_write (ns_executions (rt_disp rt) (tn_job_id t)) (attempt_key t)
           (js_object J [(''agent_id'', js_string J (rt_disp rt (ad_id a))),
              (''task_id'', js_string J (rt_disp rt (tn_id t))), (''attempt'', js_number J (unat (tn_attempt t))),
              (''claimed_at'', js_time J (rt_utc rt (sh_world sh)))])
           (agent_actor rt a)))"

definition build_request :: "('v, 'w, 't) Runtime \<Rightarrow> AgentDescriptor \<Rightarrow> TaskNode \<Rightarrow> TaskContext \<Rightarrow> CompletionRequest" where
  "build_request rt a t c =
     attributed_to (tn_job_id t) (tn_id t) (ad_id a)
       (bypassing_cache (1 < tn_attempt t)
         (with_idempotency_key (attempt_key t)
           (with_max_tokens (mc_max_tokens (ad_model_config a))
             (with_temperature (rt_f32_bits rt (mc_temperature (ad_model_config a)))
               (json_request
                 (new_completion_request (mc_model (ad_model_config a))
                   [system_message (system_prompt (ad_agent_type a)), user_message (render_prompt t c)]))))))"

definition build_result ::
  "('v, 'w, 't) Runtime \<Rightarrow> 'v Execution \<Rightarrow> CompletionResponse \<Rightarrow> ('v, 'w) Shared \<Rightarrow> 'v TaskResult" where
  "build_result rt ex response sh =
     (let t = ex_task ex; J = rt_json rt; parsed = from_text J (rs_text response) in
      \<lparr>tr_task_id = tn_id t, tr_job_id = tn_job_id t, tr_agent_id = ad_id (ex_agent ex), tr_attempt = tn_attempt t,
       tr_kind = tn_kind t, tr_title = tn_title t, tr_output = display_text parsed,
       tr_structured = po_structured parsed, tr_evidence = po_evidence parsed,
       tr_reasoning_summary = po_reasoning_summary parsed, tr_confidence = po_confidence parsed,
       tr_validation_failures =
         validate_output (rt_lower rt) (js_from_str J) (js_object_keys J) (rs_text response) (tn_validation t),
       tr_tokens_in = rs_tokens_in response, tr_tokens_out = rs_tokens_out response,
       tr_cost_usd = rs_cost_usd response,
       tr_duration_ms = of_int (max (env_now (rt_env rt) (sh_world sh) - ex_started ex) 0 div 1000000),
       tr_deduplicated = False, tr_finished_at = rt_utc rt (sh_world sh)\<rparr>)"

definition as_duplicate :: "'v TaskResult \<Rightarrow> 'v TaskResult" where
  "as_duplicate r = r\<lparr>tr_deduplicated := True\<rparr>"

definition goto :: "'v exec_phase \<Rightarrow> 'v Execution \<Rightarrow> 'v Execution" where
  "goto ph ex = ex\<lparr>ex_phase := ph\<rparr>"

text \<open>One awaited call of \<open>execute\<close>, with the code up to the next one.\<close>

definition exec_step ::
  "('v, 'w, 't) Runtime \<Rightarrow> 'v Execution \<Rightarrow> ('v, 'w) Shared \<Rightarrow> 'v Execution \<times> ('v, 'w) Shared" where
  "exec_step rt ex sh =
     (let t = ex_task ex; a = ex_agent ex; J = rt_json rt in
      case ex_phase ex of
        LookUp \<Rightarrow>
          (case stored_result rt (tn_job_id t) (tn_id t) sh of
             Inl e \<Rightarrow> (goto (Returned (Inl e)) ex, sh)
           | Inr (Some existing) \<Rightarrow> (goto (Returned (Ok (as_duplicate existing))) ex, sh)
           | Inr None \<Rightarrow> (goto ClaimAttempt ex, sh))
      | ClaimAttempt \<Rightarrow>
          (case claim (rt_utc rt (sh_world sh)) (rt_fresh_id rt (sh_world sh)) (claim_write rt a t sh) (sh_store sh) of
             (st, Inl e) \<Rightarrow> (goto (Returned (Inl e)) ex, sh\<lparr>sh_store := st\<rparr>)
           | (st, Inr None) \<Rightarrow> (goto LostClaim ex, sh\<lparr>sh_store := st\<rparr>)
           | (st, Inr (Some _)) \<Rightarrow> (goto CheckpointStarted ex, sh\<lparr>sh_store := st\<rparr>))
      | LostClaim \<Rightarrow>
          (case stored_result rt (tn_job_id t) (tn_id t) sh of
             Inl e \<Rightarrow> (goto (Returned (Inl e)) ex, sh)
           | Inr (Some existing) \<Rightarrow> (goto (Returned (Ok (as_duplicate existing))) ex, sh)
           | Inr None \<Rightarrow>
               (goto (Returned (Err (Internal ''attempt is already being executed elsewhere''))) ex, sh))
      | CheckpointStarted \<Rightarrow>
          (case write_checkpoint rt a t 0 ''started''
                  (js_object J [(''agent_id'', js_string J (rt_disp rt (ad_id a)))]) sh of
             (sh, Inl e) \<Rightarrow> (goto (Returned (Inl e)) ex, sh)
           | (sh, Inr _) \<Rightarrow> (goto CallModel ex, sh))
      | CallModel \<Rightarrow>
          (case gateway_complete (rt_env rt) (rt_gateway rt) (build_request rt a t (ex_context ex))
                  (sh_gateway sh) (sh_world sh) of
             (gs, w, Inl e) \<Rightarrow> (goto (Returned (Inl e)) ex, sh\<lparr>sh_gateway := gs, sh_world := w\<rparr>)
           | (gs, w, Inr response) \<Rightarrow>
               (goto (CheckpointResponded response) ex, sh\<lparr>sh_gateway := gs, sh_world := w\<rparr>))
      | CheckpointResponded response \<Rightarrow>
          (case write_checkpoint rt a t 1 ''model_responded''
                  (js_object J [(''tokens_out'', js_number J (unat (rs_tokens_out response)))]) sh of
             (sh, Inl e) \<Rightarrow> (goto (Returned (Inl e)) ex, sh)
           | (sh, Inr _) \<Rightarrow>
               (let res = build_result rt ex response sh in
                (goto (if passed_validation res then Publish res else CheckpointCompleted res) ex, sh)))
      | Publish res \<Rightarrow>
          (case json_write (js_of_result J) (ns_results (rt_disp rt) (tn_job_id t)) (rt_disp rt (tn_id t)) res (agent_actor rt a) of
             Inl e \<Rightarrow> (goto (Returned (Inl e)) ex, sh)
           | Inr w \<Rightarrow>
               (case claim (rt_utc rt (sh_world sh)) (rt_fresh_id rt (sh_world sh)) (for_job (tn_job_id t) w) (sh_store sh) of
                  (st, Inl e) \<Rightarrow> (goto (Returned (Inl e)) ex, sh\<lparr>sh_store := st\<rparr>)
                | (st, Inr None) \<Rightarrow> (goto (LostPublication res) ex, sh\<lparr>sh_store := st\<rparr>)
                | (st, Inr (Some _)) \<Rightarrow> (goto (CheckpointCompleted res) ex, sh\<lparr>sh_store := st\<rparr>)))
      | LostPublication res \<Rightarrow>
          (case stored_result rt (tn_job_id t) (tn_id t) sh of
             Inl e \<Rightarrow> (goto (Returned (Inl e)) ex, sh)
           | Inr (Some winner) \<Rightarrow> (goto (Returned (Ok (as_duplicate winner))) ex, sh)
           | Inr None \<Rightarrow> (goto (CheckpointCompleted res) ex, sh))
      | CheckpointCompleted res \<Rightarrow>
          (case write_checkpoint rt a t 2 ''completed'' (js_object J [(''validated'', js_bool J (passed_validation res))]) sh of
             (sh, Inl e) \<Rightarrow> (goto (Returned (Inl e)) ex, sh)
           | (sh, Inr _) \<Rightarrow> (goto (Returned (Ok res)) ex, sh))
      | Returned res \<Rightarrow> (ex, sh))"

text \<open>Every step goes forward, so an execution returns after at most eight.\<close>

fun rank :: "'v exec_phase \<Rightarrow> nat" where
  "rank LookUp = 8"
| "rank ClaimAttempt = 7"
| "rank LostClaim = 1"
| "rank CheckpointStarted = 6"
| "rank CallModel = 5"
| "rank (CheckpointResponded _) = 4"
| "rank (Publish _) = 3"
| "rank (LostPublication _) = 2"
| "rank (CheckpointCompleted _) = 1"
| "rank (Returned _) = 0"

fun exec_steps :: "nat \<Rightarrow> ('v, 'w, 't) Runtime \<Rightarrow> 'v Execution \<Rightarrow> ('v, 'w) Shared \<Rightarrow> 'v Execution \<times> ('v, 'w) Shared" where
  "exec_steps 0 rt ex sh = (ex, sh)"
| "exec_steps (Suc n) rt ex sh = (case exec_step rt ex sh of (ex', sh') \<Rightarrow> exec_steps n rt ex' sh')"

definition execute ::
  "('v, 'w, 't) Runtime \<Rightarrow> AgentDescriptor \<Rightarrow> TaskNode \<Rightarrow> TaskContext \<Rightarrow> ('v, 'w) Shared \<Rightarrow>
   ('v, 'w) Shared \<times> 'v TaskResult result" where
  "execute rt a t c sh =
     (case exec_steps 8 rt (begin_execution rt a t c sh) sh of
        (ex, sh') \<Rightarrow> (sh', case ex_phase ex of Returned res \<Rightarrow> res | _ \<Rightarrow> panic ''not finished''))"

end
