(* ===== verification/RuntimeProperties.thy ===== *)
theory RuntimeProperties
  imports AgentRuntime MemoryContract
begin

text \<open>
  The effectively-once guarantee of the agent runtime, for any number of agents whose executions
  interleave at every awaited call, are abandoned by crashes, and share the store with others.
\<close>

section \<open>Executions return\<close>

lemma exec_step_rank:
  assumes "exec_step rt ex sh = (ex', sh')"
  shows "rank (ex_phase ex) = 0 \<or> rank (ex_phase ex') < rank (ex_phase ex)"
  using assms
  by (cases "ex_phase ex")
    (auto simp: exec_step_def goto_def Let_def split: sum.splits option.splits prod.splits if_splits)

lemma exec_steps_rank: "exec_steps n rt ex sh = (ex', sh') \<Longrightarrow> rank (ex_phase ex') \<le> rank (ex_phase ex) - n"
proof (induction n arbitrary: ex sh)
  case (Suc n)
  obtain ex1 sh1 where 1: "exec_step rt ex sh = (ex1, sh1)" by fastforce
  with Suc.prems have "rank (ex_phase ex') \<le> rank (ex_phase ex1) - n" by (intro Suc.IH [of ex1 sh1]) simp
  moreover have "ex1 = ex" if "rank (ex_phase ex) = 0"
    using that 1 by (cases "ex_phase ex") (auto simp: exec_step_def)
  ultimately show ?case using exec_step_rank [OF 1] by force
qed simp

lemma rank_0: "rank ph = 0 \<longleftrightarrow> (\<exists>res. ph = Returned res)"
  by (cases ph) simp_all

lemma execute_returns:
  "\<exists>ex sh'. exec_steps 8 rt (begin_execution rt a t c sh) sh = (ex, sh') \<and> ex_phase ex = Returned (snd (execute rt a t c sh)) \<and>
     fst (execute rt a t c sh) = sh'"
proof -
  obtain ex sh' where e: "exec_steps 8 rt (begin_execution rt a t c sh) sh = (ex, sh')" by fastforce
  from exec_steps_rank [OF e] obtain res where "ex_phase ex = Returned res"
    using rank_0 [of "ex_phase ex"] by (auto simp: begin_execution_def)
  with e show ?thesis by (simp add: execute_def)
qed

section \<open>The records that coordinate agents\<close>

definition attempt_record :: "('v, 'w, 't) Runtime \<Rightarrow> TaskNode \<Rightarrow> RecordKey" where
  "attempt_record rt t = (ns_executions (rt_disp rt) (tn_job_id t), attempt_key t)"

definition result_record :: "('v, 'w, 't) Runtime \<Rightarrow> TaskNode \<Rightarrow> RecordKey" where
  "result_record rt t = (ns_results (rt_disp rt) (tn_job_id t), rt_disp rt (tn_id t))"

definition coordinating :: "('v, 'w, 't) Runtime \<Rightarrow> RecordKey \<Rightarrow> bool" where
  "coordinating rt k \<longleftrightarrow>
     (\<exists>j. fst k = ns_results (rt_disp rt) j) \<or> (\<exists>j. fst k = ns_executions (rt_disp rt) j)"

lemma namespaces_differ:
  "ns_results disp i \<noteq> ns_executions disp j" "ns_checkpoints disp i \<noteq> ns_results disp j"
  "ns_checkpoints disp i \<noteq> ns_executions disp j"
  by (auto simp: ns_results_def ns_executions_def ns_checkpoints_def dest!: arg_cong [where f = rev])

lemma coordinating_records: "coordinating rt (attempt_record rt t)" "coordinating rt (result_record rt t)"
  by (auto simp: coordinating_def attempt_record_def result_record_def)

text \<open>
  Records under these keys are only ever created by claims, without a lifetime, so they never change;
  published results can be read back.
\<close>

definition good_store :: "('v, 'w, 't) Runtime \<Rightarrow> 'v InMemoryStore \<Rightarrow> bool" where
  "good_store rt st \<longleftrightarrow>
     (\<forall>k r. coordinating rt k \<longrightarrow> map_of (st_records st) k = Some r \<longrightarrow> mr_expires_at r = None \<and> mr_version r = 1) \<and>
     (\<forall>t r. map_of (st_records st) (result_record rt t) = Some r \<longrightarrow> (\<exists>res. js_to_result (rt_json rt) (mr_value r) = Inr res))"

definition keeps :: "('v, 'w, 't) Runtime \<Rightarrow> 'v InMemoryStore \<Rightarrow> 'v InMemoryStore \<Rightarrow> bool" where
  "keeps rt st st' \<longleftrightarrow>
     (\<forall>k r. coordinating rt k \<longrightarrow> map_of (st_records st) k = Some r \<longrightarrow> map_of (st_records st') k = Some r)"

lemma good_storeD:
  assumes "good_store rt st"
  shows "coordinating rt k \<Longrightarrow> map_of (st_records st) k = Some r \<Longrightarrow> mr_expires_at r = None"
    "coordinating rt k \<Longrightarrow> map_of (st_records st) k = Some r \<Longrightarrow> mr_version r = 1"
    "map_of (st_records st) (result_record rt t) = Some r \<Longrightarrow> \<exists>res. js_to_result (rt_json rt) (mr_value r) = Inr res"
  using assms unfolding good_store_def by blast+

lemma keepsD: "keeps rt st st' \<Longrightarrow> coordinating rt k \<Longrightarrow> map_of (st_records st) k = Some r \<Longrightarrow> map_of (st_records st') k = Some r"
  unfolding keeps_def by blast

lemma keeps_refl [simp]: "keeps rt st st"
  by (simp add: keeps_def)

lemma claim_absent:
  assumes "map_of (st_records st) (mw_namespace w, mw_key w) = None" "mw_ttl w = None"
  shows "\<exists>st' r. claim now i w st = (st', Ok (Some r)) \<and>
    map_of (st_records st') = (map_of (st_records st))((mw_namespace w, mw_key w) \<mapsto> r) \<and>
    mr_expires_at r = None \<and> mr_version r = 1 \<and> mr_value r = mw_value w"
  using assms by (simp add: claim_def compare_and_swap_def Let_def note_op_def fresh_def expiry_def)

lemma claim_present:
  assumes "map_of (st_records st) (mw_namespace w, mw_key w) = Some r" "mr_expires_at r = None" "mr_version r = 1"
  shows "claim now i w st = (st, Ok None)"
  using assms by (simp add: claim_def compare_and_swap_def Let_def record_is_expired_def VERSION_ABSENT_def)

lemma checkpoint_effect:
  assumes "write_checkpoint rt a t seq label v sh = (sh', res)"
  shows "sh_gateway sh' = sh_gateway sh \<and> sh_world sh' = sh_world sh \<and>
    (\<forall>k. coordinating rt k \<longrightarrow> map_of (st_records (sh_store sh')) k = map_of (st_records (sh_store sh)) k)"
proof (cases "js_of_checkpoint (rt_json rt) (new_checkpoint (rt_utc rt (sh_world sh)) (tn_id t) (tn_attempt t) seq label v)")
  case (Inl e)
  then show ?thesis using assms by (auto simp: write_checkpoint_def Let_def json_write_def)
next
  case (Inr v1)
  let ?w = "for_job (tn_job_id t) (new_write (ns_checkpoints (rt_disp rt) (tn_job_id t))
    (rt_disp rt (tn_id t) @ ''/'' @ dec (unat (tn_attempt t)) @ ''/'' @ dec (unat seq)) v1 (agent_actor rt a))"
  obtain st r where p: "mem_put (rt_utc rt (sh_world sh)) (rt_fresh_id rt (sh_world sh)) ?w (sh_store sh) = (st, Inr r)"
    "map_of (st_records st) = (map_of (st_records (sh_store sh)))((mw_namespace ?w, mw_key ?w) \<mapsto> r)"
    using ims.put_law by blast
  have "sh' = sh\<lparr>sh_store := st\<rparr>"
    using assms p(1) Inr by (simp add: write_checkpoint_def Let_def json_write_def)
  moreover have "\<not> coordinating rt (mw_namespace ?w, mw_key ?w)"
    using namespaces_differ by (auto simp: coordinating_def for_job_def new_write_def)
  ultimately show ?thesis using p(2) by auto
qed

lemma checkpoint_good:
  assumes "write_checkpoint rt a t seq label v sh = (sh', res)" "good_store rt (sh_store sh)"
  shows "good_store rt (sh_store sh') \<and> keeps rt (sh_store sh) (sh_store sh')"
proof -
  have same: "map_of (st_records (sh_store sh')) k = map_of (st_records (sh_store sh)) k" if "coordinating rt k" for k
    using checkpoint_effect [OF assms(1)] that by blast
  have "good_store rt (sh_store sh')"
    unfolding good_store_def using same good_storeD [OF assms(2)] coordinating_records(2) by metis
  then show ?thesis using same unfolding keeps_def by simp
qed

lemma stored_result_cases:
  assumes "good_store rt (sh_store sh)"
  shows "stored_result rt (tn_job_id t) (tn_id t) sh =
    (case map_of (st_records (sh_store sh)) (result_record rt t) of
       None \<Rightarrow> Ok None | Some r \<Rightarrow> Ok (Some (projr (js_to_result (rt_json rt) (mr_value r)))))"
proof (cases "map_of (st_records (sh_store sh)) (result_record rt t)")
  case None
  then show ?thesis by (simp add: stored_result_def mem_get_def result_record_def)
next
  case (Some r)
  then have "mr_expires_at r = None" "\<exists>res. js_to_result (rt_json rt) (mr_value r) = Inr res"
    using good_storeD [OF assms] coordinating_records(2) by blast+
  with Some show ?thesis
    by (auto simp: stored_result_def mem_get_def result_record_def record_is_expired_def parse_record_def)
qed

section \<open>One execution\<close>

text \<open>A result up to the mark that says it was not computed by this delivery.\<close>

definition core :: "'v TaskResult \<Rightarrow> 'v TaskResult" where
  "core r = r\<lparr>tr_deduplicated := False\<rparr>"

lemma core_duplicate [simp]: "core (as_duplicate r) = core r"
  by (simp add: core_def as_duplicate_def)

definition published :: "('v, 'w, 't) Runtime \<Rightarrow> 'v InMemoryStore \<Rightarrow> TaskNode \<Rightarrow> 'v TaskResult \<Rightarrow> bool" where
  "published rt st t res \<longleftrightarrow>
     (\<exists>r res0. map_of (st_records st) (result_record rt t) = Some r \<and>
        js_to_result (rt_json rt) (mr_value r) = Inr res0 \<and> core res = core res0)"

definition claimed :: "'v Execution \<Rightarrow> bool" where
  "claimed ex \<longleftrightarrow> ex_phase ex = CheckpointStarted \<or> ex_phase ex = CallModel"

definition present :: "'v InMemoryStore \<Rightarrow> RecordKey \<Rightarrow> bool" where
  "present st k \<longleftrightarrow> map_of (st_records st) k \<noteq> None"

definition exec_ok :: "('v, 'w, 't) Runtime \<Rightarrow> 'v InMemoryStore \<Rightarrow> 'v Execution \<Rightarrow> bool" where
  "exec_ok rt st ex \<longleftrightarrow>
     (case ex_phase ex of
        Publish res \<Rightarrow> passed_validation res
      | LostPublication res \<Rightarrow> present st (result_record rt (ex_task ex))
      | CheckpointCompleted res \<Rightarrow> passed_validation res \<longrightarrow> published rt st (ex_task ex) res
      | Returned (Inr res) \<Rightarrow> passed_validation res \<longrightarrow> published rt st (ex_task ex) res
      | _ \<Rightarrow> True)"

lemma keeps_present: "keeps rt st st' \<Longrightarrow> coordinating rt k \<Longrightarrow> present st k \<Longrightarrow> present st' k"
  unfolding present_def using keepsD by fastforce

lemma keeps_published: "keeps rt st st' \<Longrightarrow> published rt st t res \<Longrightarrow> published rt st' t res"
  using coordinating_records(2) unfolding keeps_def published_def by metis

lemma keeps_exec_ok: "keeps rt st st' \<Longrightarrow> exec_ok rt st ex \<Longrightarrow> exec_ok rt st' ex"
  by (auto simp: exec_ok_def split: exec_phase.split sum.split
      intro: keeps_published keeps_present coordinating_records)

lemma duplicate_published:
  "good_store rt st \<Longrightarrow> map_of (st_records st) (result_record rt t) = Some r \<Longrightarrow>
   published rt st t (as_duplicate (projr (js_to_result (rt_json rt) (mr_value r))))"
  unfolding published_def good_store_def by fastforce

lemma good_add:
  assumes "good_store rt st" "map_of (st_records st') = (map_of (st_records st))(k \<mapsto> r)" "map_of (st_records st) k = None"
    "mr_expires_at r = None" "mr_version r = 1"
    "\<And>t. k = result_record rt t \<Longrightarrow> \<exists>res. js_to_result (rt_json rt) (mr_value r) = Inr res"
  shows "good_store rt st' \<and> keeps rt st st'"
proof -
  have "\<exists>res. js_to_result (rt_json rt) (mr_value r') = Inr res" if "map_of (st_records st') (result_record rt t) = Some r'" for t r'
    using that assms(2) assms(6) [of t] good_storeD(3) [OF assms(1), of t r'] by (cases "k = result_record rt t") auto
  moreover have "mr_expires_at r' = None \<and> mr_version r' = 1" if "coordinating rt q" "map_of (st_records st') q = Some r'" for q r'
    using that assms(2,4,5) good_storeD(1,2) [OF assms(1), of q r'] by (cases "k = q") auto
  moreover have "map_of (st_records st') q = Some r'" if "map_of (st_records st) q = Some r'" for q r'
    using that assms(2,3) by (cases "k = q") auto
  ultimately show ?thesis unfolding good_store_def keeps_def by blast
qed

lemma claim_write_key [simp]:
  "(mw_namespace (claim_write rt a t sh), mw_key (claim_write rt a t sh)) = attempt_record rt t"
  "mw_ttl (claim_write rt a t sh) = None"
  by (simp_all add: claim_write_def attempt_record_def for_job_def new_write_def Let_def)

lemma attempt_not_result: "attempt_record rt t \<noteq> result_record rt u"
  using namespaces_differ(1) [of "rt_disp rt" "tn_job_id u" "tn_job_id t"] by (auto simp: attempt_record_def result_record_def)

lemma claim_attempt_step:
  assumes "ex_phase ex = ClaimAttempt" "good_store rt (sh_store sh)" "exec_step rt ex sh = (ex', sh')"
  shows "good_store rt (sh_store sh') \<and> keeps rt (sh_store sh) (sh_store sh') \<and>
    (if present (sh_store sh) (attempt_record rt (ex_task ex)) then ex' = goto LostClaim ex
     else ex' = goto CheckpointStarted ex \<and> present (sh_store sh') (attempt_record rt (ex_task ex)))"
proof (cases "map_of (st_records (sh_store sh)) (attempt_record rt (ex_task ex))")
  case None
  let ?w = "claim_write rt (ex_agent ex) (ex_task ex) sh"
  from claim_absent [of "sh_store sh" ?w "rt_utc rt (sh_world sh)" "rt_fresh_id rt (sh_world sh)"] None
  obtain st' r where c: "claim (rt_utc rt (sh_world sh)) (rt_fresh_id rt (sh_world sh)) ?w (sh_store sh) = (st', Ok (Some r))"
    "map_of (st_records st') = (map_of (st_records (sh_store sh)))(attempt_record rt (ex_task ex) \<mapsto> r)"
    "mr_expires_at r = None" "mr_version r = 1" by auto
  have "sh' = sh\<lparr>sh_store := st'\<rparr>" "ex' = goto CheckpointStarted ex"
    using assms(1,3) c(1) by (simp_all add: exec_step_def Let_def)
  moreover have "good_store rt st' \<and> keeps rt (sh_store sh) st'"
    using good_add [OF assms(2) c(2) None c(3,4)] attempt_not_result by metis
  ultimately show ?thesis using None c(2) by (simp add: present_def)
next
  case (Some r)
  have "claim (rt_utc rt (sh_world sh)) (rt_fresh_id rt (sh_world sh)) (claim_write rt (ex_agent ex) (ex_task ex) sh) (sh_store sh) =
      (sh_store sh, Ok None)"
    using Some good_storeD(1,2) [OF assms(2) coordinating_records(1) Some] by (intro claim_present) auto
  with assms Some show ?thesis by (simp add: exec_step_def Let_def present_def)
qed

definition codec_law :: "('v, 'w, 't) Runtime \<Rightarrow> bool" where
  "codec_law rt \<longleftrightarrow> (\<forall>r v. js_of_result (rt_json rt) r = Inr v \<longrightarrow> js_to_result (rt_json rt) v = Inr r)"

lemma publish_step:
  assumes "ex_phase ex = Publish res" "good_store rt (sh_store sh)" "exec_step rt ex sh = (ex', sh')" "codec_law rt"
  shows "good_store rt (sh_store sh') \<and> keeps rt (sh_store sh) (sh_store sh') \<and>
    ((\<exists>e. ex' = goto (Returned (Inl e)) ex) \<or>
     ex' = goto (LostPublication res) ex \<and> present (sh_store sh') (result_record rt (ex_task ex)) \<or>
     ex' = goto (CheckpointCompleted res) ex \<and> published rt (sh_store sh') (ex_task ex) res)"
proof (cases "js_of_result (rt_json rt) res")
  case (Inl e)
  then show ?thesis using assms by (auto simp: exec_step_def Let_def json_write_def)
next
  case (Inr v)
  let ?t = "ex_task ex" and ?now = "rt_utc rt (sh_world sh)" and ?id = "rt_fresh_id rt (sh_world sh)"
  let ?w = "for_job (tn_job_id ?t) (new_write (ns_results (rt_disp rt) (tn_job_id ?t)) (rt_disp rt (tn_id ?t)) v (agent_actor rt (ex_agent ex)))"
  have w: "(mw_namespace ?w, mw_key ?w) = result_record rt ?t" "mw_ttl ?w = None" "mw_value ?w = v"
    by (simp_all add: for_job_def new_write_def result_record_def)
  show ?thesis
  proof (cases "map_of (st_records (sh_store sh)) (result_record rt ?t)")
    case None
    from claim_absent [of "sh_store sh" ?w ?now ?id] None w
    obtain st' r where c: "claim ?now ?id ?w (sh_store sh) = (st', Ok (Some r))"
      "map_of (st_records st') = (map_of (st_records (sh_store sh)))(result_record rt ?t \<mapsto> r)"
      "mr_expires_at r = None" "mr_version r = 1" "mr_value r = v" by auto
    have dec: "js_to_result (rt_json rt) v = Inr res" using assms(4) Inr by (simp add: codec_law_def)
    have "sh' = sh\<lparr>sh_store := st'\<rparr>" "ex' = goto (CheckpointCompleted res) ex"
      using assms(1,3) c(1) Inr by (simp_all add: exec_step_def Let_def json_write_def)
    moreover have "good_store rt st' \<and> keeps rt (sh_store sh) st'"
      using good_add [OF assms(2) c(2) None c(3,4)] dec c(5) by blast
    ultimately show ?thesis using c(2,5) dec by (simp add: published_def)
  next
    case (Some r)
    have "claim ?now ?id ?w (sh_store sh) = (sh_store sh, Ok None)"
      using Some w(1) good_storeD(1,2) [OF assms(2) coordinating_records(2) Some] by (intro claim_present) auto
    with assms Some Inr show ?thesis by (simp add: exec_step_def Let_def json_write_def present_def)
  qed
qed

lemma look_up_step:
  assumes "ex_phase ex = LookUp \<or> ex_phase ex = LostClaim \<or> ex_phase ex = LostPublication res"
    "good_store rt (sh_store sh)" "exec_step rt ex sh = (ex', sh')" "exec_ok rt (sh_store sh) ex"
  shows "sh' = sh \<and> exec_ok rt (sh_store sh) ex' \<and> \<not> claimed ex' \<and> ex_task ex' = ex_task ex"
proof (cases "map_of (st_records (sh_store sh)) (result_record rt (ex_task ex))")
  case None
  then show ?thesis using assms
    by (auto simp: exec_step_def Let_def goto_def stored_result_cases claimed_def exec_ok_def present_def)
next
  case (Some r)
  from duplicate_published [OF assms(2) Some] show ?thesis using assms(1,2,3) Some
    by (auto simp: exec_step_def Let_def goto_def stored_result_cases claimed_def exec_ok_def)
qed

lemma checkpoint_step:
  assumes "ex_phase ex = CheckpointStarted \<or> ex_phase ex = CheckpointResponded response \<or> ex_phase ex = CheckpointCompleted res"
    "good_store rt (sh_store sh)" "exec_step rt ex sh = (ex', sh')" "exec_ok rt (sh_store sh) ex"
  shows "good_store rt (sh_store sh') \<and> keeps rt (sh_store sh) (sh_store sh') \<and> exec_ok rt (sh_store sh') ex' \<and>
    (claimed ex' \<longrightarrow> claimed ex) \<and> ex_task ex' = ex_task ex"
proof -
  let ?wc = "\<lambda>seq label fields. write_checkpoint rt (ex_agent ex) (ex_task ex) seq label (js_object (rt_json rt) fields) sh"
  from assms(1) consider (started) "ex_phase ex = CheckpointStarted" | (responded) "ex_phase ex = CheckpointResponded response"
    | (completed) "ex_phase ex = CheckpointCompleted res" by blast
  then show ?thesis
  proof cases
    case started
    obtain sh1 r where w: "?wc 0 ''started'' [(''agent_id'', js_string (rt_json rt) (rt_disp rt (ad_id (ex_agent ex))))] = (sh1, r)"
      by fastforce
    with started assms(3) have "sh' = sh1" "ex' = goto (case r of Inl e \<Rightarrow> Returned (Inl e) | Inr _ \<Rightarrow> CallModel) ex"
      by (auto simp: exec_step_def Let_def split: sum.splits)
    with started checkpoint_good [OF w assms(2)] show ?thesis
      by (simp add: exec_ok_def claimed_def goto_def split: sum.split)
  next
    case responded
    obtain sh1 r where w: "?wc 1 ''model_responded'' [(''tokens_out'', js_number (rt_json rt) (unat (rs_tokens_out response)))] = (sh1, r)"
      by fastforce
    with responded assms(3) have "sh' = sh1" "ex' = goto (case r of Inl e \<Rightarrow> Returned (Inl e)
        | Inr _ \<Rightarrow> if passed_validation (build_result rt ex response sh1) then Publish (build_result rt ex response sh1)
            else CheckpointCompleted (build_result rt ex response sh1)) ex"
      by (auto simp: exec_step_def Let_def split: sum.splits)
    with checkpoint_good [OF w assms(2)] show ?thesis
      by (simp add: exec_ok_def claimed_def goto_def split: sum.split)
  next
    case completed
    obtain sh1 r where w: "?wc 2 ''completed'' [(''validated'', js_bool (rt_json rt) (passed_validation res))] = (sh1, r)"
      by fastforce
    with completed assms(3) have "sh' = sh1" "ex' = goto (case r of Inl e \<Rightarrow> Returned (Inl e) | Inr _ \<Rightarrow> Returned (Ok res)) ex"
      by (auto simp: exec_step_def Let_def split: sum.splits)
    moreover note good = checkpoint_good [OF w assms(2)]
    moreover have "exec_ok rt (sh_store sh1) ex" using keeps_exec_ok good assms(4) by blast
    ultimately show ?thesis using completed
      by (simp add: exec_ok_def claimed_def goto_def split: sum.split)
  qed
qed

lemma exec_step_ok:
  assumes "good_store rt (sh_store sh)" "exec_ok rt (sh_store sh) ex" "exec_step rt ex sh = (ex', sh')" "codec_law rt"
  shows "good_store rt (sh_store sh')" "keeps rt (sh_store sh) (sh_store sh')" "exec_ok rt (sh_store sh') ex'"
    "ex_task ex' = ex_task ex"
    "claimed ex' \<Longrightarrow> claimed ex \<or> (ex_phase ex = ClaimAttempt \<and> \<not> present (sh_store sh) (attempt_record rt (ex_task ex)) \<and>
        present (sh_store sh') (attempt_record rt (ex_task ex)))"
    "ex_phase ex = CallModel \<Longrightarrow> \<not> claimed ex'"
proof -
  have "good_store rt (sh_store sh') \<and> keeps rt (sh_store sh) (sh_store sh') \<and> exec_ok rt (sh_store sh') ex' \<and>
    ex_task ex' = ex_task ex \<and> (claimed ex' \<longrightarrow> claimed ex \<or> (ex_phase ex = ClaimAttempt \<and>
       \<not> present (sh_store sh) (attempt_record rt (ex_task ex)) \<and> present (sh_store sh') (attempt_record rt (ex_task ex)))) \<and>
    (ex_phase ex = CallModel \<longrightarrow> \<not> claimed ex')"
  proof (cases "ex_phase ex")
    case ClaimAttempt
    from claim_attempt_step [OF this assms(1,3)] show ?thesis
      using ClaimAttempt by (auto simp: exec_ok_def claimed_def goto_def split: if_splits)
  next
    case (Publish res)
    from publish_step [OF this assms(1,3,4)] show ?thesis
      using Publish by (auto simp: exec_ok_def claimed_def goto_def)
  next
    case CallModel
    then show ?thesis using assms(1,3)
      by (auto simp: exec_step_def Let_def exec_ok_def claimed_def goto_def split: prod.splits sum.splits)
  next
    case (Returned res)
    then show ?thesis using assms(1-3) by (auto simp: exec_step_def)
  next
    case LookUp
    then show ?thesis using look_up_step [OF _ assms(1,3,2)] assms(1) by simp
  next
    case LostClaim
    then show ?thesis using look_up_step [OF _ assms(1,3,2)] assms(1) by simp
  next
    case (LostPublication res)
    then show ?thesis using look_up_step [OF _ assms(1,3,2)] assms(1) by simp
  next
    case CheckpointStarted
    then show ?thesis using checkpoint_step [OF _ assms(1,3,2)] by simp
  next
    case (CheckpointResponded response)
    then show ?thesis using checkpoint_step [OF _ assms(1,3,2)] by simp
  next
    case (CheckpointCompleted res)
    then show ?thesis using checkpoint_step [OF _ assms(1,3,2)] by simp
  qed
  then show "good_store rt (sh_store sh')" "keeps rt (sh_store sh) (sh_store sh')" "exec_ok rt (sh_store sh') ex'"
    "ex_task ex' = ex_task ex"
    "claimed ex' \<Longrightarrow> claimed ex \<or> (ex_phase ex = ClaimAttempt \<and> \<not> present (sh_store sh) (attempt_record rt (ex_task ex)) \<and>
        present (sh_store sh') (attempt_record rt (ex_task ex)))"
    "ex_phase ex = CallModel \<Longrightarrow> \<not> claimed ex'" by blast+
qed

section \<open>Many executions\<close>

text \<open>
  The configurations that agents can reach together: the executions begun so far, the shared state,
  and the attempt record of every model call made, in order. Besides the steps of the executions,
  agents begin new ones and die, and others change the store, the gateway and the world in any way
  that leaves the coordinating records alone.
\<close>

inductive runs ::
  "('v, 'w, 't) Runtime \<Rightarrow> 'v Execution list \<Rightarrow> ('v, 'w) Shared \<Rightarrow> RecordKey list \<Rightarrow> bool" for rt where
  runs_init: "runs rt [] \<lparr>sh_store = new_store, sh_gateway = gs, sh_world = w\<rparr> []"
| runs_begin: "runs rt exs sh calls \<Longrightarrow> runs rt (exs @ [begin_execution rt a t c sh]) sh calls"
| runs_step: "runs rt exs sh calls \<Longrightarrow> i < length exs \<Longrightarrow> exec_step rt (exs ! i) sh = (ex', sh') \<Longrightarrow>
    runs rt (exs[i := ex']) sh'
      (if ex_phase (exs ! i) = CallModel then calls @ [attempt_record rt (ex_task (exs ! i))] else calls)"
| runs_die: "runs rt exs sh calls \<Longrightarrow> i < length exs \<Longrightarrow>
    runs rt (exs[i := goto (Returned (Err e)) (exs ! i)]) sh calls"
| runs_others: "runs rt exs sh calls \<Longrightarrow>
    (\<And>k. coordinating rt k \<Longrightarrow> map_of (st_records st) k = map_of (st_records (sh_store sh)) k) \<Longrightarrow>
    runs rt exs \<lparr>sh_store = st, sh_gateway = gs, sh_world = w\<rparr> calls"

text \<open>Attempts that hold a claim and have not called the model yet, and attempts that have.\<close>

definition spent :: "('v, 'w, 't) Runtime \<Rightarrow> 'v Execution list \<Rightarrow> RecordKey list \<Rightarrow> RecordKey multiset" where
  "spent rt exs calls = image_mset (\<lambda>ex. attempt_record rt (ex_task ex)) (filter_mset claimed (mset exs)) + mset calls"

definition system_inv ::
  "('v, 'w, 't) Runtime \<Rightarrow> 'v Execution list \<Rightarrow> ('v, 'w) Shared \<Rightarrow> RecordKey list \<Rightarrow> bool" where
  "system_inv rt exs sh calls \<longleftrightarrow>
     good_store rt (sh_store sh) \<and> (\<forall>ex \<in> set exs. exec_ok rt (sh_store sh) ex) \<and>
     (\<forall>k. count (spent rt exs calls) k \<le> 1 \<and> (k \<in># spent rt exs calls \<longrightarrow> present (sh_store sh) k)) \<and>
     (\<forall>k \<in># spent rt exs calls. coordinating rt k)"

lemma spent_update:
  assumes "i < length exs" "ex_task ex' = ex_task (exs ! i)"
  shows "spent rt (exs[i := ex']) calls + (if claimed (exs ! i) then {#attempt_record rt (ex_task (exs ! i))#} else {#}) =
    spent rt exs calls + (if claimed ex' then {#attempt_record rt (ex_task (exs ! i))#} else {#})"
proof -
  have "add_mset (exs ! i) (mset (exs[i := ex'])) = add_mset ex' (mset exs)"
    using assms(1) by (simp add: mset_update nth_mem_mset)
  from arg_cong [OF this, of "\<lambda>m. image_mset (\<lambda>ex. attempt_record rt (ex_task ex)) (filter_mset claimed m)"]
  show ?thesis using assms(2) by (auto simp: spent_def)
qed

lemma begin_inv:
  "system_inv rt exs sh calls \<Longrightarrow> system_inv rt (exs @ [begin_execution rt a t c sh]) sh calls"
  by (auto simp: system_inv_def spent_def claimed_def exec_ok_def begin_execution_def)

lemma die_inv:
  assumes "system_inv rt exs sh calls" "i < length exs"
  shows "system_inv rt (exs[i := goto (Returned (Err e)) (exs ! i)]) sh calls"
proof -
  let ?ex = "goto (Returned (Err e)) (exs ! i)"
  have "spent rt (exs[i := ?ex]) calls \<subseteq># spent rt exs calls"
    using spent_update [OF assms(2), of ?ex rt calls]
    by (cases "claimed (exs ! i)") (auto simp: goto_def claimed_def mset_subset_eq_add_left dest: sym)
  then have "count (spent rt (exs[i := ?ex]) calls) k \<le> count (spent rt exs calls) k"
    "k \<in># spent rt (exs[i := ?ex]) calls \<Longrightarrow> k \<in># spent rt exs calls" for k
    by (simp_all add: mset_subset_eq_count mset_subset_eqD)
  moreover have "exec_ok rt (sh_store sh) x" if "x \<in> set (exs[i := ?ex])" for x
    using that assms(1) set_update_subset_insert [of exs i ?ex] by (auto simp: system_inv_def exec_ok_def goto_def)
  ultimately show ?thesis using assms(1) unfolding system_inv_def by (meson le_trans)
qed

lemma step_inv:
  assumes "system_inv rt exs sh calls" "i < length exs" "exec_step rt (exs ! i) sh = (ex', sh')" "codec_law rt"
  shows "system_inv rt (exs[i := ex']) sh'
    (if ex_phase (exs ! i) = CallModel then calls @ [attempt_record rt (ex_task (exs ! i))] else calls)"
proof -
  let ?k = "attempt_record rt (ex_task (exs ! i))"
  let ?calls = "if ex_phase (exs ! i) = CallModel then calls @ [?k] else calls"
  have inv: "good_store rt (sh_store sh)" "\<And>ex. ex \<in> set exs \<Longrightarrow> exec_ok rt (sh_store sh) ex"
    "\<And>k. count (spent rt exs calls) k \<le> 1" "\<And>k. k \<in># spent rt exs calls \<Longrightarrow> present (sh_store sh) k"
    "\<And>k. k \<in># spent rt exs calls \<Longrightarrow> coordinating rt k"
    using assms(1) unfolding system_inv_def by blast+
  note ok = exec_step_ok [OF inv(1) inv(2) [OF nth_mem [OF assms(2)]] assms(3,4)]
  have oks: "exec_ok rt (sh_store sh') x" if "x \<in> set (exs[i := ex'])" for x
    using that set_update_subset_insert [of exs i ex'] ok(3) keeps_exec_ok [OF ok(2) inv(2)] by auto
  have calls: "spent rt (exs[i := ex']) ?calls =
      spent rt (exs[i := ex']) calls + (if ex_phase (exs ! i) = CallModel then {#?k#} else {#})"
    by (simp add: spent_def)
  show ?thesis
  proof (cases "claimed ex' \<and> \<not> claimed (exs ! i)")
    case True
    then have new: "ex_phase (exs ! i) \<noteq> CallModel" "\<not> present (sh_store sh) ?k" "present (sh_store sh') ?k"
      using ok(5) by (auto simp: claimed_def)
    have sp: "spent rt (exs[i := ex']) ?calls = add_mset ?k (spent rt exs calls)"
      using spent_update [OF assms(2) ok(4), of rt calls] calls True new(1) by simp
    have "?k \<notin># spent rt exs calls" using inv(4) new(2) by blast
    then have "count (spent rt exs calls) ?k = 0" by (simp add: not_in_iff)
    then show ?thesis unfolding system_inv_def sp
      using ok(1) oks inv(3-5) new(3) coordinating_records(1) keeps_present [OF ok(2)] by auto
  next
    case False
    have le: "spent rt (exs[i := ex']) ?calls \<subseteq># spent rt exs calls"
    proof (cases "claimed (exs ! i)")
      case True
      then show ?thesis using spent_update [OF assms(2) ok(4), of rt calls] calls ok(6)
        by (cases "ex_phase (exs ! i) = CallModel"; cases "claimed ex'") (auto dest: sym)
    next
      case False
      then have "\<not> claimed ex'" "ex_phase (exs ! i) \<noteq> CallModel" using \<open>\<not> (claimed ex' \<and> _)\<close> by (auto simp: claimed_def)
      then show ?thesis using spent_update [OF assms(2) ok(4), of rt calls] calls False by simp
    qed
    then have "count (spent rt (exs[i := ex']) ?calls) k \<le> count (spent rt exs calls) k"
      "k \<in># spent rt (exs[i := ex']) ?calls \<Longrightarrow> k \<in># spent rt exs calls" for k
      by (simp_all add: mset_subset_eq_count mset_subset_eqD)
    then show ?thesis unfolding system_inv_def
      using ok(1) oks inv(3-5) keeps_present [OF ok(2)] by (meson le_trans)
  qed
qed

lemma others_inv:
  assumes "system_inv rt exs sh calls"
    "\<And>k. coordinating rt k \<Longrightarrow> map_of (st_records st) k = map_of (st_records (sh_store sh)) k"
  shows "system_inv rt exs \<lparr>sh_store = st, sh_gateway = gs, sh_world = w\<rparr> calls"
proof -
  have inv: "good_store rt (sh_store sh)" "\<And>ex. ex \<in> set exs \<Longrightarrow> exec_ok rt (sh_store sh) ex"
    using assms(1) unfolding system_inv_def by blast+
  have "good_store rt st" unfolding good_store_def using good_storeD [OF inv(1)] assms(2) coordinating_records(2) by metis
  moreover have keep: "keeps rt (sh_store sh) st" unfolding keeps_def using assms(2) by simp
  moreover have "\<forall>ex \<in> set exs. exec_ok rt st ex" using inv(2) keeps_exec_ok [OF keep] by blast
  ultimately show ?thesis
    using assms(1) keeps_present [OF keep] unfolding system_inv_def by simp
qed

lemma runs_inv: "runs rt exs sh calls \<Longrightarrow> codec_law rt \<Longrightarrow> system_inv rt exs sh calls"
proof (induction rule: runs.induct)
  case (runs_init gs w)
  then show ?case by (simp add: system_inv_def good_store_def new_store_def spent_def)
next
  case (runs_step exs sh calls i ex' sh')
  then show ?case by (intro step_inv) simp_all
next
  case (runs_others exs sh calls st gs w)
  then show ?case by (intro others_inv) simp_all
qed (simp_all add: begin_inv die_inv)

lemma distinct_count_le_1: "(\<And>k. count (mset xs) k \<le> 1) \<Longrightarrow> distinct xs"
proof (induction xs)
  case (Cons x xs)
  have "count (mset xs) k \<le> count (mset (x # xs)) k" for k by simp
  with Cons.prems have "count (mset xs) k \<le> 1" for k by (meson le_trans)
  moreover have "count (mset xs) x = 0" using Cons.prems [of x] by simp
  ultimately show ?case using Cons.IH by (simp add: count_eq_zero_iff)
qed simp

lemma published_agree: "published rt st t r \<Longrightarrow> published rt st u r' \<Longrightarrow> result_record rt u = result_record rt t \<Longrightarrow> core r = core r'"
  unfolding published_def by auto

text \<open>A runtime for the closed examples: its JSON values are numbers, it has no provider.\<close>

definition demo_result :: "nat TaskResult" where
  "demo_result = \<lparr>tr_task_id = 1, tr_job_id = 9, tr_agent_id = 4, tr_attempt = 1, tr_kind = TaskKind.Work, tr_title = ''t'',
     tr_output = ''o'', tr_structured = 0, tr_evidence = [], tr_reasoning_summary = [], tr_confidence = 1,
     tr_validation_failures = [], tr_tokens_in = 0, tr_tokens_out = 0, tr_cost_usd = 0, tr_duration_ms = 0,
     tr_deduplicated = False, tr_finished_at = 0\<rparr>"

definition demo_json :: "nat json_ops" where
  "demo_json = \<lparr>js_from_str = (\<lambda>_. Inr 0), js_get = (\<lambda>_ _. None), js_as_str = (\<lambda>_. None), js_as_array = (\<lambda>_. None),
     js_as_f64 = (\<lambda>_. None), js_object_keys = (\<lambda>_. None), js_object = (\<lambda>_. 0), js_string = (\<lambda>_. 0), js_number = (\<lambda>n. n),
     js_bool = (\<lambda>_. 0), js_time = (\<lambda>_. 0),
     js_of_result = (\<lambda>r. if r = demo_result then Inr 7 else Inl ''unsupported''),
     js_to_result = (\<lambda>v. if v = 7 then Inr demo_result else Inl ''not a result''),
     js_of_checkpoint = (\<lambda>_. Inr 0), js_to_checkpoint = (\<lambda>_. Inl ''unsupported'')\<rparr>"

definition demo_runtime :: "(nat, nat, unit) Runtime" where
  "demo_runtime = \<lparr>rt_disp = uuid_hyphenated, rt_lower = (\<lambda>s. s), rt_json = demo_json, rt_f32_bits = (\<lambda>_. 0),
     rt_gateway = fst (new_gateway default_gateway_config), rt_env = \<lparr>env_now = (\<lambda>_. 0), env_sleep = (\<lambda>_ w. w)\<rparr>,
     rt_utc = (\<lambda>_. 0), rt_fresh_id = (\<lambda>_. 0)\<rparr>"

definition idle_gateway :: GatewayState where
  "idle_gateway = \<lparr>gs_cache = [], gs_cache_order = [], gs_breakers = [], gs_usage = default_usage\<rparr>"

lemma demo_codec_law: "codec_law demo_runtime"
  by (simp add: codec_law_def demo_runtime_def demo_json_def)

definition demo_node :: TaskNode where
  "demo_node = new_task uuid_hyphenated 1 9 TaskKind.Work ''t'' ''d'' 0"

definition demo_agent :: AgentDescriptor where
  "demo_agent = agent_new 4 0 AgentType.Research 5"

text \<open>C10: effectively once. However the executions of any number of agents interleave and die, no attempt
  of a task calls the model twice, and all deliveries of a task that return a validated result return
  the same one, up to the mark of a duplicate.\<close>

theorem effectively_once:
  assumes "runs rt exs sh calls" "codec_law rt"
  shows "distinct calls \<and>
    (\<forall>ex \<in> set exs. \<forall>ex' \<in> set exs. \<forall>r r'.
       ex_phase ex = Returned (Ok r) \<and> ex_phase ex' = Returned (Ok r') \<and> passed_validation r \<and> passed_validation r' \<and>
       tn_job_id (ex_task ex') = tn_job_id (ex_task ex) \<and> tn_id (ex_task ex') = tn_id (ex_task ex) \<longrightarrow> core r = core r')"
proof -
  have inv: "system_inv rt exs sh calls" by (rule runs_inv [OF assms])
  have "count (mset calls) k \<le> 1" for k
  proof -
    have "count (mset calls) k \<le> count (spent rt exs calls) k" by (simp add: spent_def)
    also have "\<dots> \<le> 1" using inv unfolding system_inv_def by blast
    finally show ?thesis .
  qed
  then have "distinct calls" by (rule distinct_count_le_1)
  moreover have pub: "published rt (sh_store sh) (ex_task ex) r"
    if "ex \<in> set exs" "ex_phase ex = Returned (Ok r)" "passed_validation r" for ex r
  proof -
    have "exec_ok rt (sh_store sh) ex" using inv that(1) unfolding system_inv_def by blast
    then show ?thesis using that(2,3) by (simp add: exec_ok_def)
  qed
  moreover have "core r = core r'"
    if "ex \<in> set exs" "ex' \<in> set exs" "ex_phase ex = Returned (Ok r)" "ex_phase ex' = Returned (Ok r')"
      "passed_validation r" "passed_validation r'" "tn_job_id (ex_task ex') = tn_job_id (ex_task ex)"
      "tn_id (ex_task ex') = tn_id (ex_task ex)" for ex ex' r r'
  proof (rule published_agree)
    show "published rt (sh_store sh) (ex_task ex) r" "published rt (sh_store sh) (ex_task ex') r'"
      using pub that by blast+
    show "result_record rt (ex_task ex') = result_record rt (ex_task ex)" using that(7,8) by (simp add: result_record_def)
  qed
  ultimately show ?thesis by blast
qed

lemma checkpoint_written:
  assumes "\<And>cp. \<exists>v. js_of_checkpoint (rt_json rt) cp = Inr v"
  shows "\<exists>sh'. write_checkpoint rt a t seq label v sh = (sh', Ok ())"
proof -
  obtain v1 where "js_of_checkpoint (rt_json rt) (new_checkpoint (rt_utc rt (sh_world sh)) (tn_id t) (tn_attempt t) seq label v) = Inr v1"
    using assms by blast
  moreover have "snd (mem_put now i w st) = Ok (projr (snd (mem_put now i w st)))" for now i w and st :: "'a InMemoryStore"
    by (simp add: mem_put_def Let_def case_prod_unfold)
  ultimately show ?thesis
    by (simp add: write_checkpoint_def Let_def json_write_def case_prod_unfold split: sum.split)
      (metis Inl_Inr_False)
qed

theorem effectively_once_witness:
  "\<exists>exs sh. runs demo_runtime exs sh [attempt_record demo_runtime demo_node] \<and> distinct [attempt_record demo_runtime demo_node]"
proof -
  let ?rt = demo_runtime
  let ?sh = "\<lparr>sh_store = new_store, sh_gateway = idle_gateway, sh_world = 0\<rparr>"
  let ?ex = "begin_execution ?rt demo_agent demo_node (new_context ''o'') ?sh"
  have good: "good_store ?rt (sh_store ?sh)" by (simp add: good_store_def new_store_def)
  have t: "ex_task (goto ph ?ex) = demo_node" "(goto ph ?ex)\<lparr>ex_phase := ph'\<rparr> = goto ph' ?ex" for ph ph'
    by (simp_all add: goto_def begin_execution_def)
  have "runs ?rt [?ex] ?sh []" using runs_begin [OF runs_init] by fastforce
  moreover have "exec_step ?rt ?ex ?sh = (goto ClaimAttempt ?ex, ?sh)"
    using stored_result_cases [OF good, of demo_node]
    by (simp add: exec_step_def Let_def begin_execution_def new_store_def)
  ultimately have 1: "runs ?rt [goto ClaimAttempt ?ex] ?sh []"
    using runs_step [of ?rt "[?ex]" ?sh "[]" 0] by (simp add: begin_execution_def)
  obtain ex2 sh2 where st2: "exec_step ?rt (goto ClaimAttempt ?ex) ?sh = (ex2, sh2)" by fastforce
  then have ex2: "ex2 = goto CheckpointStarted ?ex"
    using claim_attempt_step [OF _ good st2] by (simp add: goto_def present_def new_store_def)
  have 2: "runs ?rt [goto CheckpointStarted ?ex] sh2 []"
    using runs_step [OF 1, of 0] st2 ex2 by (simp add: goto_def)
  obtain sh3 where "exec_step ?rt (goto CheckpointStarted ?ex) sh2 = (goto CallModel ?ex, sh3)"
  proof -
    have "\<exists>v. js_of_checkpoint (rt_json ?rt) cp = Inr v" for cp by (simp add: demo_runtime_def demo_json_def)
    from checkpoint_written [OF this] obtain sh3 where
      "write_checkpoint ?rt demo_agent demo_node 0 ''started''
         (js_object (rt_json ?rt) [(''agent_id'', js_string (rt_json ?rt) (rt_disp ?rt (ad_id demo_agent)))]) sh2 = (sh3, Ok ())"
      by blast
    then show thesis using that [of sh3] by (simp add: exec_step_def Let_def goto_def begin_execution_def)
  qed
  then have 3: "runs ?rt [goto CallModel ?ex] sh3 []" using runs_step [OF 2, of 0] by (simp add: goto_def)
  obtain ex4 sh4 where "exec_step ?rt (goto CallModel ?ex) sh3 = (ex4, sh4)" by fastforce
  then have "runs ?rt [ex4] sh4 [attempt_record ?rt demo_node]"
    using runs_step [OF 3, of 0] t(1) [of CallModel] by (simp add: goto_def)
  then show ?thesis using effectively_once [OF _ demo_codec_law] by blast
qed

section \<open>Redelivery\<close>

lemma exec_steps_ok:
  "exec_steps n rt ex sh = (ex', sh') \<Longrightarrow> good_store rt (sh_store sh) \<Longrightarrow> exec_ok rt (sh_store sh) ex \<Longrightarrow> codec_law rt \<Longrightarrow>
   good_store rt (sh_store sh') \<and> exec_ok rt (sh_store sh') ex' \<and> ex_task ex' = ex_task ex"
proof (induction n arbitrary: ex sh)
  case (Suc n)
  obtain ex1 sh1 where 1: "exec_step rt ex sh = (ex1, sh1)" by fastforce
  note ok = exec_step_ok [OF Suc.prems(2,3) 1 Suc.prems(4)]
  from Suc.IH [of ex1 sh1] Suc.prems(1,4) ok 1 show ?case by simp
qed simp

lemma exec_steps_returned: "ex_phase ex = Returned res \<Longrightarrow> exec_steps n rt ex sh = (ex, sh)"
  by (induction n) (simp_all add: exec_step_def)

text \<open>C11: redelivery is free and returns the original. Executing a task always returns; once an execution
  returned a validated result, executing the same task again, by any agent, with any later attempt
  number and context, returns that result marked as a duplicate and touches neither the store, nor the
  gateway, nor any provider.\<close>

theorem redelivery_returns_original:
  assumes "good_store rt (sh_store sh)" "codec_law rt" "execute rt a t c sh = (sh1, Ok res)" "passed_validation res"
    "tn_job_id t' = tn_job_id t" "tn_id t' = tn_id t"
  shows "\<exists>res'. execute rt a' t' c' sh1 = (sh1, Ok res') \<and> tr_deduplicated res' \<and> core res' = core res"
proof -
  obtain ex where ex: "exec_steps 8 rt (begin_execution rt a t c sh) sh = (ex, sh1)" "ex_phase ex = Returned (Ok res)"
    using execute_returns [of rt a t c sh] assms(3) by auto
  have "exec_ok rt (sh_store sh) (begin_execution rt a t c sh)" by (simp add: exec_ok_def begin_execution_def)
  from exec_steps_ok [OF ex(1) assms(1) this assms(2)]
  have good: "good_store rt (sh_store sh1)" and "exec_ok rt (sh_store sh1) ex" "ex_task ex = t"
    by (simp_all add: begin_execution_def)
  then have "published rt (sh_store sh1) t res" using ex(2) assms(4) by (simp add: exec_ok_def)
  then obtain r res0 where r: "map_of (st_records (sh_store sh1)) (result_record rt t') = Some r"
    "js_to_result (rt_json rt) (mr_value r) = Inr res0" "core res = core res0"
    using assms(5,6) by (auto simp: published_def result_record_def)
  let ?ex = "begin_execution rt a' t' c' sh1"
  have "exec_step rt ?ex sh1 = (goto (Returned (Ok (as_duplicate res0))) ?ex, sh1)"
    using stored_result_cases [OF good, of t'] r(1,2) by (simp add: exec_step_def Let_def begin_execution_def)
  then have "exec_steps 8 rt ?ex sh1 = (goto (Returned (Ok (as_duplicate res0))) ?ex, sh1)"
    using exec_steps_returned [of "goto (Returned (Ok (as_duplicate res0))) ?ex" _ 7 rt sh1]
    by (simp add: eval_nat_numeral goto_def)
  then have "execute rt a' t' c' sh1 = (sh1, Ok (as_duplicate res0))" by (simp add: execute_def goto_def)
  then show ?thesis using r(3) by (simp add: as_duplicate_def core_def)
qed

definition published_shared :: "(nat, nat) Shared" where
  "published_shared = \<lparr>sh_store = fst (claim 0 0 (new_write (ns_results uuid_hyphenated 9) (uuid_hyphenated 1) 7 ''a'') new_store),
     sh_gateway = idle_gateway, sh_world = 0\<rparr>"

lemma published_shared_good:
  "good_store demo_runtime (sh_store published_shared) \<and> published demo_runtime (sh_store published_shared) demo_node demo_result"
proof -
  let ?w = "new_write (ns_results uuid_hyphenated 9) (uuid_hyphenated 1) 7 ''a'' :: nat MemoryWrite"
  have k: "(mw_namespace ?w, mw_key ?w) = result_record demo_runtime demo_node" "mw_ttl ?w = None" "mw_value ?w = 7"
    by (simp_all add: new_write_def result_record_def demo_runtime_def demo_node_def new_task_def)
  have none: "map_of (st_records new_store) k = None" for k by (simp add: new_store_def)
  obtain st r where c: "claim 0 0 ?w new_store = (st, Ok (Some r))"
    "map_of (st_records st) = (map_of (st_records new_store))(result_record demo_runtime demo_node \<mapsto> r)"
    "mr_expires_at r = None" "mr_version r = 1" "mr_value r = 7"
    using claim_absent [OF none k(2), of 0 0] unfolding k by blast
  have d: "js_to_result (rt_json demo_runtime) 7 = Inr demo_result" by (simp add: demo_runtime_def demo_json_def)
  have "good_store demo_runtime new_store" by (simp add: good_store_def none)
  from good_add [OF this c(2) none c(3,4)] d c(5) have "good_store demo_runtime st" by simp
  then show ?thesis using d c(1,2,5) by (simp add: published_shared_def published_def)
qed

theorem redelivery_returns_original_witness:
  "\<exists>res'. execute demo_runtime demo_agent demo_node (new_context ''o'') published_shared = (published_shared, Ok res') \<and>
     tr_deduplicated res' \<and> core res' = core demo_result"
proof -
  obtain r res0 where r: "map_of (st_records (sh_store published_shared)) (result_record demo_runtime demo_node) = Some r"
    "js_to_result (rt_json demo_runtime) (mr_value r) = Inr res0" "core demo_result = core res0"
    using published_shared_good by (auto simp: published_def)
  let ?c = "new_context ''o''"
  let ?ex = "begin_execution demo_runtime demo_agent demo_node ?c published_shared"
  have "exec_step demo_runtime ?ex published_shared = (goto (Returned (Ok (as_duplicate res0))) ?ex, published_shared)"
    using stored_result_cases [OF conjunct1 [OF published_shared_good], of demo_node] r
    by (simp add: exec_step_def Let_def begin_execution_def)
  then have "execute demo_runtime demo_agent demo_node ?c published_shared = (published_shared, Ok (as_duplicate res0))"
    using exec_steps_returned [of "goto (Returned (Ok (as_duplicate res0))) ?ex" _ 7 demo_runtime published_shared]
    by (simp add: execute_def eval_nat_numeral goto_def)
  moreover have "passed_validation (as_duplicate res0)"
    using arg_cong [OF r(3), of tr_validation_failures]
    by (simp add: passed_validation_def as_duplicate_def core_def demo_result_def)
  ultimately show ?thesis
    using redelivery_returns_original [OF conjunct1 [OF published_shared_good] demo_codec_law _ _ refl refl] r(3)
    by fastforce
qed

end
