(* ===== verification/Decompose.thy ===== *)
theory Decompose
  imports GraphProperties
begin

text \<open>
  Compiling an objective into a task graph (\<open>crates/coordinator/src/decompose.rs\<close>). \<open>lower\<close> is
  \<open>str::to_lowercase\<close> and \<open>disp\<close> the display of a \<open>Uuid\<close>; the identifiers that \<open>TaskNode::new\<close>
  draws are the values \<open>fresh 0\<close>, \<open>fresh 1\<close>, ... of an argument, in the order they are drawn.
  The compiled graph is compared with a reference that gives every task directly by its stage and
  slot.
\<close>

section \<open>Stages\<close>

record Stage =
  st_kind :: TaskKind
  st_fanout :: nat
  st_label :: string

definition new_stage :: "TaskKind \<Rightarrow> nat \<Rightarrow> string \<Rightarrow> Stage" where
  "new_stage kind fanout label = \<lparr>st_kind = kind, st_fanout = max fanout 1, st_label = label\<rparr>"

definition clamp_u32 :: "u32 \<Rightarrow> u32 \<Rightarrow> u32 \<Rightarrow> u32" where
  "clamp_u32 lo hi x = (if x < lo then lo else if hi < x then hi else x)"

definition estimate_complexity :: "(string \<Rightarrow> string) \<Rightarrow> string \<Rightarrow> u32" where
  "estimate_complexity lower objective =
     (let words = length (split_whitespace objective);
          enumerations =
            length (filter (\<lambda>c. c = CHR '','' \<or> c = CHR '';'' \<or> c = CHR 0x0A) objective) +
            count_matches '' and '' (lower objective);
          from_length = word_of_nat (words div 10);
          from_structure = word_of_nat enumerations
      in clamp_u32 2 8 (2 + from_length + from_structure))"

fun stages :: "ExecutionStrategy \<Rightarrow> nat \<Rightarrow> Stage list" where
  "stages strategy fanout0 =
     (let fanout = max fanout0 1; half = max (fanout div 2) 1 in
      case strategy of
        Sequential \<Rightarrow>
          [new_stage TaskKind.Plan 1 ''Plan''] @
          map (\<lambda>step. new_stage TaskKind.Work 1 (''Step '' @ dec step)) [1..<min fanout 4 + 1] @
          [new_stage TaskKind.Summarize 1 ''Summary'']
      | Parallel \<Rightarrow>
          [new_stage TaskKind.Plan 1 ''Plan'', new_stage TaskKind.Work fanout ''Investigate'',
           new_stage TaskKind.Merge 1 ''Merge'']
      | Hierarchical \<Rightarrow>
          [new_stage TaskKind.Plan 1 ''Plan'', new_stage TaskKind.Subplan half ''Sub-plan'',
           new_stage TaskKind.Work fanout ''Investigate'', new_stage TaskKind.Merge 1 ''Merge'',
           new_stage TaskKind.Verify 1 ''Verify'']
      | Debate \<Rightarrow>
          [new_stage TaskKind.Answer fanout ''Answer'', new_stage TaskKind.Critique fanout ''Critique'',
           new_stage TaskKind.Judge 1 ''Judge'']
      | MapReduce \<Rightarrow>
          [new_stage TaskKind.Plan 1 ''Partition'', new_stage TaskKind.Map fanout ''Map'',
           new_stage TaskKind.Reduce 1 ''Reduce'']
      | PlannerExecutor \<Rightarrow>
          [new_stage TaskKind.Plan 1 ''Plan'', new_stage TaskKind.Work fanout ''Execute'',
           new_stage TaskKind.Verify 1 ''Verify'']
      | SupervisorWorker \<Rightarrow>
          [new_stage TaskKind.Supervise 1 ''Assign'', new_stage TaskKind.Work fanout ''Work'',
           new_stage TaskKind.Critique 1 ''Review'', new_stage TaskKind.Merge 1 ''Merge'']
      | Consensus \<Rightarrow>
          [new_stage TaskKind.Answer fanout ''Answer'', new_stage TaskKind.Vote 1 ''Vote'',
           new_stage TaskKind.Merge 1 ''Decide'']
      | Adaptive \<Rightarrow>
          [new_stage TaskKind.Plan 1 ''Plan'', new_stage TaskKind.Work half ''Explore'',
           new_stage TaskKind.Summarize 1 ''Summary''])"

declare stages.simps [simp del]

definition validation_for :: "TaskKind \<Rightarrow> ValidationRule list" where
  "validation_for kind =
     [NonEmpty, RequiredJsonKeys [''summary'', ''confidence'']] @
     (case kind of
        TaskKind.Plan \<Rightarrow> [MinWords 10] | TaskKind.Subplan \<Rightarrow> [MinWords 10]
      | TaskKind.Supervise \<Rightarrow> [MinWords 10]
      | TaskKind.Work \<Rightarrow> [MinWords 15] | TaskKind.Map \<Rightarrow> [MinWords 15]
      | TaskKind.Answer \<Rightarrow> [MinWords 15] | TaskKind.Critique \<Rightarrow> [MinWords 15]
      | TaskKind.Merge \<Rightarrow> [MinWords 12] | TaskKind.Reduce \<Rightarrow> [MinWords 12]
      | TaskKind.Summarize \<Rightarrow> [MinWords 12] | TaskKind.Judge \<Rightarrow> [MinWords 12]
      | TaskKind.Verify \<Rightarrow> [] | TaskKind.Vote \<Rightarrow> [])"

section \<open>Subtopics\<close>

definition shorten :: "string \<Rightarrow> nat \<Rightarrow> string" where
  "shorten text words = str_join '' '' (take words (split_whitespace text))"

definition clause_topics :: "string \<Rightarrow> string list" where
  "clause_topics objective =
     filter (\<lambda>clause. length (split_whitespace clause) \<ge> 2)
       (map (\<lambda>clause. shorten (trim clause) 10)
         (concat (map (split_str '' and '' [])
           (split_chars (\<lambda>c. c = CHR 0x0A \<or> c = CHR '';'' \<or> c = CHR '','' \<or> c = CHR ''.'')
             objective))))"

text \<open>
  The first loop of \<open>subtopics\<close>; \<open>True\<close> marks the return from inside it. The second one, \<open>pad\<close>,
  numbers aspects until there are enough. Its counter is an \<open>i32\<close> in the code and a \<open>nat\<close> here:
  every number it passes over is either pushed or the number of a topic already there, so it stays
  below twice the count, and no request asks for more than a thousand.
\<close>

fun keep_topics :: "(string \<Rightarrow> string) \<Rightarrow> nat \<Rightarrow> string list \<Rightarrow> string list \<Rightarrow> string list \<times> bool" where
  "keep_topics lower wanted [] seen = (seen, False)"
| "keep_topics lower wanted (topic # topics) seen =
     (let seen' = (if list_ex (\<lambda>existing. lower existing = lower topic) seen then seen
                   else seen @ [topic])
      in if length seen' = wanted then (seen', True) else keep_topics lower wanted topics seen')"

definition aspect_text :: "string \<Rightarrow> nat \<Rightarrow> string" where
  "aspect_text stem aspect =
     stem @ '' '' @ [CHR 0xE2, CHR 0x80, CHR 0x94] @ '' aspect '' @ dec aspect"

lemma aspect_text_inject [simp]: "aspect_text stem a = aspect_text stem b \<longleftrightarrow> a = b"
  by (simp add: aspect_text_def dec_inject)

definition aspects_ahead :: "string \<Rightarrow> nat \<Rightarrow> string list \<Rightarrow> nat set" where
  "aspects_ahead stem aspect seen = {k. aspect \<le> k \<and> aspect_text stem k \<in> set seen}"

lemma finite_aspects_ahead: "finite (aspects_ahead stem aspect seen)"
proof -
  have "inj (aspect_text stem)" by (auto intro: injI)
  then have "finite (aspect_text stem -` set seen)" by (intro finite_vimageI) auto
  then show ?thesis by (rule rev_finite_subset) (auto simp: aspects_ahead_def)
qed

lemma aspects_ahead_push:
  "aspects_ahead stem (Suc aspect) (seen @ [aspect_text stem aspect]) \<subseteq> aspects_ahead stem aspect seen"
  by (auto simp: aspects_ahead_def)

lemma aspects_ahead_skip:
  assumes "aspect_text stem aspect \<in> set seen"
  shows "card (aspects_ahead stem (Suc aspect) seen) < card (aspects_ahead stem aspect seen)"
proof (rule psubset_card_mono [OF finite_aspects_ahead])
  have "aspect \<in> aspects_ahead stem aspect seen - aspects_ahead stem (Suc aspect) seen"
    using assms by (simp add: aspects_ahead_def)
  moreover have "aspects_ahead stem (Suc aspect) seen \<subseteq> aspects_ahead stem aspect seen"
    by (auto simp: aspects_ahead_def)
  ultimately show "aspects_ahead stem (Suc aspect) seen \<subset> aspects_ahead stem aspect seen" by blast
qed

function pad :: "string \<Rightarrow> nat \<Rightarrow> nat \<Rightarrow> string list \<Rightarrow> string list" where
  "pad stem wanted aspect seen =
     (if length seen < wanted then
        let candidate = aspect_text stem aspect in
        pad stem wanted (aspect + 1)
          (if candidate \<in> set seen then seen else seen @ [candidate])
      else seen)"
  by pat_completeness auto
termination
proof (relation "measure (\<lambda>(stem, wanted, aspect, seen).
    (wanted - length seen) + card (aspects_ahead stem aspect seen))", goal_cases)
  case (2 stem wanted aspect seen x)
  have "card (aspects_ahead stem (Suc aspect) (seen @ [aspect_text stem aspect]))
      \<le> card (aspects_ahead stem aspect seen)"
    by (rule card_mono [OF finite_aspects_ahead aspects_ahead_push])
  then show ?case
    using 2 aspects_ahead_skip [of stem aspect seen] by auto
qed simp

declare pad.simps [simp del]

definition subtopics :: "(string \<Rightarrow> string) \<Rightarrow> string \<Rightarrow> nat \<Rightarrow> string list" where
  "subtopics lower objective wanted =
     (let topics = remdups_adj (clause_topics objective) in
      case keep_topics lower wanted topics [] of
        (seen, True) \<Rightarrow> seen
      | (seen, False) \<Rightarrow> pad (shorten objective 6) wanted 1 seen)"

section \<open>Compiling a job\<close>

definition describe :: "Stage \<Rightarrow> string \<Rightarrow> JobRequest \<Rightarrow> string" where
  "describe stage focus request =
     (let objective = jr_objective request in
      case st_kind stage of
        TaskKind.Plan \<Rightarrow>
          ''Break the objective into independent pieces of work. Objective: '' @ objective
      | TaskKind.Subplan \<Rightarrow> ''Plan the work needed for `'' @ focus @ ''` within: '' @ objective
      | TaskKind.Work \<Rightarrow>
          ''Investigate `'' @ focus @ ''` and report what you established, with sources.''
      | TaskKind.Map \<Rightarrow>
          ''Process the `'' @ focus @ ''` partition and return its partial result.''
      | TaskKind.Reduce \<Rightarrow> ''Combine the partial results into one consistent result.''
      | TaskKind.Answer \<Rightarrow> ''Answer independently, without deferring to peers: '' @ focus
      | TaskKind.Critique \<Rightarrow>
          ''Find the weakest claim in the work on `'' @ focus @ ''` and say why.''
      | TaskKind.Verify \<Rightarrow>
          ''Check each claim against its stated evidence and flag unsupported ones.''
      | TaskKind.Judge \<Rightarrow>
          ''Compare the competing answers and choose the best-supported one, with reasons.''
      | TaskKind.Vote \<Rightarrow> ''Vote for the answer best supported by evidence, with a confidence.''
      | TaskKind.Merge \<Rightarrow>
          ''Merge the validated outputs, removing duplication and surfacing conflicts.''
      | TaskKind.Summarize \<Rightarrow> ''Summarise what the swarm established about: '' @ objective
      | TaskKind.Supervise \<Rightarrow>
          ''Assign the work for `'' @ focus @ ''` and state what good output looks like.'')"

definition task_title :: "Stage \<Rightarrow> string \<Rightarrow> string" where
  "task_title stage focus = st_label stage @ '' '' @ [CHR 0xC2, CHR 0xB7] @ '' '' @ focus"

definition slot_focus :: "string list \<Rightarrow> JobRequest \<Rightarrow> Stage \<Rightarrow> nat \<Rightarrow> string" where
  "slot_focus topics request stage slot =
     (if st_fanout stage = 1 then shorten (jr_objective request) 8
      else topics ! (slot mod length topics))"

definition slot_task ::
  "(uuid \<Rightarrow> string) \<Rightarrow> Job \<Rightarrow> u32 \<Rightarrow> string list \<Rightarrow> nat \<Rightarrow> Stage \<Rightarrow> TaskId list \<Rightarrow> TaskId \<Rightarrow> nat \<Rightarrow> TaskNode"
where
  "slot_task disp job complexity topics stage_index stage previous fresh_id slot =
     (let focus = slot_focus topics (j_request job) stage slot in
      with_validation (validation_for (st_kind stage))
        (with_complexity complexity
          (with_dependencies previous
            (new_task disp fresh_id (j_id job) (st_kind stage) (task_title stage focus)
              (describe stage focus (j_request job)) (word_of_nat stage_index)))))"

text \<open>The inner loop over the slots of a stage and the outer one over the stages.\<close>

fun insert_slots ::
  "'g petgraph \<Rightarrow> (TaskId \<Rightarrow> nat \<Rightarrow> TaskNode) \<Rightarrow> (nat \<Rightarrow> TaskId) \<Rightarrow> nat list \<Rightarrow> nat \<Rightarrow> TaskId list \<Rightarrow>
   'g TaskGraph \<Rightarrow> ('g TaskGraph \<times> nat \<times> TaskId list) result" where
  "insert_slots pg node fresh [] drawn current graph = Ok (graph, drawn, current)"
| "insert_slots pg node fresh (slot # slots) drawn current graph =
     (case insert_task pg (node (fresh drawn) slot) graph of
        (graph', Inl e) \<Rightarrow> Inl e
      | (graph', Inr i) \<Rightarrow> insert_slots pg node fresh slots (drawn + 1) (current @ [i]) graph')"

fun insert_stages ::
  "'g petgraph \<Rightarrow> (nat \<Rightarrow> Stage \<Rightarrow> TaskId list \<Rightarrow> TaskId \<Rightarrow> nat \<Rightarrow> TaskNode) \<Rightarrow> (nat \<Rightarrow> TaskId) \<Rightarrow>
   (nat \<times> Stage) list \<Rightarrow> nat \<Rightarrow> TaskId list \<Rightarrow> 'g TaskGraph \<Rightarrow> 'g TaskGraph result" where
  "insert_stages pg node fresh [] drawn previous graph = Ok graph"
| "insert_stages pg node fresh ((stage_index, stage) # plan) drawn previous graph =
     bindR (insert_slots pg (node stage_index stage previous) fresh [0..<st_fanout stage] drawn [] graph)
       (\<lambda>(graph', drawn', current). insert_stages pg node fresh plan drawn' current graph')"

definition widest_fanout :: "Stage list \<Rightarrow> nat" where
  "widest_fanout plan = (if plan = [] then 1 else Max (set (map st_fanout plan)))"

definition decompose ::
  "(string \<Rightarrow> string) \<Rightarrow> (uuid \<Rightarrow> string) \<Rightarrow> (nat \<Rightarrow> TaskId) \<Rightarrow> 'g petgraph \<Rightarrow> Job \<Rightarrow> 'g TaskGraph result"
where
  "decompose lower disp fresh pg job =
     (let request = j_request job;
          complexity = estimate_complexity lower (jr_objective request);
          fanout = max (jr_max_agents request) 1;
          plan = stages (jr_execution_strategy request) fanout;
          topics = subtopics lower (jr_objective request) (widest_fanout plan)
      in bindR (insert_stages pg (slot_task disp job complexity topics) fresh
                 (enumerate 0 plan) 0 [] (new_graph pg (j_id job)))
           (\<lambda>graph. bindR (assert_acyclic pg graph) (\<lambda>_. Ok graph)))"

section \<open>Subtopics are distinct and as many as asked for\<close>

lemma keep_topics_props:
  assumes "keep_topics lower wanted topics seen = (r, b)" "length seen < wanted"
    "distinct (map lower seen)"
  shows "distinct (map lower r) \<and> (if b then length r = wanted else length r < wanted)"
  using assms
proof (induction topics arbitrary: seen)
  case (Cons topic topics)
  let ?seen = "if list_ex (\<lambda>existing. lower existing = lower topic) seen then seen else seen @ [topic]"
  have d: "distinct (map lower ?seen)"
    using Cons.prems(3) by (auto simp: list_ex_iff)
  show ?case
  proof (cases "length ?seen = wanted")
    case True
    with Cons.prems(1) d show ?thesis by (simp only: keep_topics.simps Let_def if_True) auto
  next
    case False
    with Cons.prems(2) have "length ?seen < wanted" by (auto split: if_splits)
    moreover have "keep_topics lower wanted topics ?seen = (r, b)"
      using Cons.prems(1) False by (simp only: keep_topics.simps Let_def if_False)
    ultimately show ?thesis using Cons.IH d by blast
  qed
qed simp

lemma pad_props:
  "length seen \<le> wanted \<Longrightarrow> distinct seen \<Longrightarrow>
   length (pad stem wanted aspect seen) = wanted \<and> distinct (pad stem wanted aspect seen) \<and>
   prefix seen (pad stem wanted aspect seen)"
proof (induction stem wanted aspect seen rule: pad.induct)
  case (1 stem wanted aspect seen)
  let ?seen = "if aspect_text stem aspect \<in> set seen then seen else seen @ [aspect_text stem aspect]"
  show ?case
  proof (cases "length seen < wanted")
    case True
    have "length (pad stem wanted (aspect + 1) ?seen) = wanted \<and>
        distinct (pad stem wanted (aspect + 1) ?seen) \<and> prefix ?seen (pad stem wanted (aspect + 1) ?seen)"
      by (rule "1.IH" [OF True refl]) (use True "1.prems" in auto)
    moreover have "prefix seen ?seen" by simp
    moreover have "pad stem wanted aspect seen = pad stem wanted (aspect + 1) ?seen"
      using True by (subst pad.simps) (simp add: Let_def)
    ultimately show ?thesis by (metis prefix_order.trans)
  qed (use "1.prems" in \<open>simp add: pad.simps\<close>)
qed

lemma subtopics_props:
  assumes "0 < wanted"
  shows "length (subtopics lower objective wanted) = wanted" "distinct (subtopics lower objective wanted)"
proof -
  obtain r b where r: "keep_topics lower wanted (remdups_adj (clause_topics objective)) [] = (r, b)"
    by fastforce
  with keep_topics_props [OF r] assms have "distinct (map lower r)" "if b then length r = wanted else length r < wanted"
    by simp_all
  then show "length (subtopics lower objective wanted) = wanted" "distinct (subtopics lower objective wanted)"
    using r pad_props [of r wanted "shorten objective 6" 1] distinct_map [of lower r]
    by (auto simp: subtopics_def split: bool.split if_splits)
qed

section \<open>Shape of a plan\<close>

lemma new_stage_fanout [simp]: "st_fanout (new_stage kind f label) = max f 1"
  by (simp add: new_stage_def)

lemma stages_fanout:
  assumes "stage \<in> set (stages strategy f)"
  shows "1 \<le> st_fanout stage" "st_fanout stage \<le> max f 1"
  using assms by (cases strategy; auto simp: stages.simps Let_def)+

lemma stages_length: "3 \<le> length (stages strategy f) \<and> length (stages strategy f) \<le> 6"
  by (cases strategy) (auto simp: stages.simps Let_def)

lemma stages_nonempty [simp]: "stages strategy f \<noteq> []"
  using stages_length [of strategy f] by auto

lemma widest_fanout_ge: "stage \<in> set plan \<Longrightarrow> st_fanout stage \<le> widest_fanout plan"
  by (auto simp: widest_fanout_def)

lemma widest_fanout_pos: "0 < widest_fanout (stages strategy f)"
  using stages_fanout(1) [of "hd (stages strategy f)"] widest_fanout_ge [of "hd (stages strategy f)"]
  by (metis hd_in_set less_le_trans less_one not_le stages_nonempty zero_less_iff_neq_zero)

section \<open>The reference plan\<close>

text \<open>
  Where the tasks of stage \<open>k\<close> begin among all tasks, their identifiers, and the task that slot
  \<open>slot\<close> of stage \<open>k\<close> must be: it depends on every task of the previous stage and on nothing else.
\<close>

definition stage_start :: "Stage list \<Rightarrow> nat \<Rightarrow> nat" where
  "stage_start plan k = sum_list (map st_fanout (take k plan))"

definition stage_ids :: "(nat \<Rightarrow> TaskId) \<Rightarrow> Stage list \<Rightarrow> nat \<Rightarrow> TaskId list" where
  "stage_ids fresh plan k = map fresh [stage_start plan k..<stage_start plan (Suc k)]"

definition waits_on :: "(nat \<Rightarrow> TaskId) \<Rightarrow> Stage list \<Rightarrow> nat \<Rightarrow> TaskId list" where
  "waits_on fresh plan k = (if k = 0 then [] else stage_ids fresh plan (k - 1))"

definition planned_stage ::
  "(nat \<Rightarrow> Stage \<Rightarrow> TaskId list \<Rightarrow> TaskId \<Rightarrow> nat \<Rightarrow> TaskNode) \<Rightarrow> (nat \<Rightarrow> TaskId) \<Rightarrow> Stage list \<Rightarrow> nat \<Rightarrow>
   TaskNode list" where
  "planned_stage node fresh plan k =
     map (\<lambda>slot. node k (plan ! k) (waits_on fresh plan k) (fresh (stage_start plan k + slot)) slot)
       [0..<st_fanout (plan ! k)]"

definition planned ::
  "(nat \<Rightarrow> Stage \<Rightarrow> TaskId list \<Rightarrow> TaskId \<Rightarrow> nat \<Rightarrow> TaskNode) \<Rightarrow> (nat \<Rightarrow> TaskId) \<Rightarrow> Stage list \<Rightarrow> TaskNode list"
where
  "planned node fresh plan = concat (map (planned_stage node fresh plan) [0..<length plan])"

lemma stage_start_0 [simp]: "stage_start plan 0 = 0"
  by (simp add: stage_start_def)

lemma stage_start_Suc: "k < length plan \<Longrightarrow> stage_start plan (Suc k) = stage_start plan k + st_fanout (plan ! k)"
  by (simp add: stage_start_def take_Suc_conv_app_nth)

lemma stage_start_mono: "j \<le> k \<Longrightarrow> stage_start plan j \<le> stage_start plan k"
  using take_add [of j "k - j" plan] by (simp add: stage_start_def)

section \<open>Compilation follows the reference\<close>

text \<open>A graph whose tasks are exactly those that carry the identifiers drawn so far.\<close>

definition holds_drawn :: "'g petgraph \<Rightarrow> (nat \<Rightarrow> TaskId) \<Rightarrow> nat \<Rightarrow> 'g TaskGraph \<Rightarrow> bool" where
  "holds_drawn pg fresh drawn graph \<longleftrightarrow>
     graph_inv pg graph \<and> dom (map_of (tg_nodes graph)) = fresh ` {..<drawn}"

context petgraph_laws
begin

lemma insert_slots_effect:
  assumes "holds_drawn pg fresh drawn graph" "inj_on fresh {..<drawn + length slots}"
    "\<And>i s. tn_id (node i s) = i" "\<And>i s. tn_dependencies (node i s) = previous"
    "set previous \<subseteq> fresh ` {..<drawn}"
  shows "\<exists>graph'. insert_slots pg node fresh slots drawn current graph =
      Ok (graph', drawn + length slots, current @ map fresh [drawn..<drawn + length slots]) \<and>
    holds_drawn pg fresh (drawn + length slots) graph' \<and> tg_job_id graph' = tg_job_id graph \<and>
    hm_values (tg_nodes graph') = hm_values (tg_nodes graph) @
      map (\<lambda>k. node (fresh (drawn + k)) (slots ! k)) [0..<length slots]"
  using assms
proof (induction slots arbitrary: drawn current graph)
  case (Cons slot slots)
  let ?n = "node (fresh drawn) slot"
  have "fresh drawn \<notin> fresh ` {..<drawn}"
    using inj_on_contraD [OF Cons.prems(2), of drawn] by fastforce
  then have new: "map_of (tg_nodes graph) (tn_id ?n) = None"
    using Cons.prems(1,3) unfolding holds_drawn_def by (metis domIff)
  have deps: "\<forall>d \<in> set (tn_dependencies ?n). map_of (tg_nodes graph) d \<noteq> None"
    using Cons.prems(1,4,5) unfolding holds_drawn_def by auto
  have inv: "graph_inv pg graph" using Cons.prems(1) by (simp add: holds_drawn_def)
  from insert_task_Ok [OF inv new deps] obtain g where
    g: "insert_task pg ?n graph = (g, Ok (fresh drawn))" "tg_job_id g = tg_job_id graph"
      "tg_nodes g = tg_nodes graph @ [(fresh drawn, ?n)]"
    using Cons.prems(3) new by (auto simp: hm_update_fresh)
  have "holds_drawn pg fresh (Suc drawn) g"
    using insert_task_inv [OF inv, of ?n] g new Cons.prems(1,3)
    by (auto simp: holds_drawn_def lessThan_Suc map_of_append dom_map_of_conv_image_fst)
  moreover have "inj_on fresh {..<Suc drawn + length slots}" "set previous \<subseteq> fresh ` {..<Suc drawn}"
    using Cons.prems(2,5) by auto
  ultimately obtain graph' where
    "insert_slots pg node fresh slots (Suc drawn) (current @ [fresh drawn]) g =
      Ok (graph', Suc drawn + length slots,
        (current @ [fresh drawn]) @ map fresh [Suc drawn..<Suc drawn + length slots])"
    "holds_drawn pg fresh (Suc drawn + length slots) graph'" "tg_job_id graph' = tg_job_id g"
    "hm_values (tg_nodes graph') = hm_values (tg_nodes g) @
      map (\<lambda>k. node (fresh (Suc drawn + k)) (slots ! k)) [0..<length slots]"
    using Cons.IH [OF _ _ Cons.prems(3,4), of "Suc drawn" g "current @ [fresh drawn]"] by blast
  moreover have "map fresh [drawn..<Suc (drawn + length slots)] =
      fresh drawn # map fresh [Suc drawn..<Suc (drawn + length slots)]"
    by (simp add: upt_conv_Cons del: upt_Suc)
  ultimately show ?case
    using g by (intro exI [of _ graph']) (simp add: map_upt_Suc del: upt_Suc)
qed simp

lemma insert_stages_effect:
  assumes "k \<le> length plan" "holds_drawn pg fresh (stage_start plan k) graph"
    "inj_on fresh {..<stage_start plan (length plan)}"
    "\<And>k st ds i s. tn_id (node k st ds i s) = i"
    "\<And>k st ds i s. tn_dependencies (node k st ds i s) = ds"
  shows "\<exists>graph'. insert_stages pg node fresh (drop k (enumerate 0 plan)) (stage_start plan k)
      (waits_on fresh plan k) graph = Ok graph' \<and>
    holds_drawn pg fresh (stage_start plan (length plan)) graph' \<and>
    tg_job_id graph' = tg_job_id graph \<and>
    hm_values (tg_nodes graph') = hm_values (tg_nodes graph) @
      concat (map (planned_stage node fresh plan) [k..<length plan])"
  using assms
proof (induction "length plan - k" arbitrary: k graph)
  case (Suc m)
  then have k: "k < length plan" by linarith
  let ?st = "plan ! k" and ?d = "stage_start plan k"
  have le: "?d + st_fanout ?st \<le> stage_start plan (length plan)"
    using stage_start_mono [of "Suc k" "length plan" plan] k by (simp add: stage_start_Suc)
  have waits: "set (waits_on fresh plan k) \<subseteq> fresh ` {..<?d}"
    by (cases k) (auto simp: waits_on_def stage_ids_def)
  have "inj_on fresh {..<?d + length [0..<st_fanout ?st]}"
    using Suc.prems(3) le by (auto intro: inj_on_subset)
  from insert_slots_effect [OF Suc.prems(2) this, of "node k ?st (waits_on fresh plan k)" _ "[]"]
    waits Suc.prems(4,5) obtain g where
    g: "insert_slots pg (node k ?st (waits_on fresh plan k)) fresh [0..<st_fanout ?st] ?d [] graph =
        Ok (g, stage_start plan (Suc k), waits_on fresh plan (Suc k))"
      "holds_drawn pg fresh (stage_start plan (Suc k)) g" "tg_job_id g = tg_job_id graph"
      "hm_values (tg_nodes g) = hm_values (tg_nodes graph) @ planned_stage node fresh plan k"
    by (fastforce simp: stage_start_Suc [OF k] waits_on_def stage_ids_def planned_stage_def)
  have "m = length plan - Suc k" using Suc.hyps(2) by simp
  from Suc.hyps(1) [OF this _ g(2)] k Suc.prems(3-5) obtain graph' where
    "insert_stages pg node fresh (drop (Suc k) (enumerate 0 plan)) (stage_start plan (Suc k))
      (waits_on fresh plan (Suc k)) g = Ok graph'"
    "holds_drawn pg fresh (stage_start plan (length plan)) graph'" "tg_job_id graph' = tg_job_id g"
    "hm_values (tg_nodes graph') = hm_values (tg_nodes g) @
      concat (map (planned_stage node fresh plan) [Suc k..<length plan])"
    by auto
  moreover have "drop k (enumerate 0 plan) = (k, ?st) # drop (Suc k) (enumerate 0 plan)"
    using k by (simp add: Cons_nth_drop_Suc [symmetric] nth_enumerate_eq)
  ultimately show ?case
    using g k by (intro exI [of _ graph']) (simp add: upt_conv_Cons)
qed simp

end

section \<open>Properties\<close>

definition job_plan :: "Job \<Rightarrow> Stage list" where
  "job_plan job = stages (jr_execution_strategy (j_request job)) (max (jr_max_agents (j_request job)) 1)"

definition job_topics :: "(string \<Rightarrow> string) \<Rightarrow> Job \<Rightarrow> string list" where
  "job_topics lower job =
     subtopics lower (jr_objective (j_request job)) (widest_fanout (job_plan job))"

definition job_tasks ::
  "(string \<Rightarrow> string) \<Rightarrow> (uuid \<Rightarrow> string) \<Rightarrow> (nat \<Rightarrow> TaskId) \<Rightarrow> Job \<Rightarrow> TaskNode list" where
  "job_tasks lower disp fresh job =
     planned (slot_task disp job (estimate_complexity lower (jr_objective (j_request job)))
       (job_topics lower job)) fresh (job_plan job)"

lemma slot_task_fields [simp]:
  "tn_id (slot_task disp job c topics k st ds i s) = i"
  "tn_dependencies (slot_task disp job c topics k st ds i s) = ds"
  "tn_stage (slot_task disp job c topics k st ds i s) = word_of_nat k"
  "tn_kind (slot_task disp job c topics k st ds i s) = st_kind st"
  "tn_job_id (slot_task disp job c topics k st ds i s) = j_id job"
  "tn_state (slot_task disp job c topics k st ds i s) = TaskState.Created"
  "tn_attempt (slot_task disp job c topics k st ds i s) = 0"
  "tn_title (slot_task disp job c topics k st ds i s) =
     task_title st (slot_focus topics (j_request job) st s)"
  by (simp_all add: slot_task_def with_validation_def with_complexity_def with_dependencies_def
      new_task_def Let_def)

lemma decompose_tasks:
  assumes pg: "petgraph_laws pg" and inj: "inj_on fresh {..<stage_start (job_plan job) (length (job_plan job))}"
  shows "\<exists>graph. decompose lower disp fresh pg job = Ok graph \<and> graph_inv pg graph \<and>
    tg_job_id graph = j_id job \<and> hm_values (tg_nodes graph) = job_tasks lower disp fresh job"
proof -
  let ?node = "slot_task disp job (estimate_complexity lower (jr_objective (j_request job))) (job_topics lower job)"
  have "holds_drawn pg fresh 0 (new_graph pg (j_id job))"
    using new_graph_inv [OF pg, of "j_id job"] by (simp add: holds_drawn_def new_graph_def)
  then obtain graph where
    g: "insert_stages pg ?node fresh (enumerate 0 (job_plan job)) 0 [] (new_graph pg (j_id job)) = Ok graph"
      "graph_inv pg graph" "tg_job_id graph = j_id job"
      "hm_values (tg_nodes graph) = job_tasks lower disp fresh job"
    using petgraph_laws.insert_stages_effect [OF pg, of 0 "job_plan job" fresh "new_graph pg (j_id job)" ?node] inj
    by (auto simp: holds_drawn_def waits_on_def new_graph_def job_tasks_def planned_def)
  moreover have "assert_acyclic pg graph = Ok ()"
    using petgraph_laws.assert_acyclic_iff [OF pg] graph_invD(6,7) [OF g(2)] by blast
  ultimately show ?thesis
    by (intro exI [of _ graph]) (simp add: decompose_def Let_def job_plan_def job_topics_def)
qed

lemma distinct_grid:
  assumes "\<And>k s k' s'. k < n \<Longrightarrow> s < m k \<Longrightarrow> k' < n \<Longrightarrow> s' < m k' \<Longrightarrow> f k s = f k' s' \<Longrightarrow> k = k' \<and> s = s'"
  shows "distinct (concat (map (\<lambda>k. map (f k) [0..<m k]) [0..<n]))"
  using assms
proof (induction n)
  case (Suc n)
  have "distinct (concat (map (\<lambda>k. map (f k) [0..<m k]) [0..<n]))"
    using Suc.prems by (intro Suc.IH) (meson less_SucI)
  moreover have "inj_on (f n) {0..<m n}"
    using Suc.prems [of n _ n] by (auto intro!: inj_onI)
  moreover have "f k s \<noteq> f n s'" if "k < n" "s < m k" "s' < m n" for k s s'
    using Suc.prems [of k s n s'] that by auto
  ultimately show ?case
    by (fastforce simp: distinct_map)
qed simp

lemma word_of_nat_inject:
  "a < 2 ^ LENGTH('a) \<Longrightarrow> b < 2 ^ LENGTH('a) \<Longrightarrow> (word_of_nat a :: 'a::len word) = word_of_nat b \<longleftrightarrow> a = b"
  by (simp add: word_of_nat_eq_iff take_bit_nat_eq_self)

lemma slot_task_key:
  assumes "tn_idempotency_key (slot_task disp job c topics k st ds i s) =
    tn_idempotency_key (slot_task disp job c topics k' st' ds' i' s')"
  shows "(word_of_nat k :: u32) = word_of_nat k'"
    "stable_hash (tn_title (slot_task disp job c topics k st ds i s)) =
     stable_hash (tn_title (slot_task disp job c topics k' st' ds' i' s'))"
  using assms unfolding slot_task_fields
  by (simp_all add: slot_task_def with_validation_def with_complexity_def with_dependencies_def
      new_task_def Let_def append_sep_inject_first colon_free slug_colon_free dec_inject
      kind_as_str_inject hex16_inject word_unat_eq_iff)

lemma slot_title_inject:
  assumes "stage \<in> set (job_plan job)" "s < st_fanout stage" "s' < st_fanout stage"
    "task_title stage (slot_focus (job_topics lower job) (j_request job) stage s) =
     task_title stage (slot_focus (job_topics lower job) (j_request job) stage s')"
  shows "s = s'"
proof (cases "st_fanout stage = 1")
  case False
  let ?w = "widest_fanout (job_plan job)"
  have w: "0 < ?w" unfolding job_plan_def by (rule widest_fanout_pos)
  have lt: "s < ?w" "s' < ?w" using widest_fanout_ge [OF assms(1)] assms(2,3) by linarith+
  from assms(4) False have "job_topics lower job ! (s mod length (job_topics lower job)) =
      job_topics lower job ! (s' mod length (job_topics lower job))"
    by (simp add: task_title_def slot_focus_def)
  then show ?thesis
    using subtopics_props [OF w] lt unfolding job_topics_def by (simp add: nth_eq_iff_index_eq)
qed (use assms(2,3) in simp)

lemma job_tasks_grid:
  "map f (job_tasks lower disp fresh job) =
     concat (map (\<lambda>k. map (\<lambda>s. f (slot_task disp job
         (estimate_complexity lower (jr_objective (j_request job))) (job_topics lower job) k
         (job_plan job ! k) (waits_on fresh (job_plan job) k) (fresh (stage_start (job_plan job) k + s)) s))
       [0..<st_fanout (job_plan job ! k)]) [0..<length (job_plan job)])"
  by (simp add: job_tasks_def planned_def planned_stage_def map_concat comp_def)


definition sample_job :: Job where
  "sample_job = new_job 5 6 0 ((new_job_request ''Explain Raft'')\<lparr>jr_max_agents := 2\<rparr>)"

lemma sample_job_plan:
  "job_plan sample_job =
     [new_stage TaskKind.Plan 1 ''Plan'', new_stage TaskKind.Work 2 ''Investigate'',
      new_stage TaskKind.Merge 1 ''Merge'']"
  by (simp add: job_plan_def sample_job_def new_job_def new_job_request_def stages.simps
      numeral_2_eq_2)

lemma sample_job_start: "stage_start (job_plan sample_job) (length (job_plan sample_job)) = 4"
  by (simp add: sample_job_plan stage_start_def)

lemma small_ids_inj: "inj_on (word_of_nat :: nat \<Rightarrow> TaskId) {..<4}"
  by (rule inj_onI) (simp add: word_of_nat_inject)


text \<open>
  C37: no two tasks of a compiled job share an idempotency key (the queue would drop the second as a
  duplicate), as long as the 64-bit title hash does not collide on the titles of the job: the
  subtopics of a stage are as many as its slots and pairwise different, and the stage number is part
  of the key.
\<close>

theorem idempotency_keys_unique:
  assumes "petgraph_laws pg" "inj_on fresh {..<stage_start (job_plan job) (length (job_plan job))}"
    "inj_on stable_hash (set (map tn_title (job_tasks lower disp fresh job)))"
    "decompose lower disp fresh pg job = Ok graph"
  shows "distinct (map tn_idempotency_key (hm_values (tg_nodes graph)))"
proof -
  let ?plan = "job_plan job"
  let ?t = "\<lambda>k s. slot_task disp job (estimate_complexity lower (jr_objective (j_request job)))
    (job_topics lower job) k (?plan ! k) (waits_on fresh ?plan k) (fresh (stage_start ?plan k + s)) s"
  have mem: "tn_title (?t k s) \<in> set (map tn_title (job_tasks lower disp fresh job))"
    if "k < length ?plan" "s < st_fanout (?plan ! k)" for k s
  proof -
    have "?t k s \<in> set (job_tasks lower disp fresh job)"
      using that unfolding job_tasks_def planned_def planned_stage_def by (force simp: image_iff)
    then show ?thesis unfolding set_map by (rule imageI)
  qed
  have "k = k' \<and> s = s'"
    if ks: "k < length ?plan" "s < st_fanout (?plan ! k)" "k' < length ?plan" "s' < st_fanout (?plan ! k')"
      and eq: "tn_idempotency_key (?t k s) = tn_idempotency_key (?t k' s')" for k s k' s'
  proof -
    have "length ?plan \<le> 6" using stages_length unfolding job_plan_def by blast
    then have "k < 2 ^ 32" "k' < 2 ^ 32" using ks by auto
    with slot_task_key(1) [OF eq] have k: "k' = k"
      by (simp add: word_of_nat_inject)
    have "tn_title (?t k s) = tn_title (?t k' s')"
      by (rule inj_onD [OF assms(3) slot_task_key(2) [OF eq] mem mem]) (use ks in simp_all)
    with slot_title_inject [of "?plan ! k" job s s' lower] ks k show ?thesis by simp
  qed
  then have "distinct (map tn_idempotency_key (job_tasks lower disp fresh job))"
    unfolding job_tasks_grid by (rule distinct_grid)
  then show ?thesis using decompose_tasks [OF assms(1,2), of lower disp] assms(4) by auto
qed

lemma sample_topics:
  "job_topics id sample_job = [''Explain Raft'', aspect_text ''Explain Raft'' 1]"
proof -
  have "widest_fanout (job_plan sample_job) = 2"
    unfolding sample_job_plan by (simp add: widest_fanout_def new_stage_def)
  moreover have "jr_objective (j_request sample_job) = ''Explain Raft''"
    by (simp add: sample_job_def new_job_def new_job_request_def)
  moreover have "subtopics id ''Explain Raft'' 2 = [''Explain Raft'', aspect_text ''Explain Raft'' 1]"
    by code_simp
  ultimately show ?thesis by (simp add: job_topics_def)
qed

definition sample_titles :: "string list" where
  "sample_titles =
     [task_title (new_stage TaskKind.Plan 1 ''Plan'') ''Explain Raft'',
      task_title (new_stage TaskKind.Work 2 ''Investigate'') ''Explain Raft'',
      task_title (new_stage TaskKind.Work 2 ''Investigate'') (aspect_text ''Explain Raft'' 1),
      task_title (new_stage TaskKind.Merge 1 ''Merge'') ''Explain Raft'']"

lemma sample_job_titles:
  "map tn_title (job_tasks id (\<lambda>u. ''j'') word_of_nat sample_job) = sample_titles"
proof -
  have "shorten (jr_objective (j_request sample_job)) 8 = ''Explain Raft''" by code_simp
  then show ?thesis
    unfolding job_tasks_grid sample_job_plan sample_topics slot_task_fields sample_titles_def
    by (simp add: slot_focus_def numeral_2_eq_2)
qed

lemma sample_titles_hash: "distinct (map stable_hash sample_titles)"
  by code_simp

theorem idempotency_keys_unique_witness:
  "\<exists>graph. decompose id (\<lambda>u. ''j'') word_of_nat list_pg sample_job = Ok graph \<and>
     distinct (map tn_idempotency_key (hm_values (tg_nodes graph)))"
proof -
  have inj: "inj_on (word_of_nat :: nat \<Rightarrow> TaskId)
      {..<stage_start (job_plan sample_job) (length (job_plan sample_job))}"
    unfolding sample_job_start by (rule small_ids_inj)
  have hash: "inj_on stable_hash (set (map tn_title (job_tasks id (\<lambda>u. ''j'') word_of_nat sample_job)))"
    unfolding sample_job_titles using sample_titles_hash distinct_map by blast
  from decompose_tasks [OF list_pg.petgraph_laws_axioms inj, of id "\<lambda>u. ''j''"] show ?thesis
    using idempotency_keys_unique [OF list_pg.petgraph_laws_axioms inj hash] by blast
qed

end
