(* ===== verification/Schedule.thy ===== *)
theory Schedule
  imports TaskModel
begin

text \<open>
  Placing tasks on agents (\<open>crates/coordinator/src/schedule.rs\<close>): the four strategies behind the
  \<open>Scheduler\<close> trait. A strategy with interior mutability (the atomic counter of \<open>RoundRobin\<close>, the
  mutexes of \<open>Adaptive\<close>) is a state that \<open>select\<close> and \<open>observe\<close> return updated; \<open>f32\<close> scores and
  weights are real numbers, so \<open>total_cmp\<close> is their order. The trait's contract is the locale
  \<open>scheduler\<close>, which every strategy, and the dispatch over them, interprets.
\<close>

section \<open>Model\<close>

datatype SchedulerKind = RoundRobin | LeastLoaded | CapabilityWeighted | Adaptive

definition all_scheduler_kinds :: "SchedulerKind list" where
  "all_scheduler_kinds =
     [SchedulerKind.RoundRobin, SchedulerKind.LeastLoaded, SchedulerKind.CapabilityWeighted,
      SchedulerKind.Adaptive]"

record SchedulingOutcome =
  so_agent_id :: AgentId
  so_succeeded :: bool
  so_latency_ms :: u64
  so_queue_wait_ms :: u64

definition candidates :: "TaskNode \<Rightarrow> AgentDescriptor list \<Rightarrow> AgentDescriptor list" where
  "candidates task agents =
     filter (\<lambda>agent. is_available agent \<and> supports agent (tn_required_capabilities task)) agents"

record Weights =
  w_load :: real
  w_reliability :: real
  w_latency :: real
  w_specificity :: real

definition default_weights :: Weights where
  "default_weights = \<lparr>w_load = 1, w_reliability = 1, w_latency = 1 / 2, w_specificity = 1 / 2\<rparr>"

definition score :: "AgentDescriptor \<Rightarrow> TaskNode \<Rightarrow> Weights \<Rightarrow> real" where
  "score agent task weights =
     (let idleness = 1 - clamp 0 1 (ad_current_load agent);
          speed = 1000 / (1000 + real (unat (ad_average_latency_ms agent)));
          extra = real (length (ad_capabilities agent) - length (tn_required_capabilities task));
          specificity = 1 / (1 + extra)
      in w_load weights * idleness
       + w_reliability weights * clamp 0 1 (ad_success_rate agent)
       + w_latency weights * speed
       + w_specificity weights * specificity)"

text \<open>\<open>RoundRobin\<close>: \<open>fetch_add\<close> wraps at 64 bits; it runs only when there is a candidate.\<close>

type_synonym RoundRobinState = u64

definition round_robin_select ::
  "RoundRobinState \<Rightarrow> TaskNode \<Rightarrow> AgentDescriptor list \<Rightarrow> RoundRobinState \<times> AgentId option" where
  "round_robin_select counter task agents =
     (let cs = candidates task agents in
      if cs = [] then (counter, None)
      else (counter + 1, Some (ad_id (cs ! (unat counter mod length cs)))))"

definition least_loaded_key :: "AgentDescriptor \<Rightarrow> real \<times> u64" where
  "least_loaded_key agent = (ad_current_load agent, ad_average_latency_ms agent)"

definition least_loaded_select :: "TaskNode \<Rightarrow> AgentDescriptor list \<Rightarrow> AgentId option" where
  "least_loaded_select task agents =
     map_option ad_id
       (min_by (\<lambda>left right. least_loaded_key right < least_loaded_key left) (candidates task agents))"

definition weighted_select :: "Weights \<Rightarrow> TaskNode \<Rightarrow> AgentDescriptor list \<Rightarrow> AgentId option" where
  "weighted_select weights task agents =
     map_option ad_id
       (max_by (\<lambda>left right. score right task weights < score left task weights)
         (candidates task agents))"

record AdaptiveState =
  as_weights :: Weights
  as_observed_success :: real
  as_observed_queue_wait_ms :: real

definition default_adaptive :: AdaptiveState where
  "default_adaptive =
     \<lparr>as_weights = default_weights, as_observed_success = 1, as_observed_queue_wait_ms = 0\<rparr>"

definition adaptive_select ::
  "AdaptiveState \<Rightarrow> TaskNode \<Rightarrow> AgentDescriptor list \<Rightarrow> AgentId option" where
  "adaptive_select s task agents =
     (let weights = as_weights s in
      map_option ad_id
        (max_by (\<lambda>left right. score right task weights < score left task weights)
          (candidates task agents)))"

definition adaptive_observe :: "SchedulingOutcome \<Rightarrow> AdaptiveState \<Rightarrow> AdaptiveState" where
  "adaptive_observe outcome s =
     (let alpha = 1 / 5;
          success_rate = (1 - alpha) * as_observed_success s +
                         alpha * (if so_succeeded outcome then 1 else 0);
          queue_wait = (1 - alpha) * as_observed_queue_wait_ms s +
                       alpha * real (unat (so_queue_wait_ms outcome));
          weights = as_weights s
      in s\<lparr>as_observed_success := success_rate,
           as_observed_queue_wait_ms := queue_wait,
           as_weights := weights\<lparr>w_reliability := 1 + (1 - success_rate) * 3,
                                 w_load := 1 + min (queue_wait / 1000) 2,
                                 w_latency := 1 / 2 + min (1 - success_rate) (1 / 2)\<rparr>\<rparr>)"

text \<open>A boxed scheduler, and the dispatch of the trait's methods.\<close>

datatype Scheduler =
  RoundRobinS RoundRobinState
| LeastLoadedS
| CapabilityWeightedS Weights
| AdaptiveS AdaptiveState

fun build_scheduler :: "SchedulerKind \<Rightarrow> Scheduler" where
  "build_scheduler SchedulerKind.RoundRobin = RoundRobinS 0"
| "build_scheduler SchedulerKind.LeastLoaded = LeastLoadedS"
| "build_scheduler SchedulerKind.CapabilityWeighted = CapabilityWeightedS default_weights"
| "build_scheduler SchedulerKind.Adaptive = AdaptiveS default_adaptive"

fun scheduler_name :: "Scheduler \<Rightarrow> string" where
  "scheduler_name (RoundRobinS n) = ''round_robin''"
| "scheduler_name LeastLoadedS = ''least_loaded''"
| "scheduler_name (CapabilityWeightedS w) = ''capability_weighted''"
| "scheduler_name (AdaptiveS s) = ''adaptive''"

fun select_agent ::
  "Scheduler \<Rightarrow> TaskNode \<Rightarrow> AgentDescriptor list \<Rightarrow> Scheduler \<times> AgentId option" where
  "select_agent (RoundRobinS n) task agents =
     (let (n', r) = round_robin_select n task agents in (RoundRobinS n', r))"
| "select_agent LeastLoadedS task agents = (LeastLoadedS, least_loaded_select task agents)"
| "select_agent (CapabilityWeightedS w) task agents =
     (CapabilityWeightedS w, weighted_select w task agents)"
| "select_agent (AdaptiveS s) task agents = (AdaptiveS s, adaptive_select s task agents)"

fun observe :: "SchedulingOutcome \<Rightarrow> Scheduler \<Rightarrow> Scheduler" where
  "observe outcome (AdaptiveS s) = AdaptiveS (adaptive_observe outcome s)"
| "observe outcome s = s"

fun scheduler_weights :: "Scheduler \<Rightarrow> Weights" where
  "scheduler_weights (CapabilityWeightedS w) = w"
| "scheduler_weights (AdaptiveS s) = as_weights s"
| "scheduler_weights s = default_weights"

section \<open>The contract of a scheduler\<close>

definition can_run :: "TaskNode \<Rightarrow> AgentDescriptor \<Rightarrow> bool" where
  "can_run task agent \<longleftrightarrow>
     is_available agent \<and> set (tn_required_capabilities task) \<subseteq> set (ad_capabilities agent)"

lemma candidates_can_run: "candidates task agents = filter (can_run task) agents"
  by (simp add: candidates_def can_run_def [abs_def] supports_def list_all_iff subset_eq)

lemma candidates_iff: "a \<in> set (candidates task agents) \<longleftrightarrow> a \<in> set agents \<and> can_run task a"
  by (auto simp: candidates_can_run)

lemma candidates_empty: "candidates task agents = [] \<longleftrightarrow> (\<forall>a \<in> set agents. \<not> can_run task a)"
  by (auto simp: candidates_can_run filter_empty_conv)

locale scheduler =
  fixes pick_for :: "'s \<Rightarrow> TaskNode \<Rightarrow> AgentDescriptor list \<Rightarrow> 's \<times> AgentId option"
  assumes choice_fits:
      "snd (pick_for s task agents) = Some i \<Longrightarrow>
       \<exists>a \<in> set agents. ad_id a = i \<and> can_run task a"
    and choice_made:
      "a \<in> set agents \<Longrightarrow> can_run task a \<Longrightarrow> snd (pick_for s task agents) \<noteq> None"
begin

lemma no_choice_iff: "snd (pick_for s task agents) = None \<longleftrightarrow> (\<forall>a \<in> set agents. \<not> can_run task a)"
  using choice_made choice_fits by (metis not_None_eq)

lemma no_agents: "snd (pick_for s task []) = None"
  by (simp add: no_choice_iff)

lemma busy_agents_ignored:
  assumes "\<And>a. a \<in> set agents \<Longrightarrow> \<not> is_available a"
  shows "snd (pick_for s task agents) = None"
  using assms by (auto simp: no_choice_iff can_run_def)

text \<open>With distinct agent identifiers, the chosen identifier names an agent that fits.\<close>

lemma choice_unique:
  assumes "snd (pick_for s task agents) = Some i" "distinct (map ad_id agents)"
    and "a \<in> set agents" "ad_id a = i"
  shows "can_run task a"
  using assms choice_fits [OF assms(1)] by (metis inj_on_eq_iff distinct_map)

end

lemma round_robin_choice:
  "snd (round_robin_select n task agents) = Some i \<Longrightarrow>
   \<exists>a \<in> set (candidates task agents). ad_id a = i"
  by (auto simp: round_robin_select_def Let_def split: if_splits intro!: bexI nth_mem)

lemma least_loaded_choice:
  assumes "least_loaded_select task agents = Some i"
  shows "\<exists>a \<in> set (candidates task agents). ad_id a = i \<and>
    (\<forall>b \<in> set (candidates task agents). least_loaded_key a \<le> least_loaded_key b)"
  using assms by (force simp: least_loaded_select_def dest: min_by_in min_by_key_min)

lemma weighted_choice:
  assumes "weighted_select w task agents = Some i"
  shows "\<exists>a \<in> set (candidates task agents). ad_id a = i \<and>
    (\<forall>b \<in> set (candidates task agents). score b task w \<le> score a task w)"
  using assms
  by (force simp: weighted_select_def dest: max_by_in max_by_key_max [of "\<lambda>x. score x task w"])

lemma adaptive_is_weighted: "adaptive_select s = weighted_select (as_weights s)"
  by (intro ext) (simp add: adaptive_select_def weighted_select_def Let_def)

interpretation round_robin: scheduler round_robin_select
proof
  fix s task agents i
  assume "snd (round_robin_select s task agents) = Some i"
  then show "\<exists>a \<in> set agents. ad_id a = i \<and> can_run task a"
    by (auto dest!: round_robin_choice simp: candidates_iff)
qed (auto simp: round_robin_select_def Let_def candidates_empty)

interpretation least_loaded: scheduler "\<lambda>s task agents. (s, least_loaded_select task agents)"
proof
  fix s task agents i
  assume "snd (s, least_loaded_select task agents) = Some i"
  then show "\<exists>a \<in> set agents. ad_id a = i \<and> can_run task a"
    using least_loaded_choice by (fastforce simp: candidates_iff)
qed (auto simp: least_loaded_select_def candidates_empty)

interpretation weighted: scheduler "\<lambda>w task agents. (w, weighted_select w task agents)"
proof
  fix s task agents i
  assume "snd (s, weighted_select s task agents) = Some i"
  then show "\<exists>a \<in> set agents. ad_id a = i \<and> can_run task a"
    using weighted_choice by (fastforce simp: candidates_iff)
qed (auto simp: weighted_select_def candidates_empty)

interpretation adaptive: scheduler "\<lambda>s task agents. (s, adaptive_select s task agents)"
  using weighted.choice_fits weighted.choice_made
  by unfold_locales (simp_all add: adaptive_is_weighted)

lemma select_agent_cases:
  "snd (select_agent s task agents) =
     (case s of
        RoundRobinS n \<Rightarrow> snd (round_robin_select n task agents)
      | LeastLoadedS \<Rightarrow> least_loaded_select task agents
      | CapabilityWeightedS w \<Rightarrow> weighted_select w task agents
      | AdaptiveS a \<Rightarrow> weighted_select (as_weights a) task agents)"
  by (cases s) (simp_all add: adaptive_is_weighted split: prod.splits)

interpretation boxed: scheduler select_agent
proof
  fix s task agents i
  assume sel: "snd (select_agent s task agents) = Some i"
  show "\<exists>a \<in> set agents. ad_id a = i \<and> can_run task a"
  proof (cases s)
    case (RoundRobinS n)
    with sel show ?thesis
      using round_robin.choice_fits [of n task agents i]
      by (simp add: select_agent_cases del: select_agent.simps)
  next
    case LeastLoadedS
    with sel show ?thesis
      using least_loaded.choice_fits [of "()" task agents i]
      by (simp add: select_agent_cases del: select_agent.simps)
  qed (use sel weighted.choice_fits [of _ task agents i] in
      \<open>simp_all add: select_agent_cases del: select_agent.simps\<close>)
next
  fix a agents task s
  assume a: "a \<in> set agents" "can_run task a"
  show "snd (select_agent s task agents) \<noteq> None"
    using round_robin.choice_made [OF a] least_loaded.choice_made [OF a]
      weighted.choice_made [OF a]
    by (simp add: select_agent_cases split: Scheduler.split)
qed

text \<open>Selecting changes the state of \<open>RoundRobin\<close> only, and no strategy turns into another.\<close>

lemma select_agent_keeps_kind:
  "scheduler_name (fst (select_agent s task agents)) = scheduler_name s"
  "scheduler_weights (fst (select_agent s task agents)) = scheduler_weights s"
  by (cases s; simp split: prod.split)+

section \<open>Rotation\<close>

text \<open>\<open>k\<close> placements in a row over an unchanged set of agents.\<close>

fun round_robin_run ::
  "nat \<Rightarrow> RoundRobinState \<Rightarrow> TaskNode \<Rightarrow> AgentDescriptor list \<Rightarrow> RoundRobinState \<times> AgentId option list"
where
  "round_robin_run 0 n task agents = (n, [])"
| "round_robin_run (Suc k) n task agents =
     (let (n', i) = round_robin_select n task agents; (n'', is) = round_robin_run k n' task agents
      in (n'', i # is))"

lemma round_robin_run_eq:
  assumes "candidates task agents \<noteq> []" "unat n + k < 2 ^ 64"
  shows "round_robin_run k n task agents =
    (n + of_nat k,
     map (\<lambda>j. Some (ad_id (candidates task agents !
       ((unat n + j) mod length (candidates task agents))))) [0..<k])"
  using assms
proof (induction k arbitrary: n)
  case (Suc k)
  have n: "unat (n + 1) = unat n + 1"
    using Suc.prems(2) by (simp add: unat_word_ariths)
  show ?case
    using Suc.prems Suc.IH [of "n + 1"]
    by (simp add: round_robin_select_def n map_upt_Suc Let_def del: upt_Suc)
qed simp

lemma rotate_map_nth: "map (\<lambda>j. xs ! ((n + j) mod length xs)) [0..<length xs] = rotate n xs"
  by (rule nth_equalityI) (simp_all add: nth_rotate)

lemma mset_rotate [simp]: "mset (rotate n xs) = mset xs"
proof (induction n)
  case (Suc n)
  have "mset (rotate1 ys) = mset ys" for ys :: "'a list" by (cases ys) auto
  with Suc show ?case by simp
qed simp

section \<open>Weights\<close>

lemma unsigned_real_nonneg [simp]: "0 \<le> (unsigned (w :: 'a::len word) :: real)"
  by (metis of_nat_0_le_iff of_nat_unat)

text \<open>The range within which feedback moves the adaptive weights.\<close>

definition adaptive_ok :: "AdaptiveState \<Rightarrow> bool" where
  "adaptive_ok s \<longleftrightarrow>
     0 \<le> as_observed_success s \<and> as_observed_success s \<le> 1 \<and> 0 \<le> as_observed_queue_wait_ms s \<and>
     1 \<le> w_reliability (as_weights s) \<and> w_reliability (as_weights s) \<le> 4 \<and>
     1 \<le> w_load (as_weights s) \<and> w_load (as_weights s) \<le> 3 \<and>
     1 / 2 \<le> w_latency (as_weights s) \<and> w_latency (as_weights s) \<le> 1 \<and>
     w_specificity (as_weights s) = 1 / 2"

lemma adaptive_ok_default: "adaptive_ok default_adaptive"
  by (simp add: adaptive_ok_def default_adaptive_def default_weights_def)

lemma adaptive_ok_observe: "adaptive_ok s \<Longrightarrow> adaptive_ok (adaptive_observe outcome s)"
  by (auto simp: adaptive_ok_def adaptive_observe_def Let_def min_def add_nonneg_nonneg)

lemma adaptive_ok_observes: "adaptive_ok s \<Longrightarrow> adaptive_ok (fold adaptive_observe outcomes s)"
  by (induction outcomes arbitrary: s) (simp_all add: adaptive_ok_observe)

lemma observes_adaptive:
  "fold observe outcomes (AdaptiveS s) = AdaptiveS (fold adaptive_observe outcomes s)"
  by (induction outcomes arbitrary: s) simp_all

lemma score_bounds:
  assumes "0 \<le> w_load w" "0 \<le> w_reliability w" "0 \<le> w_latency w" "0 \<le> w_specificity w"
  shows "0 \<le> score a task w"
    and "score a task w \<le> w_load w + w_reliability w + w_latency w + w_specificity w"
proof -
  have *: "0 \<le> v * x \<and> v * x \<le> v" if "0 \<le> v" "0 \<le> x" "x \<le> 1" for v x :: real
    using that by (simp add: mult_left_le)
  let ?l = "1 - clamp 0 1 (ad_current_load a)" and ?r = "clamp 0 1 (ad_success_rate a)"
    and ?s = "1000 / (1000 + real (unat (ad_average_latency_ms a)))"
    and ?f = "1 / (1 + real (length (ad_capabilities a) - length (tn_required_capabilities task)))"
  have "0 \<le> w_load w * ?l \<and> w_load w * ?l \<le> w_load w"
    using clamp_bounds [of 0 1 "ad_current_load a"] by (intro * assms) simp_all
  moreover have "0 \<le> w_reliability w * ?r \<and> w_reliability w * ?r \<le> w_reliability w"
    using clamp_bounds [of 0 1 "ad_success_rate a"] by (intro * assms) simp_all
  moreover have "0 \<le> w_latency w * ?s \<and> w_latency w * ?s \<le> w_latency w"
    by (intro * assms) (simp_all add: add_nonneg_nonneg divide_le_eq_1 add_pos_nonneg)
  moreover have "0 \<le> w_specificity w * ?f \<and> w_specificity w * ?f \<le> w_specificity w"
    by (intro * assms) simp_all
  ultimately show "0 \<le> score a task w"
    "score a task w \<le> w_load w + w_reliability w + w_latency w + w_specificity w"
    by (simp_all add: score_def Let_def)
qed

section \<open>Properties\<close>

definition sample_agent :: "AgentId \<Rightarrow> real \<Rightarrow> AgentDescriptor" where
  "sample_agent i load =
     (new_agent_descriptor i 0 AgentType.Research 1 default_model_config)
       \<lparr>ad_status := AgentStatus.Idle, ad_current_load := load\<rparr>"

definition sample_work :: TaskNode where
  "sample_work = new_task (\<lambda>u. ''j'') 9 1 TaskKind.Work ''t'' ''d'' 0"

lemma sample_can_run: "can_run sample_work (sample_agent i l)"
  by (simp add: can_run_def sample_agent_def sample_work_def new_task_def is_available_def
      new_agent_descriptor_def)

lemma sample_id [simp]: "ad_id (sample_agent i l) = i" "ad_current_load (sample_agent i l) = l"
  by (simp_all add: sample_agent_def new_agent_descriptor_def)

text \<open>
  What a strategy promises of the agent \<open>a\<close> it named against any other agent \<open>b\<close> that could run
  the task: rotation promises nothing, \<open>LeastLoaded\<close> a least (load, latency), the weighted
  strategies a greatest score under the weights in force.
\<close>

fun preferred :: "Scheduler \<Rightarrow> TaskNode \<Rightarrow> AgentDescriptor \<Rightarrow> AgentDescriptor \<Rightarrow> bool" where
  "preferred (RoundRobinS n) task a b \<longleftrightarrow> True"
| "preferred LeastLoadedS task a b \<longleftrightarrow>
     ad_current_load a < ad_current_load b \<or>
     ad_current_load a = ad_current_load b \<and> ad_average_latency_ms a \<le> ad_average_latency_ms b"
| "preferred (CapabilityWeightedS w) task a b \<longleftrightarrow> score b task w \<le> score a task w"
| "preferred (AdaptiveS s) task a b \<longleftrightarrow> score b task (as_weights s) \<le> score a task (as_weights s)"

lemma least_loaded_key_le:
  "least_loaded_key a \<le> least_loaded_key b \<longleftrightarrow> preferred LeastLoadedS task a b"
  by (auto simp: least_loaded_key_def)

lemma select_agent_preferred:
  assumes "snd (select_agent s task agents) = Some i"
  shows "\<exists>a \<in> set (candidates task agents). ad_id a = i \<and>
    (\<forall>b \<in> set (candidates task agents). preferred s task a b)"
proof (cases s)
  case (RoundRobinS n)
  with assms show ?thesis
    using round_robin_choice [of n task agents i]
    by (simp add: select_agent_cases del: select_agent.simps)
next
  case LeastLoadedS
  with assms show ?thesis
    using least_loaded_choice [of task agents i]
    by (simp add: least_loaded_key_le [of _ _ task] del: preferred.simps)
qed (use assms weighted_choice [of _ task agents i] in \<open>simp_all add: adaptive_is_weighted\<close>)

text \<open>
  C38: placement is sound, complete and optimal. Whatever the strategy and whatever it has learned,
  \<open>select\<close> names no agent exactly when no agent of the pool is available with every required
  capability; the agent it names is available, has every required capability, and is preferred by
  the strategy to every other agent that could run the task.
\<close>

theorem placement_exact:
  "(snd (select_agent s task agents) = None \<longleftrightarrow> filter (can_run task) agents = []) \<and>
   (\<forall>i. snd (select_agent s task agents) = Some i \<longrightarrow>
      (\<exists>a \<in> set agents. ad_id a = i \<and> can_run task a \<and>
         (\<forall>b \<in> set agents. can_run task b \<longrightarrow> preferred s task a b)))"
  using boxed.no_choice_iff [of s task agents] select_agent_preferred [of s task agents]
  by (simp add: filter_empty_conv candidates_iff Ball_def Bex_def) blast

theorem placement_exact_witness:
  "snd (select_agent LeastLoadedS sample_work [sample_agent 1 (1 / 2), sample_agent 2 (1 / 5)]) =
     Some 2"
proof -
  let ?pool = "[sample_agent 1 (1 / 2), sample_agent 2 (1 / 5)]"
  let ?r = "snd (select_agent LeastLoadedS sample_work ?pool)"
  note exact = placement_exact [of LeastLoadedS sample_work ?pool]
  have "?r \<noteq> None" using exact by (simp only:) (simp add: sample_can_run)
  then obtain i where r: "?r = Some i" by blast
  then obtain a where "a \<in> set ?pool" "ad_id a = i" "preferred LeastLoadedS sample_work a (sample_agent 2 (1 / 5))"
    using exact sample_can_run by (metis list.set_intros)
  then show ?thesis using r by auto
qed

text \<open>
  Feedback moves the adaptive weights only within fixed bounds: after any sequence of
  observations reliability weighs between 1 and 4, load between 1 and 3, latency between 1/2 and 1
  and specificity exactly 1/2, so that every score lies between 0 and 17/2.
\<close>

theorem adaptive_weights_bounded:
  "let w = scheduler_weights (fold observe outcomes (build_scheduler SchedulerKind.Adaptive)) in
   1 \<le> w_reliability w \<and> w_reliability w \<le> 4 \<and> 1 \<le> w_load w \<and> w_load w \<le> 3 \<and>
   1 / 2 \<le> w_latency w \<and> w_latency w \<le> 1 \<and> w_specificity w = 1 / 2 \<and>
   0 \<le> score a task w \<and> score a task w \<le> 17 / 2"
proof -
  let ?s = "fold adaptive_observe outcomes default_adaptive"
  have ok: "adaptive_ok ?s" by (intro adaptive_ok_observes adaptive_ok_default)
  then have "0 \<le> score a task (as_weights ?s)"
    "score a task (as_weights ?s) \<le>
       w_load (as_weights ?s) + w_reliability (as_weights ?s) + w_latency (as_weights ?s) +
       w_specificity (as_weights ?s)"
    unfolding adaptive_ok_def by (intro score_bounds; linarith)+
  with ok show ?thesis
    by (simp add: Let_def observes_adaptive adaptive_ok_def)
qed

text \<open>
  Rotation is fair: as many consecutive placements as there are candidates, over an unchanged
  pool, serve the candidates in pool order starting where the counter stands, each exactly once
  (as long as the 64-bit counter does not wrap meanwhile).
\<close>

theorem round_robin_fair:
  assumes "candidates task agents \<noteq> []" "unat n + length (candidates task agents) < 2 ^ 64"
  shows "snd (round_robin_run (length (candidates task agents)) n task agents) =
      map (\<lambda>a. Some (ad_id a)) (rotate (unat n) (candidates task agents)) \<and>
    mset (snd (round_robin_run (length (candidates task agents)) n task agents)) =
      mset (map (\<lambda>a. Some (ad_id a)) (candidates task agents))"
proof -
  let ?cs = "candidates task agents"
  have "snd (round_robin_run (length ?cs) n task agents) =
      map (\<lambda>a. Some (ad_id a)) (map (\<lambda>j. ?cs ! ((unat n + j) mod length ?cs)) [0..<length ?cs])"
    using assms by (simp add: round_robin_run_eq)
  then show ?thesis by (simp add: rotate_map_nth)
qed

theorem round_robin_fair_witness:
  "snd (round_robin_run 2 3 sample_work [sample_agent 7 0, sample_agent 8 0]) = [Some 8, Some 7]"
proof -
  let ?pool = "[sample_agent 7 0, sample_agent 8 0]"
  have cs: "candidates sample_work ?pool = ?pool"
    by (simp add: candidates_can_run sample_can_run)
  have len: "length ?pool = 2" and rot: "rotate 3 ?pool = [sample_agent 8 0, sample_agent 7 0]"
    by (simp_all add: eval_nat_numeral)
  show ?thesis
    using round_robin_fair [of sample_work ?pool 3] unfolding cs len by (simp add: rot)
qed

text \<open>
  The comment on \<open>Adaptive\<close> says that latency matters more when the swarm is healthy but slow. In
  the code the latency of an outcome is never read, and the latency weight of a swarm that only
  succeeds stays at its floor, however slow it is; it grows with failures instead.
\<close>

lemma healthy_latency_weight_constant:
  assumes "list_all so_succeeded outcomes"
  shows "w_latency (scheduler_weights (fold observe outcomes (build_scheduler SchedulerKind.Adaptive))) = 1 / 2"
proof -
  have "as_observed_success s = 1 \<Longrightarrow> w_latency (as_weights s) = 1 / 2 \<Longrightarrow>
      w_latency (as_weights (fold adaptive_observe outcomes s)) = 1 / 2" for s
    using assms by (induction outcomes arbitrary: s) (simp_all add: adaptive_observe_def Let_def)
  then show ?thesis
    by (simp add: observes_adaptive default_adaptive_def default_weights_def)
qed

lemma failure_raises_latency_weight:
  "w_latency (scheduler_weights (observe \<lparr>so_agent_id = 1, so_succeeded = False, so_latency_ms = 0,
     so_queue_wait_ms = 0\<rparr> (build_scheduler SchedulerKind.Adaptive))) = 7 / 10"
  by (simp add: adaptive_observe_def default_adaptive_def default_weights_def Let_def)

end
