(* ===== verification/CoordinatorModel.thy ===== *)
theory CoordinatorModel
  imports Decompose Schedule Journal TaskQueue
begin

text \<open>
  The coordinator (\<open>crates/coordinator/src/lib.rs\<close>): the handle of a job, the services every job
  shares (queue, scheduler, agent budget, journal), admission, operator control and queries.

  A \<open>JobHandle\<close> is shared behind an \<open>Arc\<close> and mutated in place; the operations that take one are
  functions on a \<open>Run\<close>: the handle together with the services. The clock, the generator of
  identifiers, the implementation of the \<open>Journal\<close> trait and the JSON codec of tasks are fields of
  \<open>Env\<close>; clock and generator read and advance the world \<open>'w\<close>. Events are recorded in the order
  they are published; which subscriber receives them is not modelled.
\<close>

section \<open>Operations that change a state and may fail\<close>

type_synonym ('s, 'a) op = "'s \<Rightarrow> 's \<times> 'a result"

definition ret :: "'a \<Rightarrow> ('s, 'a) op" where
  "ret x s = (s, Ok x)"

definition raise :: "SwarmError \<Rightarrow> ('s, 'a) op" where
  "raise e s = (s, Err e)"

definition bindS :: "('s, 'a) op \<Rightarrow> ('a \<Rightarrow> ('s, 'b) op) \<Rightarrow> ('s, 'b) op" where
  "bindS m f s = (case m s of (s', Inl e) \<Rightarrow> (s', Inl e) | (s', Inr x) \<Rightarrow> f x s')"

definition thenS :: "('s, 'a) op \<Rightarrow> ('s, 'b) op \<Rightarrow> ('s, 'b) op" where
  "thenS m n = bindS m (\<lambda>_. n)"

definition gets :: "('s \<Rightarrow> 'a) \<Rightarrow> ('s, 'a) op" where
  "gets f s = (s, Ok (f s))"

definition modify :: "('s \<Rightarrow> 's) \<Rightarrow> ('s, unit) op" where
  "modify f s = (f s, Ok ())"

definition liftR :: "'a result \<Rightarrow> ('s, 'a) op" where
  "liftR r s = (s, r)"

fun forS :: "'a list \<Rightarrow> ('a \<Rightarrow> ('s, unit) op) \<Rightarrow> ('s, unit) op" where
  "forS [] body = ret ()"
| "forS (x # xs) body = thenS (body x) (forS xs body)"

text \<open>
  Partial correctness with a condition for each way to end: \<open>Q\<close> for a value, \<open>E\<close> for an error.
\<close>

definition valid ::
  "('s \<Rightarrow> bool) \<Rightarrow> ('s, 'a) op \<Rightarrow> ('a \<Rightarrow> 's \<Rightarrow> bool) \<Rightarrow> ('s \<Rightarrow> bool) \<Rightarrow> bool" where
  "valid P m Q E \<longleftrightarrow>
     (\<forall>s. P s \<longrightarrow> (case m s of (s', Inr x) \<Rightarrow> Q x s' | (s', Inl e) \<Rightarrow> E s'))"

abbreviation keeps :: "('s \<Rightarrow> bool) \<Rightarrow> ('s, 'a) op \<Rightarrow> bool" where
  "keeps I m \<equiv> valid I m (\<lambda>_. I) I"

lemma validI:
  assumes "\<And>s s' x. P s \<Longrightarrow> m s = (s', Inr x) \<Longrightarrow> Q x s'" "\<And>s s' e. P s \<Longrightarrow> m s = (s', Inl e) \<Longrightarrow> E s'"
  shows "valid P m Q E"
  using assms by (fastforce simp: valid_def split: prod.split sum.split)

lemma validD:
  assumes "valid P m Q E" "P s" "m s = (s', r)"
  shows "r = Inr x \<Longrightarrow> Q x s'" "r = Inl e \<Longrightarrow> E s'"
  using assms by (fastforce simp: valid_def)+

lemma keeps_fst: "keeps I m \<Longrightarrow> I s \<Longrightarrow> I (fst (m s))"
  by (cases "m s"; cases "snd (m s)") (fastforce simp: valid_def)+

lemma keepsI: "(\<And>s. I s \<Longrightarrow> I (fst (m s))) \<Longrightarrow> keeps I m"
  unfolding valid_def by (simp add: case_prod_beta split: sum.split)

named_theorems op_valid

lemma valid_ret [op_valid]: "(\<And>s. P s \<Longrightarrow> Q x s) \<Longrightarrow> valid P (ret x) Q E"
  by (simp add: valid_def ret_def)

lemma valid_raise [op_valid]: "(\<And>s. P s \<Longrightarrow> E s) \<Longrightarrow> valid P (raise e) Q E"
  by (simp add: valid_def raise_def)

lemma valid_bindS:
  assumes "valid P m R E" "\<And>x. valid (R x) (f x) Q E"
  shows "valid P (bindS m f) Q E"
proof (rule validI)
  fix s s' y assume "P s" "bindS m f s = (s', Inr y)"
  then show "Q y s'"
    using assms unfolding bindS_def valid_def by (fastforce split: prod.splits sum.splits)
next
  fix s s' e assume "P s" "bindS m f s = (s', Inl e)"
  then show "E s'"
    using assms unfolding bindS_def valid_def by (fastforce split: prod.splits sum.splits)
qed

lemma valid_thenS: "valid P m (\<lambda>_. R) E \<Longrightarrow> valid R n Q E \<Longrightarrow> valid P (thenS m n) Q E"
  unfolding thenS_def by (rule valid_bindS)

lemma keeps_bindS [op_valid]: "keeps I m \<Longrightarrow> (\<And>x. keeps I (f x)) \<Longrightarrow> keeps I (bindS m f)"
  by (rule valid_bindS)

lemma keeps_thenS [op_valid]: "keeps I m \<Longrightarrow> keeps I n \<Longrightarrow> keeps I (thenS m n)"
  by (rule valid_thenS)

lemma valid_gets [op_valid]: "(\<And>s. P s \<Longrightarrow> Q (f s) s) \<Longrightarrow> valid P (gets f) Q E"
  by (simp add: valid_def gets_def)

lemma valid_modify: "(\<And>s. P s \<Longrightarrow> Q () (f s)) \<Longrightarrow> valid P (modify f) Q E"
  by (simp add: valid_def modify_def)

lemma keeps_liftR [op_valid]: "keeps I (liftR r)"
  by (cases r) (simp_all add: valid_def liftR_def)

lemma keeps_forS [op_valid]: "(\<And>x. keeps I (body x)) \<Longrightarrow> keeps I (forS xs body)"
  by (induction xs) (simp_all add: valid_ret keeps_thenS)

lemma keeps_if [op_valid]: "(c \<Longrightarrow> keeps I m) \<Longrightarrow> (\<not> c \<Longrightarrow> keeps I n) \<Longrightarrow> keeps I (if c then m else n)"
  by simp

lemma keeps_case_option [op_valid]:
  "(x = None \<Longrightarrow> keeps I m) \<Longrightarrow> (\<And>y. x = Some y \<Longrightarrow> keeps I (f y)) \<Longrightarrow>
   keeps I (case x of None \<Rightarrow> m | Some y \<Rightarrow> f y)"
  by (cases x) simp_all

section \<open>Configuration, events and control\<close>

record CoordinatorConfig =
  cc_node_id :: NodeId
  cc_scheduler :: SchedulerKind
  cc_max_cluster_agents :: nat
  cc_lease_ms :: u64
  cc_event_buffer :: nat
  cc_tick_ms :: u64
  cc_max_ticks :: u64
  cc_agent_idle_timeout_ms :: u64

definition default_coordinator_config :: "NodeId \<Rightarrow> CoordinatorConfig" where
  "default_coordinator_config fresh_node =
     \<lparr>cc_node_id = fresh_node, cc_scheduler = SchedulerKind.CapabilityWeighted,
      cc_max_cluster_agents = 512, cc_lease_ms = 60000, cc_event_buffer = 1024, cc_tick_ms = 5,
      cc_max_ticks = 100000, cc_agent_idle_timeout_ms = 30000\<rparr>"

datatype JobEventKind =
  JobAdmitted | JobPlanned | AgentSpawned | AgentTerminated | TaskQueued | TaskStarted
| TaskCompleted | TaskFailed | TaskRetrying | TaskDeadLettered | TaskCancelled | JobPaused
| JobResumed | JobCancelled | JobFinished

record JobEvent =
  je_sequence_number :: u64
  je_job_id :: JobId
  je_task_id :: "TaskId option"
  je_kind :: JobEventKind
  je_detail :: string
  je_progress :: real
  je_at :: DateTime

datatype Control = Running | Paused | Cancelled

record JobStateView =
  jv_job_id :: JobId
  jv_status :: JobStatus
  jv_execution_strategy :: ExecutionStrategy
  jv_counts :: GraphCounts
  jv_progress :: real
  jv_active_agents :: nat
  jv_tokens_used :: u64
  jv_cost_usd :: real
  jv_created_at :: DateTime
  jv_finished_at :: "DateTime option"

section \<open>The handle of a job\<close>

record ('v, 'g) JobHandle =
  jh_job :: Job
  jh_graph :: "'g TaskGraph"
  jh_agents :: "AgentDescriptor list"
  jh_results :: "'v TaskResult list"
  jh_failures :: "TaskFailure list"
  jh_transitions :: "TaskState Transition list"
  jh_statistics :: ExecutionStatistics
  jh_latencies :: "u64 list"
  jh_final_result :: "'v FinalResult option"
  jh_event_capacity :: nat
  jh_events :: "JobEvent list"
  jh_control :: Control
  jh_sequence :: u64

definition new_job_handle :: "Job \<Rightarrow> 'g TaskGraph \<Rightarrow> nat \<Rightarrow> ('v, 'g) JobHandle" where
  "new_job_handle job graph event_buffer =
     \<lparr>jh_job = job, jh_graph = graph, jh_agents = [], jh_results = [], jh_failures = [],
      jh_transitions = [], jh_statistics = default_statistics, jh_latencies = [],
      jh_final_result = None, jh_event_capacity = max event_buffer 16, jh_events = [],
      jh_control = Control.Running, jh_sequence = 0\<rparr>"

record ('v, 'j, 'w) Services =
  sv_queue :: "'v Inner"
  sv_scheduler :: Scheduler
  sv_cluster_agents :: nat
  sv_journal :: 'j
  sv_world :: 'w

record ('v, 'g, 'j, 'w) Run =
  rn_handle :: "('v, 'g) JobHandle"
  rn_sv :: "('v, 'j, 'w) Services"

record ('v, 'g, 'j, 'w) Env =
  en_config :: CoordinatorConfig
  en_pg :: "'g petgraph"
  en_disp :: "uuid \<Rightarrow> string"
  en_lower :: "string \<Rightarrow> string"
  en_usd :: "real \<Rightarrow> string"
  en_append :: "'v JournalRecord \<Rightarrow> 'j \<Rightarrow> 'j \<times> unit result"
  en_replay :: "'j \<Rightarrow> 'v JournalRecord list result"
  en_now :: "'w \<Rightarrow> DateTime \<times> 'w"
  en_uuid :: "'w \<Rightarrow> uuid \<times> 'w"
  en_to_value :: "TaskNode \<Rightarrow> string + 'v"
  en_from_value :: "'v \<Rightarrow> string + TaskNode"

text \<open>\<open>Utc::now()\<close> and a fresh identifier; updating the handle under its lock.\<close>

definition utc_now :: "('v, 'g, 'j, 'w) Env \<Rightarrow> (('v, 'g, 'j, 'w) Run, DateTime) op" where
  "utc_now E s =
     (let (t, w) = en_now E (sv_world (rn_sv s)) in (s\<lparr>rn_sv := (rn_sv s)\<lparr>sv_world := w\<rparr>\<rparr>, Ok t))"

definition fresh_uuid :: "('v, 'g, 'j, 'w) Env \<Rightarrow> (('v, 'g, 'j, 'w) Run, uuid) op" where
  "fresh_uuid E s =
     (let (u, w) = en_uuid E (sv_world (rn_sv s)) in (s\<lparr>rn_sv := (rn_sv s)\<lparr>sv_world := w\<rparr>\<rparr>, Ok u))"

definition on_handle ::
  "(('v, 'g) JobHandle \<Rightarrow> ('v, 'g) JobHandle) \<Rightarrow> (('v, 'g, 'j, 'w) Run, unit) op" where
  "on_handle f = modify (\<lambda>s. s\<lparr>rn_handle := f (rn_handle s)\<rparr>)"

definition on_sv ::
  "(('v, 'j, 'w) Services \<Rightarrow> ('v, 'j, 'w) Services) \<Rightarrow> (('v, 'g, 'j, 'w) Run, unit) op" where
  "on_sv f = modify (\<lambda>s. s\<lparr>rn_sv := f (rn_sv s)\<rparr>)"

definition bump_stats ::
  "(ExecutionStatistics \<Rightarrow> ExecutionStatistics) \<Rightarrow> (('v, 'g, 'j, 'w) Run, unit) op" where
  "bump_stats f = on_handle (\<lambda>h. h\<lparr>jh_statistics := f (jh_statistics h)\<rparr>)"

definition emit ::
  "('v, 'g, 'j, 'w) Env \<Rightarrow> JobEventKind \<Rightarrow> TaskId option \<Rightarrow> string \<Rightarrow> real \<Rightarrow>
   (('v, 'g, 'j, 'w) Run, unit) op" where
  "emit E kind task_id detail fraction =
     bindS (utc_now E) (\<lambda>now. on_handle (\<lambda>h.
       h\<lparr>jh_sequence := jh_sequence h + 1,
         jh_statistics := (jh_statistics h)
           \<lparr>es_messages_sent := es_messages_sent (jh_statistics h) + 1\<rparr>,
         jh_events := jh_events h @
           [\<lparr>je_sequence_number = jh_sequence h, je_job_id = j_id (jh_job h), je_task_id = task_id,
             je_kind = kind, je_detail = detail, je_progress = fraction, je_at = now\<rparr>]\<rparr>))"

text \<open>A failing journal is logged and otherwise ignored.\<close>

definition journal_record ::
  "('v, 'g, 'j, 'w) Env \<Rightarrow> 'v JournalRecord \<Rightarrow> (('v, 'g, 'j, 'w) Run, unit) op" where
  "journal_record E rec =
     on_sv (\<lambda>sv. sv\<lparr>sv_journal := fst (en_append E rec (sv_journal sv))\<rparr>)"

definition apply_status :: "JobStatus \<Rightarrow> string option \<Rightarrow> DateTime \<Rightarrow> Job \<Rightarrow> Job" where
  "apply_status status reason now job =
     job\<lparr>j_status := status, j_status_reason := reason,
         j_started_at := (if status = JobStatus.Running \<and> j_started_at job = None then Some now
                          else j_started_at job),
         j_finished_at := (if is_finished status then Some now else j_finished_at job)\<rparr>"

definition set_status ::
  "('v, 'g, 'j, 'w) Env \<Rightarrow> JobStatus \<Rightarrow> string option \<Rightarrow> (('v, 'g, 'j, 'w) Run, unit) op" where
  "set_status E dst reason =
     bindS (gets (\<lambda>s. jh_job (rn_handle s))) (\<lambda>job.
     bindS (liftR (transition job_machine (j_status job) dst)) (\<lambda>next.
     bindS (utc_now E) (\<lambda>now.
     thenS (on_handle (\<lambda>h. h\<lparr>jh_job := apply_status next reason now (jh_job h)\<rparr>))
     (bindS (utc_now E) (\<lambda>at_time.
       journal_record E (JobStatusChanged (j_id job) next reason at_time))))))"

section \<open>The coordinator\<close>

record ('v, 'g, 'j, 'w) Coordinator =
  co_sv :: "('v, 'j, 'w) Services"
  co_jobs :: "(JobId, ('v, 'g) JobHandle) hashmap"

definition new_coordinator ::
  "('v, 'g, 'j, 'w) Env \<Rightarrow> 'j \<Rightarrow> 'w \<Rightarrow> ('v, 'g, 'j, 'w) Coordinator" where
  "new_coordinator E jnl world =
     \<lparr>co_sv = \<lparr>sv_queue = new_queue, sv_scheduler = build_scheduler (cc_scheduler (en_config E)),
                sv_cluster_agents = 0, sv_journal = jnl, sv_world = world\<rparr>,
      co_jobs = []\<rparr>"

definition find_handle ::
  "JobId \<Rightarrow> ('v, 'g, 'j, 'w) Coordinator \<Rightarrow> ('v, 'g) JobHandle result" where
  "find_handle job_id c =
     (case map_of (co_jobs c) job_id of
        Some h \<Rightarrow> Ok h | None \<Rightarrow> Err (NotFound ''job'' job_id))"

text \<open>Run an operation on the handle of a job, in place.\<close>

definition with_handle ::
  "JobId \<Rightarrow> (('v, 'g, 'j, 'w) Run, 'a) op \<Rightarrow> (('v, 'g, 'j, 'w) Coordinator, 'a) op" where
  "with_handle job_id m c =
     (case find_handle job_id c of
        Inl e \<Rightarrow> (c, Inl e)
      | Inr h \<Rightarrow>
          (let (s, r) = m \<lparr>rn_handle = h, rn_sv = co_sv c\<rparr>
           in (c\<lparr>co_sv := rn_sv s, co_jobs := AList.update job_id (rn_handle s) (co_jobs c)\<rparr>, r)))"

text \<open>
  \<open>submit\<close>: validation and admission first, then planning, then the journal (whose failure is
  reported), and only then the handle. The identifiers of the job, its correlation and its tasks
  are drawn in this order.
\<close>

fun draw_uuids :: "('w \<Rightarrow> uuid \<times> 'w) \<Rightarrow> nat \<Rightarrow> 'w \<Rightarrow> 'w" where
  "draw_uuids draw 0 w = w"
| "draw_uuids draw (Suc n) w = draw_uuids draw n (snd (draw w))"

definition nth_uuid :: "('w \<Rightarrow> uuid \<times> 'w) \<Rightarrow> 'w \<Rightarrow> nat \<Rightarrow> uuid" where
  "nth_uuid draw w n = fst (draw (draw_uuids draw n w))"

definition announce ::
  "('v, 'g, 'j, 'w) Env \<Rightarrow> (('v, 'g, 'j, 'w) Run, unit) op" where
  "announce E =
     thenS (emit E JobEventKind.JobAdmitted None ''admitted'' 0)
     (bindS (gets (\<lambda>s. jh_graph (rn_handle s))) (\<lambda>graph.
       emit E JobEventKind.JobPlanned None
         (dec (graph_len graph) @ '' tasks in '' @
          dec (case layers (en_pg E) graph of Inr ls \<Rightarrow> length ls | Inl _ \<Rightarrow> 0) @ '' stages'') 0))"

definition plan_job :: "('v, 'g, 'j, 'w) Env \<Rightarrow> Job \<Rightarrow> Job result" where
  "plan_job E job =
     (if jr_max_agents (j_request job) > cc_max_cluster_agents (en_config E)
      then Err (QuotaExceeded (''job asks for '' @ dec (jr_max_agents (j_request job)) @
        '' agents; this cluster allows '' @ dec (cc_max_cluster_agents (en_config E))))
      else
        bindR (transition job_machine (j_status job) JobStatus.Admitted) (\<lambda>admitted.
        bindR (transition job_machine admitted JobStatus.Planning) (\<lambda>planning.
          Ok (job\<lparr>j_status := planning\<rparr>))))"

definition submit ::
  "('v, 'g, 'j, 'w) Env \<Rightarrow> JobRequest \<Rightarrow> (('v, 'g, 'j, 'w) Coordinator, JobId) op" where
  "submit E request c =
     (case validate request of
        Inl e \<Rightarrow> (c, Inl e)
      | Inr _ \<Rightarrow>
          (let (job_id, w1) = en_uuid E (sv_world (co_sv c));
               (correlation, w2) = en_uuid E w1;
               (now, w3) = en_now E w2;
               job0 = new_job job_id correlation now request;
               c1 = c\<lparr>co_sv := (co_sv c)\<lparr>sv_world := w3\<rparr>\<rparr>
           in case plan_job E job0 of
                Inl e \<Rightarrow> (c1, Inl e)
              | Inr job \<Rightarrow>
                  (case decompose (en_lower E) (en_disp E) (nth_uuid (en_uuid E) w3) (en_pg E) job of
                     Inl e \<Rightarrow> (c1, Inl e)
                   | Inr graph \<Rightarrow>
                       (let sv = (co_sv c1)\<lparr>sv_world := draw_uuids (en_uuid E) (graph_len graph) w3\<rparr>;
                            (j, appended) = en_append E (JournalRecord.JobPlanned job (hm_values (tg_nodes graph)))
                              (sv_journal sv);
                            c2 = c1\<lparr>co_sv := sv\<lparr>sv_journal := j\<rparr>\<rparr>
                        in case appended of
                             Inl e \<Rightarrow> (c2, Inl e)
                           | Inr _ \<Rightarrow>
                               (let (s, r) = announce E \<lparr>rn_handle = new_job_handle job graph
                                      (cc_event_buffer (en_config E)), rn_sv = co_sv c2\<rparr>
                                in (c2\<lparr>co_sv := rn_sv s,
                                       co_jobs := AList.update job_id (rn_handle s) (co_jobs c2)\<rparr>,
                                    bindR r (\<lambda>_. Ok job_id)))))))"

definition cancel :: "('v, 'g, 'j, 'w) Env \<Rightarrow> JobId \<Rightarrow> (('v, 'g, 'j, 'w) Coordinator, unit) op" where
  "cancel E job_id =
     with_handle job_id
       (thenS (on_handle (\<lambda>h. h\<lparr>jh_control := Control.Cancelled\<rparr>))
       (thenS (emit E JobEventKind.JobCancelled None ''cancelled by operator'' 0)
         (on_sv (\<lambda>sv. sv\<lparr>sv_queue := fst (purge_job job_id (sv_queue sv))\<rparr>))))"

definition refuse_cancelled :: "JobId \<Rightarrow> (('v, 'g, 'j, 'w) Run, unit) op" where
  "refuse_cancelled job_id =
     bindS (gets (\<lambda>s. jh_control (rn_handle s))) (\<lambda>c.
       if c = Control.Cancelled then raise (SwarmError.Cancelled ''job is cancelled'') else ret ())"

definition pause :: "('v, 'g, 'j, 'w) Env \<Rightarrow> JobId \<Rightarrow> (('v, 'g, 'j, 'w) Coordinator, unit) op" where
  "pause E job_id =
     with_handle job_id
       (thenS (refuse_cancelled job_id)
       (thenS (on_handle (\<lambda>h. h\<lparr>jh_control := Control.Paused\<rparr>))
         (emit E JobEventKind.JobPaused None ''paused by operator'' 0)))"

definition resume :: "('v, 'g, 'j, 'w) Env \<Rightarrow> JobId \<Rightarrow> (('v, 'g, 'j, 'w) Coordinator, unit) op" where
  "resume E job_id =
     with_handle job_id
       (thenS (refuse_cancelled job_id)
       (thenS (on_handle (\<lambda>h. h\<lparr>jh_control := Control.Running\<rparr>))
         (emit E JobEventKind.JobResumed None ''resumed by operator'' 0)))"

definition job_state ::
  "JobId \<Rightarrow> ('v, 'g, 'j, 'w) Coordinator \<Rightarrow> JobStateView result" where
  "job_state job_id c =
     bindR (find_handle job_id c) (\<lambda>h.
       Ok \<lparr>jv_job_id = job_id, jv_status = j_status (jh_job h),
           jv_execution_strategy = jr_execution_strategy (j_request (jh_job h)),
           jv_counts = counts (jh_graph h), jv_progress = progress (jh_graph h),
           jv_active_agents = length (jh_agents h),
           jv_tokens_used = es_tokens_in (jh_statistics h) + es_tokens_out (jh_statistics h),
           jv_cost_usd = es_cost_usd (jh_statistics h), jv_created_at = j_created_at (jh_job h),
           jv_finished_at = j_finished_at (jh_job h)\<rparr>)"

definition list_jobs :: "('v, 'g, 'j, 'w) Coordinator \<Rightarrow> JobStateView list" where
  "list_jobs c =
     List.map_filter (\<lambda>job_id. case job_state job_id c of Inr v \<Rightarrow> Some v | Inl _ \<Rightarrow> None)
       (rev (sort (map fst (co_jobs c))))"

definition task_graph ::
  "JobId \<Rightarrow> ('v, 'g, 'j, 'w) Coordinator \<Rightarrow> TaskNode list result" where
  "task_graph job_id c =
     bindR (find_handle job_id c) (\<lambda>h.
       Ok (sort_key (\<lambda>n. (tn_stage n, tn_title n)) (hm_values (tg_nodes (jh_graph h)))))"

definition intermediate_results ::
  "JobId \<Rightarrow> ('v, 'g, 'j, 'w) Coordinator \<Rightarrow> 'v TaskResult list result" where
  "intermediate_results job_id c = bindR (find_handle job_id c) (\<lambda>h. Ok (jh_results h))"

definition job_failures ::
  "JobId \<Rightarrow> ('v, 'g, 'j, 'w) Coordinator \<Rightarrow> TaskFailure list result" where
  "job_failures job_id c = bindR (find_handle job_id c) (\<lambda>h. Ok (jh_failures h))"

definition job_transitions ::
  "JobId \<Rightarrow> ('v, 'g, 'j, 'w) Coordinator \<Rightarrow> TaskState Transition list result" where
  "job_transitions job_id c = bindR (find_handle job_id c) (\<lambda>h. Ok (jh_transitions h))"

definition job_final_result ::
  "JobId \<Rightarrow> ('v, 'g, 'j, 'w) Coordinator \<Rightarrow> 'v FinalResult option result" where
  "job_final_result job_id c = bindR (find_handle job_id c) (\<lambda>h. Ok (jh_final_result h))"

definition job_agents ::
  "JobId \<Rightarrow> ('v, 'g, 'j, 'w) Coordinator \<Rightarrow> AgentDescriptor list result" where
  "job_agents job_id c = bindR (find_handle job_id c) (\<lambda>h. Ok (jh_agents h))"

end
