(* ===== verification/Recovery.thy ===== *)
theory Recovery
  imports CoordinatorModel
begin

text \<open>
  Rebuilding job state from the journal (\<open>crates/coordinator/src/recovery.rs\<close>, and
  \<open>Coordinator::recover\<close>): the fold over the records, the reconstruction of the task graph in
  dependency order, and the handle that results. The main results are that the graph is rebuilt
  exactly when the journalled tasks form a closed acyclic graph, and that the recovered handle is
  the journalled one with every unfinished task put back to \<open>Created\<close>.
\<close>

section \<open>Model\<close>

record 'v Recovering =
  rc_job :: "Job option"
  rc_tasks :: "TaskNode list"
  rc_task_states :: "(TaskId, TaskState) hashmap"
  rc_attempts :: "(TaskId, u32) hashmap"
  rc_transitions :: "TaskState Transition list"
  rc_results :: "'v TaskResult list"
  rc_failures :: "TaskFailure list"
  rc_final_result :: "'v FinalResult option"

definition default_recovering :: "'v Recovering" where
  "default_recovering =
     \<lparr>rc_job = None, rc_tasks = [], rc_task_states = [], rc_attempts = [], rc_transitions = [],
      rc_results = [], rc_failures = [], rc_final_result = None\<rparr>"

fun absorb :: "'v JournalRecord \<Rightarrow> 'v Recovering \<Rightarrow> 'v Recovering" where
  "absorb (JournalRecord.JobPlanned job tasks) e = e\<lparr>rc_job := Some job, rc_tasks := tasks\<rparr>"
| "absorb (JobStatusChanged job_id status reason at_time) e =
     e\<lparr>rc_job := map_option (\<lambda>job. job\<lparr>j_status := status, j_status_reason := reason\<rparr>) (rc_job e)\<rparr>"
| "absorb (TaskTransitioned job_id tr task_id attempt) e =
     e\<lparr>rc_task_states := AList.update task_id (t_to tr) (rc_task_states e),
       rc_attempts := AList.update task_id attempt (rc_attempts e),
       rc_transitions := rc_transitions e @ [tr]\<rparr>"
| "absorb (JournalRecord.TaskCompleted job_id res) e = e\<lparr>rc_results := rc_results e @ [res]\<rparr>"
| "absorb (JournalRecord.TaskFailed job_id failure) e = e\<lparr>rc_failures := rc_failures e @ [failure]\<rparr>"
| "absorb (JournalRecord.JobFinished job_id res) e = e\<lparr>rc_final_result := Some res\<rparr>"

definition apply_record ::
  "'v JournalRecord \<Rightarrow> (JobId, 'v Recovering) hashmap \<Rightarrow> (JobId, 'v Recovering) hashmap" where
  "apply_record rec jobs =
     (let entry = (case map_of jobs (record_job_id rec) of
                     None \<Rightarrow> default_recovering | Some e \<Rightarrow> e)
      in AList.update (record_job_id rec) (absorb rec entry) jobs)"

text \<open>One pass of \<open>rebuild_graph\<close> over the pending tasks, and the loop around it.\<close>

fun insert_ready ::
  "'g petgraph \<Rightarrow> TaskNode list \<Rightarrow> 'g TaskGraph \<Rightarrow> TaskNode list \<Rightarrow>
   ('g TaskGraph \<times> TaskNode list) result" where
  "insert_ready pg [] graph deferred = Ok (graph, deferred)"
| "insert_ready pg (task # tasks) graph deferred =
     (if list_all (\<lambda>d. get_task graph d \<noteq> None) (tn_dependencies task)
      then case insert_task pg task graph of
             (graph', Inl e) \<Rightarrow> Inl e
           | (graph', Inr _) \<Rightarrow> insert_ready pg tasks graph' deferred
      else insert_ready pg tasks graph (deferred @ [task]))"

lemma insert_ready_length:
  "insert_ready pg tasks graph deferred = Ok (graph', deferred') \<Longrightarrow>
   length deferred' \<le> length deferred + length tasks"
  by (induction pg tasks graph deferred rule: insert_ready.induct)
    (auto split: if_splits prod.splits sum.splits)

function rebuild_loop ::
  "'g petgraph \<Rightarrow> TaskNode list \<Rightarrow> 'g TaskGraph \<Rightarrow> 'g TaskGraph result" where
  "rebuild_loop pg pending graph =
     (if pending = [] then Ok graph
      else case insert_ready pg pending graph [] of
             Inl e \<Rightarrow> Inl e
           | Inr (graph', deferred) \<Rightarrow>
               if length deferred = length pending
               then Err (Internal ''journal references tasks whose dependencies are missing'')
               else rebuild_loop pg deferred graph')"
  by pat_completeness auto
termination
  by (relation "measure (\<lambda>(pg, pending, graph). length pending)")
    (auto dest!: insert_ready_length)

declare rebuild_loop.simps [simp del]

definition rebuild_graph :: "'g petgraph \<Rightarrow> JobId \<Rightarrow> TaskNode list \<Rightarrow> 'g TaskGraph result" where
  "rebuild_graph pg job_id tasks =
     bindR (rebuild_loop pg tasks (new_graph pg job_id)) (\<lambda>graph.
     bindR (assert_acyclic pg graph) (\<lambda>_. Ok graph))"

definition state_is_terminal :: "TaskState \<Rightarrow> bool" where
  "state_is_terminal s \<longleftrightarrow>
     s = TaskState.Completed \<or> s = TaskState.Cancelled \<or> s = TaskState.DeadLettered"

definition recompute_statistics ::
  "'v TaskResult list \<Rightarrow> TaskFailure list \<Rightarrow> nat \<Rightarrow> ExecutionStatistics" where
  "recompute_statistics results failures tasks_total =
     set_latency_percentiles (map tr_duration_ms results)
       (default_statistics
         \<lparr>es_tasks_total := tasks_total,
          es_tasks_succeeded := length results,
          es_tasks_failed := length (filter tf_dead_lettered failures),
          es_tasks_retried := length (filter (\<lambda>f. \<not> tf_dead_lettered f) failures),
          es_model_requests := word_of_nat (length (filter (\<lambda>r. \<not> tr_deduplicated r) results)),
          es_model_cache_hits := word_of_nat (length (filter tr_deduplicated results)),
          es_tokens_in := sum_list (map tr_tokens_in results),
          es_tokens_out := sum_list (map tr_tokens_out results),
          es_cost_usd := sum_list (map tr_cost_usd results)\<rparr>)"

text \<open>The loop of \<open>build\<close> over the journalled states; it counts the tasks it re-queues.\<close>

fun restore_loop ::
  "(TaskId, u32) hashmap \<Rightarrow> (TaskId \<times> TaskState) list \<Rightarrow> 'g TaskGraph \<Rightarrow> nat \<Rightarrow>
   ('g TaskGraph \<times> nat) result" where
  "restore_loop attempts [] graph resumed = Ok (graph, resumed)"
| "restore_loop attempts ((task_id, state) # states) graph resumed =
     (let restored = (if state_is_terminal state then state else TaskState.Created);
          resumed' = (if state_is_terminal state then resumed else resumed + 1)
      in case restore_state task_id restored graph of
           (graph', Inl e) \<Rightarrow> Inl e
         | (graph', Inr _) \<Rightarrow>
             restore_loop attempts states
               (case map_of attempts task_id of
                  Some attempt \<Rightarrow> update_task task_id (\<lambda>n. n\<lparr>tn_attempt := attempt\<rparr>) graph'
                | None \<Rightarrow> graph') resumed')"

definition rewind_job :: "nat \<Rightarrow> Job \<Rightarrow> Job" where
  "rewind_job resumed job =
     (if is_finished (j_status job) then job
      else job\<lparr>j_status := JobStatus.Planning,
               j_status_reason :=
                 Some (''recovered from journal, '' @ dec resumed @ '' tasks re-queued'')\<rparr>)"

definition build_handle :: "'g petgraph \<Rightarrow> nat \<Rightarrow> 'v Recovering \<Rightarrow> ('v, 'g) JobHandle result" where
  "build_handle pg event_buffer e =
     (case rc_job e of
        None \<Rightarrow> Err (Internal
          ''journal has records for a job it never planned; log is truncated at the head'')
      | Some job \<Rightarrow>
          bindR (rebuild_graph pg (j_id job) (rc_tasks e)) (\<lambda>graph0.
          bindR (restore_loop (rc_attempts e) (rc_task_states e) graph0 0) (\<lambda>(graph, resumed).
            Ok \<lparr>jh_job = rewind_job resumed job, jh_graph = graph, jh_agents = [],
                jh_results = rc_results e, jh_failures = rc_failures e,
                jh_transitions = rc_transitions e,
                jh_statistics =
                  recompute_statistics (rc_results e) (rc_failures e) (gc_total (counts graph)),
                jh_latencies = map tr_duration_ms (rc_results e),
                jh_final_result = rc_final_result e, jh_event_capacity = max event_buffer 16,
                jh_events = [], jh_control = Control.Running, jh_sequence = 0\<rparr>)))"

fun recover_jobs ::
  "'g petgraph \<Rightarrow> nat \<Rightarrow> (JobId \<times> 'v Recovering) list \<Rightarrow> (JobId, ('v, 'g) JobHandle) hashmap \<Rightarrow> nat \<Rightarrow>
   (JobId, ('v, 'g) JobHandle) hashmap \<times> nat" where
  "recover_jobs pg event_buffer [] jobs recovered = (jobs, recovered)"
| "recover_jobs pg event_buffer ((job_id, e) # rest) jobs recovered =
     (case build_handle pg event_buffer e of
        Inr h \<Rightarrow> recover_jobs pg event_buffer rest (AList.update job_id h jobs) (recovered + 1)
      | Inl _ \<Rightarrow> recover_jobs pg event_buffer rest jobs recovered)"

definition recover :: "('v, 'g, 'j, 'w) Env \<Rightarrow> (('v, 'g, 'j, 'w) Coordinator, nat) op" where
  "recover E c =
     (case en_replay E (sv_journal (co_sv c)) of
        Inl e \<Rightarrow> (c, Inl e)
      | Inr records \<Rightarrow>
          if records = [] then (c, Ok 0)
          else
            (let (jobs, recovered) =
               recover_jobs (en_pg E) (cc_event_buffer (en_config E)) (fold apply_record records [])
                 (co_jobs c) 0
             in (c\<lparr>co_jobs := jobs\<rparr>, Ok recovered)))"

section \<open>Rebuilding the graph\<close>

text \<open>What the journalled tasks must be for a graph to exist: distinct, closed and acyclic.\<close>

definition task_ids :: "TaskNode list \<Rightarrow> TaskId set" where
  "task_ids tasks = tn_id ` set tasks"

definition depends_rel :: "TaskNode list \<Rightarrow> (TaskId \<times> TaskId) set" where
  "depends_rel tasks = {(d, tn_id t) |d t. t \<in> set tasks \<and> d \<in> set (tn_dependencies t)}"

definition well_founded_tasks :: "TaskNode list \<Rightarrow> bool" where
  "well_founded_tasks tasks \<longleftrightarrow>
     distinct (map tn_id tasks) \<and> (\<forall>t \<in> set tasks. set (tn_dependencies t) \<subseteq> task_ids tasks) \<and>
     acyclic (depends_rel tasks)"

text \<open>The graph under reconstruction holds exactly the tasks already inserted.\<close>

definition holds_tasks :: "'g petgraph \<Rightarrow> TaskNode list \<Rightarrow> 'g TaskGraph \<Rightarrow> bool" where
  "holds_tasks pg ts graph \<longleftrightarrow> graph_inv pg graph \<and> tg_nodes graph = map (\<lambda>t. (tn_id t, t)) ts"

lemma holds_tasks_dom: "holds_tasks pg ts graph \<Longrightarrow> map_of (tg_nodes graph) i \<noteq> None \<longleftrightarrow> i \<in> task_ids ts"
  by (force simp: holds_tasks_def task_ids_def map_of_eq_None_iff image_iff)

lemma holds_tasks_distinct: "holds_tasks pg ts graph \<Longrightarrow> distinct (map tn_id ts)"
  using graph_invD(1) [of pg graph] by (simp add: holds_tasks_def comp_def)

context petgraph_laws
begin

lemma holds_tasks_insert:
  assumes "holds_tasks pg ts graph" "tn_id t \<notin> task_ids ts" "set (tn_dependencies t) \<subseteq> task_ids ts"
  shows "\<exists>graph'. insert_task pg t graph = (graph', Ok (tn_id t)) \<and> holds_tasks pg (ts @ [t]) graph' \<and>
    tg_job_id graph' = tg_job_id graph"
proof -
  have inv: "graph_inv pg graph" using assms(1) by (simp add: holds_tasks_def)
  have new: "map_of (tg_nodes graph) (tn_id t) = None"
    using holds_tasks_dom [OF assms(1)] assms(2) by blast
  have deps: "\<forall>d \<in> set (tn_dependencies t). map_of (tg_nodes graph) d \<noteq> None"
    using holds_tasks_dom [OF assms(1)] assms(3) by blast
  from insert_task_Ok [OF inv new deps] obtain g where
    g: "insert_task pg t graph = (g, Ok (tn_id t))" "tg_job_id g = tg_job_id graph"
      "tg_nodes g = tg_nodes graph @ [(tn_id t, t)]"
    using new by (auto simp: hm_update_fresh)
  with insert_task_inv [OF inv, of t] assms(1) show ?thesis
    by (auto simp: holds_tasks_def)
qed

lemma insert_ready_effect:
  assumes "holds_tasks pg ts graph" "distinct (map tn_id (ts @ tasks))"
  shows "\<exists>graph' ins def. insert_ready pg tasks graph deferred = Ok (graph', deferred @ def) \<and>
    holds_tasks pg (ts @ ins) graph' \<and> mset tasks = mset ins + mset def \<and>
    tg_job_id graph' = tg_job_id graph \<and>
    (\<forall>t \<in> set tasks. set (tn_dependencies t) \<subseteq> task_ids ts \<longrightarrow> t \<notin> set def)"
  using assms
proof (induction tasks arbitrary: ts graph deferred)
  case (Cons task tasks)
  have iff: "list_all (\<lambda>d. get_task graph d \<noteq> None) (tn_dependencies task) \<longleftrightarrow>
      set (tn_dependencies task) \<subseteq> task_ids ts"
    using holds_tasks_dom [OF Cons.prems(1)] by (auto simp: list_all_iff get_task_def)
  show ?case
  proof (cases "set (tn_dependencies task) \<subseteq> task_ids ts")
    case True
    have "tn_id task \<notin> task_ids ts" using Cons.prems(2) by (auto simp: task_ids_def)
    from holds_tasks_insert [OF Cons.prems(1) this True] obtain g where
      g: "insert_task pg task graph = (g, Ok (tn_id task))" "holds_tasks pg (ts @ [task]) g"
        "tg_job_id g = tg_job_id graph" by blast
    from Cons.IH [OF g(2), of deferred] Cons.prems(2) obtain graph' ins def where
      *: "insert_ready pg tasks g deferred = Ok (graph', deferred @ def)"
        "holds_tasks pg ((ts @ [task]) @ ins) graph'" "mset tasks = mset ins + mset def"
        "tg_job_id graph' = tg_job_id g"
        "\<forall>t \<in> set tasks. set (tn_dependencies t) \<subseteq> task_ids (ts @ [task]) \<longrightarrow> t \<notin> set def" by auto
    have "task \<notin> set def"
    proof
      assume "task \<in> set def"
      then have "task \<in> set tasks" using *(3) by (metis UnCI set_mset_mset set_mset_union)
      with Cons.prems(2) show False by auto
    qed
    with * g True iff show ?thesis
      by (intro exI [of _ graph'] exI [of _ "task # ins"] exI [of _ def]) (auto simp: task_ids_def)
  next
    case False
    from Cons.IH [OF Cons.prems(1), of "deferred @ [task]"] Cons.prems(2) obtain graph' ins def where
      "insert_ready pg tasks graph (deferred @ [task]) = Ok (graph', (deferred @ [task]) @ def)"
      "holds_tasks pg (ts @ ins) graph'" "mset tasks = mset ins + mset def"
      "tg_job_id graph' = tg_job_id graph"
      "\<forall>t \<in> set tasks. set (tn_dependencies t) \<subseteq> task_ids ts \<longrightarrow> t \<notin> set def" by auto
    with False iff show ?thesis
      by (intro exI [of _ graph'] exI [of _ ins] exI [of _ "task # def"]) auto
  qed
qed simp

lemma insert_ready_Ok:
  assumes "holds_tasks pg ts graph" "insert_ready pg tasks graph deferred = Ok (graph', deferred')"
  shows "\<exists>ins def. deferred' = deferred @ def \<and> holds_tasks pg (ts @ ins) graph' \<and>
    mset tasks = mset ins + mset def"
  using assms
proof (induction tasks arbitrary: ts graph deferred)
  case (Cons task tasks)
  show ?case
  proof (cases "list_all (\<lambda>d. get_task graph d \<noteq> None) (tn_dependencies task)")
    case True
    then have deps: "set (tn_dependencies task) \<subseteq> task_ids ts"
      using holds_tasks_dom [OF Cons.prems(1)] by (auto simp: list_all_iff get_task_def)
    have "tn_id task \<notin> task_ids ts"
    proof
      assume "tn_id task \<in> task_ids ts"
      then have "map_of (tg_nodes graph) (tn_id task) \<noteq> None"
        using holds_tasks_dom [OF Cons.prems(1)] by blast
      with Cons.prems(2) True show False by (simp add: insert_task_def)
    qed
    from holds_tasks_insert [OF Cons.prems(1) this deps] obtain g where
      g: "insert_task pg task graph = (g, Ok (tn_id task))" "holds_tasks pg (ts @ [task]) g" by blast
    with Cons.prems(2) True have "insert_ready pg tasks g deferred = Ok (graph', deferred')" by simp
    from Cons.IH [OF g(2) this] obtain ins def where
      "deferred' = deferred @ def" "holds_tasks pg ((ts @ [task]) @ ins) graph'"
      "mset tasks = mset ins + mset def" by blast
    then show ?thesis by (intro exI [of _ "task # ins"] exI [of _ def]) simp
  next
    case False
    with Cons.prems(2) have "insert_ready pg tasks graph (deferred @ [task]) = Ok (graph', deferred')" by simp
    from Cons.IH [OF Cons.prems(1) this] obtain ins def where
      "deferred' = (deferred @ [task]) @ def" "holds_tasks pg (ts @ ins) graph'"
      "mset tasks = mset ins + mset def" by blast
    then show ?thesis by (intro exI [of _ ins] exI [of _ "task # def"]) simp
  qed
qed simp

lemma rebuild_loop_Ok:
  assumes "holds_tasks pg ts graph" "rebuild_loop pg pending graph = Ok graph'"
  shows "\<exists>ins. holds_tasks pg (ts @ ins) graph' \<and> mset ins = mset pending"
  using assms
proof (induction "length pending" arbitrary: pending graph ts rule: less_induct)
  case less
  show ?case
  proof (cases "pending = []")
    case False
    with less.prems(2) obtain g def where
      r: "insert_ready pg pending graph [] = Ok (g, def)" "length def \<noteq> length pending"
        "rebuild_loop pg def g = Ok graph'"
      by (subst (asm) rebuild_loop.simps) (auto split: sum.splits prod.splits if_splits)
    from insert_ready_Ok [OF less.prems(1) r(1)] obtain ins where
      ins: "holds_tasks pg (ts @ ins) g" "mset pending = mset ins + mset def" by auto
    have "length def < length pending" using insert_ready_length [OF r(1)] r(2) by simp
    from less.hyps [OF this ins(1) r(3)] obtain ins' where
      "holds_tasks pg ((ts @ ins) @ ins') graph'" "mset ins' = mset def" by blast
    then show ?thesis using ins(2) by (intro exI [of _ "ins @ ins'"]) simp
  qed (use less.prems in \<open>simp add: rebuild_loop.simps\<close>)
qed

lemma some_insertable:
  assumes "well_founded_tasks (ts @ pending)" "pending \<noteq> []"
  obtains t where "t \<in> set pending" "set (tn_dependencies t) \<subseteq> task_ids ts"
proof -
  let ?r = "depends_rel (ts @ pending)"
  have "finite ?r"
  proof -
    have "?r \<subseteq> (\<Union>t \<in> set (ts @ pending). set (tn_dependencies t)) \<times> task_ids (ts @ pending)"
      by (auto simp: depends_rel_def task_ids_def)
    then show ?thesis by (rule finite_subset) (simp add: task_ids_def)
  qed
  with assms(1) have "wf ?r" by (simp add: well_founded_tasks_def finite_acyclic_wf)
  moreover have "task_ids pending \<noteq> {}" using assms(2) by (simp add: task_ids_def)
  ultimately obtain z where z: "z \<in> task_ids pending" "\<And>y. (y, z) \<in> ?r \<Longrightarrow> y \<notin> task_ids pending"
    by (metis wfE_min ex_in_conv)
  then obtain t where t: "t \<in> set pending" "z = tn_id t" by (auto simp: task_ids_def)
  have "d \<in> task_ids ts" if "d \<in> set (tn_dependencies t)" for d
  proof -
    have "(d, z) \<in> ?r" using that t by (auto simp: depends_rel_def)
    moreover have "d \<in> task_ids (ts @ pending)"
      using assms(1) t(1) that unfolding well_founded_tasks_def by auto
    ultimately show ?thesis using z(2) by (auto simp: task_ids_def)
  qed
  with t(1) that show thesis by blast
qed

lemma well_founded_tasks_perm:
  assumes "mset xs = mset ys" "well_founded_tasks xs" shows "well_founded_tasks ys"
proof -
  have "set xs = set ys" using assms(1) by (metis set_mset_mset)
  moreover have "distinct (map tn_id xs) = distinct (map tn_id ys)"
    using assms(1) by (metis mset_eq_imp_distinct_iff mset_map)
  ultimately show ?thesis
    using assms(2) by (simp add: well_founded_tasks_def task_ids_def depends_rel_def)
qed

lemma rebuild_loop_complete:
  assumes "holds_tasks pg ts graph" "well_founded_tasks (ts @ pending)"
  shows "\<exists>graph'. rebuild_loop pg pending graph = Ok graph' \<and> tg_job_id graph' = tg_job_id graph"
  using assms
proof (induction "length pending" arbitrary: pending graph ts rule: less_induct)
  case less
  show ?case
  proof (cases "pending = []")
    case False
    from some_insertable [OF less.prems(2) False] obtain t where
      t: "t \<in> set pending" "set (tn_dependencies t) \<subseteq> task_ids ts" .
    from less.prems(2) have "distinct (map tn_id (ts @ pending))" by (simp add: well_founded_tasks_def)
    from insert_ready_effect [OF less.prems(1) this, of "[]"] obtain g ins def where
      g: "insert_ready pg pending graph [] = Ok (g, def)" "holds_tasks pg (ts @ ins) g"
        "mset pending = mset ins + mset def" "tg_job_id g = tg_job_id graph" "t \<notin> set def"
      using t by auto
    have "t \<in> set ins" using t(1) g(3,5) by (metis Un_iff set_mset_mset set_mset_union)
    then have lt: "length def < length pending"
      using g(3) by (metis add.commute length_pos_if_in_set less_add_same_cancel1 size_mset size_union)
    have "well_founded_tasks ((ts @ ins) @ def)"
      by (rule well_founded_tasks_perm [OF _ less.prems(2)]) (simp add: g(3))
    from less.hyps [OF lt g(2) this] show ?thesis
      using False g(1,4) lt by (subst rebuild_loop.simps) auto
  qed (simp add: rebuild_loop.simps)
qed

lemma holds_tasks_well_founded:
  assumes "holds_tasks pg ts graph"
  shows "well_founded_tasks ts"
proof -
  have inv: "graph_inv pg graph" and nodes: "tg_nodes graph = map (\<lambda>t. (tn_id t, t)) ts"
    using assms by (simp_all add: holds_tasks_def)
  have look: "map_of (tg_nodes graph) (tn_id t) = Some t" if "t \<in> set ts" for t
    using that graph_invD(1) [OF inv] unfolding nodes by (intro map_of_is_SomeI) auto
  have "d \<in> task_ids ts" if "t \<in> set ts" "d \<in> set (tn_dependencies t)" for t d
    using dependency_known [OF inv look [OF that(1)] that(2)] holds_tasks_dom [OF assms] by blast
  moreover have "acyclic (depends_rel ts)"
  proof (rule acyclicI, rule allI, rule notI)
    fix x assume "(x, x) \<in> (depends_rel ts)\<^sup>+"
    moreover have "(the (map_of (tg_index graph) a), the (map_of (tg_index graph) b))
        \<in> (set (pg_raw_edges pg (tg_graph graph)))\<^sup>+" if "(a, b) \<in> (depends_rel ts)\<^sup>+" for a b
      using that
    proof (induction rule: trancl_induct)
      case (base b)
      then obtain t where "t \<in> set ts" "a \<in> set (tn_dependencies t)" "b = tn_id t"
        by (auto simp: depends_rel_def)
      with graph_invD(8) [OF inv look] show ?case by fastforce
    next
      case (step b c)
      then obtain t where "t \<in> set ts" "b \<in> set (tn_dependencies t)" "c = tn_id t"
        by (auto simp: depends_rel_def)
      with graph_invD(8) [OF inv look] have "(the (map_of (tg_index graph) b), the (map_of (tg_index graph) c))
          \<in> set (pg_raw_edges pg (tg_graph graph))" by fastforce
      with step.IH show ?case by (rule trancl_into_trancl)
    qed
    ultimately show False using graph_invD(7) [OF inv] unfolding acyclic_def by blast
  qed
  ultimately show ?thesis
    using holds_tasks_distinct [OF assms] unfolding well_founded_tasks_def by blast
qed

lemma holds_no_tasks: "holds_tasks pg [] (new_graph pg job_id)"
  using new_graph_inv [OF petgraph_laws_axioms, of job_id] by (simp add: holds_tasks_def new_graph_def)

lemma rebuild_graph_Ok:
  assumes "rebuild_graph pg job_id tasks = Ok graph"
  shows "\<exists>ts. holds_tasks pg ts graph \<and> mset ts = mset tasks"
proof -
  have "rebuild_loop pg tasks (new_graph pg job_id) = Ok graph"
    using assms by (auto simp: rebuild_graph_def bindR_eq_Inr_iff)
  from rebuild_loop_Ok [OF holds_no_tasks this] show ?thesis by simp
qed

lemma rebuild_graph_complete:
  assumes "well_founded_tasks tasks"
  shows "\<exists>graph. rebuild_graph pg job_id tasks = Ok graph \<and> tg_job_id graph = job_id"
proof -
  from rebuild_loop_complete [OF holds_no_tasks, of tasks job_id] assms obtain graph where
    g: "rebuild_loop pg tasks (new_graph pg job_id) = Ok graph" "tg_job_id graph = job_id"
    by (auto simp: new_graph_def)
  from rebuild_loop_Ok [OF holds_no_tasks g(1)] have "graph_inv pg graph" by (auto simp: holds_tasks_def)
  then have "assert_acyclic pg graph = Ok ()"
    using assert_acyclic_iff graph_invD(6,7) by blast
  with g show ?thesis by (simp add: rebuild_graph_def)
qed

end

section \<open>Restoring states\<close>

definition reset_state :: "TaskState \<Rightarrow> TaskState" where
  "reset_state s = (if state_is_terminal s then s else TaskState.Created)"

text \<open>A task as the journal describes it, and as recovery restores it.\<close>

definition journalled :: "'v Recovering \<Rightarrow> TaskNode \<Rightarrow> TaskNode" where
  "journalled e t =
     t\<lparr>tn_state := (case map_of (rc_task_states e) (tn_id t) of Some s \<Rightarrow> s | None \<Rightarrow> tn_state t),
       tn_attempt := (case map_of (rc_attempts e) (tn_id t) of Some a \<Rightarrow> a | None \<Rightarrow> tn_attempt t)\<rparr>"

definition reset_node :: "TaskNode \<Rightarrow> TaskNode" where
  "reset_node n = n\<lparr>tn_state := reset_state (tn_state n)\<rparr>"

text \<open>One round of the loop, as an update of one record.\<close>

definition restored_by :: "(TaskId, u32) hashmap \<Rightarrow> TaskState \<Rightarrow> TaskNode \<Rightarrow> TaskNode" where
  "restored_by attempts st n =
     n\<lparr>tn_state := reset_state st,
       tn_attempt := (case map_of attempts (tn_id n) of Some a \<Rightarrow> a | None \<Rightarrow> tn_attempt n)\<rparr>"

lemma update_task_update_task:
  "update_task i f (update_task i g s) = update_task i (f \<circ> g) s"
  by (simp add: update_task_def split: option.split)

lemma update_task_cong:
  "(\<And>n. map_of (tg_nodes s) i = Some n \<Longrightarrow> f n = g n) \<Longrightarrow> update_task i f s = update_task i g s"
  by (simp add: update_task_def split: option.split)

lemma update_task_keys [simp]: "map fst (tg_nodes (update_task i f s)) = map fst (tg_nodes s)"
proof (cases "map_of (tg_nodes s) i")
  case (Some n)
  then have "i \<in> set (map fst (tg_nodes s))" by (force dest: map_of_SomeD)
  with Some show ?thesis by (simp add: update_task_def update_keys)
qed (simp add: update_task_def)

lemma restore_round:
  assumes "map_of (tg_nodes graph) i = Some n" "tn_id n = i"
  shows "restore_loop attempts ((i, st) # states) graph k =
    restore_loop attempts states (update_task i (restored_by attempts st) graph)
      (if state_is_terminal st then k else k + 1)"
proof -
  have "restore_state i (reset_state st) graph =
      (update_task i (\<lambda>n. n\<lparr>tn_state := reset_state st\<rparr>) graph, Ok ())"
    using assms(1) by (simp add: restore_state_def)
  moreover have "(case map_of attempts i of
        Some a \<Rightarrow> update_task i (\<lambda>n. n\<lparr>tn_attempt := a\<rparr>) (update_task i (\<lambda>n. n\<lparr>tn_state := reset_state st\<rparr>) graph)
      | None \<Rightarrow> update_task i (\<lambda>n. n\<lparr>tn_state := reset_state st\<rparr>) graph) =
    update_task i (restored_by attempts st) graph"
    using assms
    by (cases "map_of attempts i")
      (auto simp: update_task_update_task restored_by_def intro!: update_task_cong)
  ultimately show ?thesis by (simp add: Let_def reset_state_def [symmetric])
qed

lemma restored_by_inv: "graph_inv pg s \<Longrightarrow> graph_inv pg (update_task i (restored_by attempts st) s)"
  by (rule update_task_inv) (simp_all add: restored_by_def)

lemma restored_by_id [simp]: "tn_id (restored_by attempts st n) = tn_id n"
  by (simp add: restored_by_def)

lemma restore_loop_effect:
  assumes "keys_distinct states" "fst ` set states \<subseteq> dom (map_of (tg_nodes graph))" "graph_inv pg graph"
  shows "\<exists>graph'. restore_loop attempts states graph k =
      Ok (graph', k + length (filter (\<lambda>(i, st). \<not> state_is_terminal st) states)) \<and>
    graph_inv pg graph' \<and> tg_job_id graph' = tg_job_id graph \<and>
    map fst (tg_nodes graph') = map fst (tg_nodes graph) \<and>
    (\<forall>i. map_of (tg_nodes graph') i =
       (case map_of states i of None \<Rightarrow> map_of (tg_nodes graph) i
        | Some st \<Rightarrow> map_option (restored_by attempts st) (map_of (tg_nodes graph) i)))"
  using assms
proof (induction states arbitrary: graph k)
  case (Cons a states)
  obtain i st where a: "a = (i, st)" by (cases a)
  with Cons.prems(2) obtain n where n: "map_of (tg_nodes graph) i = Some n" by auto
  let ?g = "update_task i (restored_by attempts st) graph"
  have dom: "dom (map_of (tg_nodes ?g)) = dom (map_of (tg_nodes graph))"
    by (auto simp: map_of_update_task split: option.splits if_splits)
  from Cons.IH [of ?g "if state_is_terminal st then k else k + 1"] Cons.prems a obtain graph' where
    *: "restore_loop attempts states ?g (if state_is_terminal st then k else k + 1) =
        Ok (graph', (if state_is_terminal st then k else k + 1) +
          length (filter (\<lambda>(i, st). \<not> state_is_terminal st) states))"
      "graph_inv pg graph'" "tg_job_id graph' = tg_job_id ?g"
      "map fst (tg_nodes graph') = map fst (tg_nodes ?g)"
      "\<forall>j. map_of (tg_nodes graph') j =
         (case map_of states j of None \<Rightarrow> map_of (tg_nodes ?g) j
          | Some st \<Rightarrow> map_option (restored_by attempts st) (map_of (tg_nodes ?g) j))"
    unfolding dom by (auto simp: restored_by_inv)
  have free: "map_of states i = None" using Cons.prems(1) a by (auto simp: map_of_eq_None_iff)
  have "map_of (tg_nodes graph') j =
      (case map_of (a # states) j of None \<Rightarrow> map_of (tg_nodes graph) j
       | Some st \<Rightarrow> map_option (restored_by attempts st) (map_of (tg_nodes graph) j))" for j
    using *(5) free n a by (cases "j = i") (auto simp: map_of_update_task split: option.split)
  with * show ?case
    unfolding a restore_round [OF n graph_invD(5) [OF Cons.prems(3) n]]
    by (intro exI [of _ graph']) auto
qed simp

section \<open>What a handle and its journal have in common\<close>

text \<open>
  \<open>mirrors h e\<close>: the records absorbed into \<open>e\<close> describe the live handle \<open>h\<close> as far as a restart
  can tell: the same job (up to the time stamps the journal does not carry and the status of an
  unfinished job), every task with its live attempt and in its live state up to \<open>reset_state\<close>, and
  the same results, failures, transitions and final result.
\<close>

definition same_job :: "Job \<Rightarrow> Job \<Rightarrow> bool" where
  "same_job a b \<longleftrightarrow>
     j_id a = j_id b \<and> j_request a = j_request b \<and> j_correlation_id a = j_correlation_id b \<and>
     j_created_at a = j_created_at b \<and>
     (is_finished (j_status a) \<or> is_finished (j_status b) \<longrightarrow> j_status a = j_status b)"

lemma same_jobD:
  assumes "same_job a b"
  shows "j_id a = j_id b" "j_request a = j_request b" "j_correlation_id a = j_correlation_id b"
    "is_finished (j_status a) = is_finished (j_status b)"
    "is_finished (j_status b) \<Longrightarrow> j_status a = j_status b"
  using assms unfolding same_job_def by metis+

definition mirrors :: "('v, 'g) JobHandle \<Rightarrow> 'v Recovering \<Rightarrow> bool" where
  "mirrors h e \<longleftrightarrow>
     (\<exists>job. rc_job e = Some job \<and> same_job (jh_job h) job) \<and>
     well_founded_tasks (rc_tasks e) \<and> list_all (\<lambda>t. tn_state t = TaskState.Created) (rc_tasks e) \<and>
     keys_distinct (rc_task_states e) \<and>
     dom (map_of (rc_attempts e)) = dom (map_of (rc_task_states e)) \<and>
     dom (map_of (rc_task_states e)) \<subseteq> task_ids (rc_tasks e) \<and>
     (\<forall>i. map_option reset_node (map_of (tg_nodes (jh_graph h)) i) =
        map_option reset_node (map_of (map (\<lambda>t. (tn_id t, journalled e t)) (rc_tasks e)) i)) \<and>
     rc_transitions e = jh_transitions h \<and> rc_results e = jh_results h \<and>
     rc_failures e = jh_failures h \<and> rc_final_result e = jh_final_result h"

lemma mirrorsD:
  assumes "mirrors h e"
  shows "well_founded_tasks (rc_tasks e)" "list_all (\<lambda>t. tn_state t = TaskState.Created) (rc_tasks e)"
    "keys_distinct (rc_task_states e)" "dom (map_of (rc_attempts e)) = dom (map_of (rc_task_states e))"
    "dom (map_of (rc_task_states e)) \<subseteq> task_ids (rc_tasks e)"
    "\<And>i. map_option reset_node (map_of (tg_nodes (jh_graph h)) i) =
       map_option reset_node (map_of (map (\<lambda>t. (tn_id t, journalled e t)) (rc_tasks e)) i)"
    "rc_transitions e = jh_transitions h" "rc_results e = jh_results h"
    "rc_failures e = jh_failures h" "rc_final_result e = jh_final_result h"
  using assms unfolding mirrors_def by blast+

lemma option_eqI: "(\<And>n. a = Some n \<longleftrightarrow> b = Some n) \<Longrightarrow> a = b"
  by (cases a; cases b) auto

lemma map_of_task_list:
  "distinct (map tn_id ts) \<Longrightarrow>
   map_of (map (\<lambda>t. (tn_id t, f t)) ts) i = Some n \<longleftrightarrow> (\<exists>t \<in> set ts. tn_id t = i \<and> n = f t)"
  by (subst map_of_eq_Some_iff) (auto simp: comp_def)

lemma map_of_task_list_None:
  "map_of (map (\<lambda>t. (tn_id t, f t)) ts) i = None \<longleftrightarrow> i \<notin> task_ids ts"
  by (auto simp: map_of_eq_None_iff task_ids_def image_iff)

lemma journalled_id [simp]: "tn_id (journalled e t) = tn_id t"
  by (simp add: journalled_def)

text \<open>Restoring the planned tasks is resetting the live ones.\<close>

lemma restored_is_reset:
  assumes "tn_state t = TaskState.Created" "dom (map_of (rc_attempts e)) = dom (map_of (rc_task_states e))"
  shows "(case map_of (rc_task_states e) (tn_id t) of None \<Rightarrow> t | Some st \<Rightarrow> restored_by (rc_attempts e) st t) =
    reset_node (journalled e t)"
proof (cases "map_of (rc_task_states e) (tn_id t)")
  case None
  with assms(2) have "map_of (rc_attempts e) (tn_id t) = None" by (metis domIff)
  with None assms(1) show ?thesis
    by (simp add: reset_node_def journalled_def reset_state_def)
next
  case (Some st)
  then show ?thesis by (simp add: reset_node_def journalled_def restored_by_def)
qed

text \<open>
  \<open>resumes h h'\<close>: \<open>h'\<close> is \<open>h\<close> after a restart. Finished tasks are as they were, every other task
  is \<open>Created\<close> again with the attempts it has spent, and nothing that was reported is lost.
\<close>

definition resumes :: "('v, 'g) JobHandle \<Rightarrow> ('v, 'g) JobHandle \<Rightarrow> bool" where
  "resumes h h' \<longleftrightarrow>
     (\<forall>i. map_of (tg_nodes (jh_graph h')) i = map_option reset_node (map_of (tg_nodes (jh_graph h)) i)) \<and>
     jh_results h' = jh_results h \<and> jh_failures h' = jh_failures h \<and>
     jh_transitions h' = jh_transitions h \<and> jh_final_result h' = jh_final_result h \<and>
     j_id (jh_job h') = j_id (jh_job h) \<and> j_request (jh_job h') = j_request (jh_job h) \<and>
     j_correlation_id (jh_job h') = j_correlation_id (jh_job h) \<and>
     j_status (jh_job h') =
       (if is_finished (j_status (jh_job h)) then j_status (jh_job h) else JobStatus.Planning) \<and>
     jh_agents h' = [] \<and> jh_control h' = Control.Running"

lemma reset_node_idem [simp]: "reset_node (reset_node n) = reset_node n"
  by (simp add: reset_node_def reset_state_def state_is_terminal_def)

lemma build_mirrors:
  assumes "petgraph_laws pg" "mirrors h e"
  shows "\<exists>h'. build_handle pg buffer e = Ok h' \<and> resumes h h' \<and> mirrors h' e \<and>
    graph_inv pg (jh_graph h') \<and> tg_job_id (jh_graph h') = j_id (jh_job h)"
proof -
  note m = mirrorsD [OF assms(2)]
  have dist: "distinct (map tn_id (rc_tasks e))" using m(1) by (simp add: well_founded_tasks_def)
  obtain job where job: "rc_job e = Some job" "same_job (jh_job h) job"
    using assms(2) unfolding mirrors_def by blast
  from petgraph_laws.rebuild_graph_complete [OF assms(1) m(1), of "j_id job"] obtain g0 where
    g0: "rebuild_graph pg (j_id job) (rc_tasks e) = Ok g0" "tg_job_id g0 = j_id job" by blast
  from petgraph_laws.rebuild_graph_Ok [OF assms(1) g0(1)] obtain ts where
    ts: "holds_tasks pg ts g0" "mset ts = mset (rc_tasks e)" by blast
  have inv0: "graph_inv pg g0" using ts(1) by (simp add: holds_tasks_def)
  have set_ts: "set ts = set (rc_tasks e)" using ts(2) by (metis set_mset_mset)
  have look0: "map_of (tg_nodes g0) i = map_of (map (\<lambda>t. (tn_id t, t)) (rc_tasks e)) i" for i
  proof -
    have "tg_nodes g0 = map (\<lambda>t. (tn_id t, t)) ts" using ts(1) by (simp add: holds_tasks_def)
    then show ?thesis
      using map_of_task_list [OF holds_tasks_distinct [OF ts(1)], of "\<lambda>t. t" i]
        map_of_task_list [OF dist, of "\<lambda>t. t" i]
      by (intro option_eqI) (simp add: set_ts)
  qed
  have "dom (map_of (tg_nodes g0)) = task_ids (rc_tasks e)"
    unfolding dom_def task_ids_def set_ts [symmetric]
    using holds_tasks_dom [OF ts(1)] by (simp add: task_ids_def)
  with m(5) have "fst ` set (rc_task_states e) \<subseteq> dom (map_of (tg_nodes g0))"
    by (simp add: dom_map_of_conv_image_fst)
  from restore_loop_effect [OF m(3) this inv0, of "rc_attempts e" 0] obtain g where
    g: "restore_loop (rc_attempts e) (rc_task_states e) g0 0 =
        Ok (g, length (filter (\<lambda>(i, st). \<not> state_is_terminal st) (rc_task_states e)))"
      "graph_inv pg g" "tg_job_id g = tg_job_id g0"
      "\<And>i. map_of (tg_nodes g) i =
         (case map_of (rc_task_states e) i of None \<Rightarrow> map_of (tg_nodes g0) i
          | Some st \<Rightarrow> map_option (restored_by (rc_attempts e) st) (map_of (tg_nodes g0) i))" by auto
  have nodes: "map_of (tg_nodes g) i = map_option reset_node (map_of (tg_nodes (jh_graph h)) i)" for i
  proof (cases "map_of (map (\<lambda>t. (tn_id t, t)) (rc_tasks e)) i")
    case None
    moreover from None have "map_of (map (\<lambda>t. (tn_id t, journalled e t)) (rc_tasks e)) i = None"
      unfolding map_of_task_list_None .
    ultimately show ?thesis
      unfolding g(4) look0 m(6) by (simp split: option.split)
  next
    case (Some t)
    then have t: "t \<in> set (rc_tasks e)" "tn_id t = i" using map_of_task_list [OF dist, of "\<lambda>t. t" i t] by simp_all
    have "map_of (map (\<lambda>t. (tn_id t, journalled e t)) (rc_tasks e)) i = Some (journalled e t)"
      using map_of_task_list [OF dist, of "journalled e" i] t by blast
    moreover have "tn_state t = TaskState.Created" using m(2) t(1) by (auto simp: list_all_iff)
    note restored_is_reset [OF this m(4)]
    ultimately show ?thesis
      unfolding g(4) look0 m(6) Some using t(2) by (auto split: option.splits)
  qed
  let ?k = "length (filter (\<lambda>(i, st). \<not> state_is_terminal st) (rc_task_states e))"
  have "\<exists>h'. build_handle pg buffer e = Ok h' \<and> jh_graph h' = g \<and> jh_job h' = rewind_job ?k job \<and>
    jh_results h' = rc_results e \<and> jh_failures h' = rc_failures e \<and>
    jh_transitions h' = rc_transitions e \<and> jh_final_result h' = rc_final_result e \<and>
    jh_agents h' = [] \<and> jh_control h' = Control.Running"
    using g(1) job(1) by (simp add: build_handle_def g0(1))
  then obtain h' where h': "build_handle pg buffer e = Ok h'" "jh_graph h' = g"
    "jh_job h' = rewind_job ?k job" "jh_results h' = rc_results e" "jh_failures h' = rc_failures e"
    "jh_transitions h' = rc_transitions e" "jh_final_result h' = rc_final_result e"
    "jh_agents h' = []" "jh_control h' = Control.Running" by blast
  have "resumes h h'"
    unfolding resumes_def h' nodes m(7-10)
    using same_jobD [OF job(2)] by (cases "is_finished (j_status job)") (simp_all add: rewind_job_def)
  moreover have again: "map_option reset_node (map_of (tg_nodes (jh_graph h')) i) =
      map_option reset_node (map_of (map (\<lambda>t. (tn_id t, journalled e t)) (rc_tasks e)) i)" for i
    using m(6) [of i] nodes [of i] by (simp add: h'(2) option.map_comp comp_def)
  have "mirrors h' e"
    unfolding mirrors_def
  proof (intro conjI allI exI)
    show "rc_job e = Some job" by (rule job(1))
    show "same_job (jh_job h') job" by (simp add: h'(3) rewind_job_def same_job_def)
  qed (fact m again h'(4-7) [symmetric])+
  ultimately show ?thesis
    using g(2,3) g0(2) job(2) h'(1,2) \<open>mirrors h' e\<close> same_jobD(1) [OF job(2)] by simp
qed

end
