(* ===== verification/Aggregate.thy ===== *)
theory Aggregate
  imports TaskGraph
begin

text \<open>
  Merging the outputs of a job (\<open>crates/coordinator/src/aggregate.rs\<close>). What Unicode and the
  formatter decide is a record of functions: which characters are alphanumeric, lower-casing, and
  the rendering of a percentage without decimals. Confidences, supports and similarities are real
  numbers; a \<open>HashSet<String>\<close> is a set.
\<close>

section \<open>Text\<close>

record text_ops =
  tx_alphanumeric :: "string \<Rightarrow> bool"
  tx_lower :: "string \<Rightarrow> string"
  tx_percent :: "real \<Rightarrow> string"

text \<open>The characters of a string, each as its UTF-8 bytes.\<close>

function chars_of :: "string \<Rightarrow> string list" where
  "chars_of [] = []"
| "chars_of (c # cs) = (c # takeWhile is_continuation cs) # chars_of (dropWhile is_continuation cs)"
  by pat_completeness auto
termination
  by (relation "measure length") (auto simp: less_Suc_eq_le length_dropWhile_le)

fun split_when :: "(string \<Rightarrow> bool) \<Rightarrow> string \<Rightarrow> string list \<Rightarrow> string list" where
  "split_when sep cur [] = [cur]"
| "split_when sep cur (ch # chs) =
     (if sep ch then cur # split_when sep [] chs else split_when sep (cur @ ch) chs)"

definition tokens :: "text_ops \<Rightarrow> string \<Rightarrow> string set" where
  "tokens T text =
     set (map (tx_lower T)
       (filter (\<lambda>word. length word > 3)
         (split_when (\<lambda>ch. \<not> tx_alphanumeric T ch) [] (chars_of text))))"

definition similarity :: "string set \<Rightarrow> string set \<Rightarrow> real" where
  "similarity left right =
     (if left = {} \<and> right = {} then 1
      else let intersection = real (card (left \<inter> right)); union = real (card (left \<union> right))
           in if union = 0 then 0 else intersection / union)"

definition SAME_ANSWER :: real where "SAME_ANSWER = 60 / 100"
definition REDUNDANT :: real where "REDUNDANT = 85 / 100"
definition DISAGREEMENT :: real where "DISAGREEMENT = 30 / 100"
definition MAX_EVIDENCE :: nat where "MAX_EVIDENCE = 20"

definition headline :: "string \<Rightarrow> string" where
  "headline output =
     (let first_line = trim (takeWhile (\<lambda>c. c \<noteq> CHR 0x0A) output);
          sentence = hd (split_str ''. '' [] first_line)
      in take_chars 240 sentence)"

section \<open>Clustering and consensus\<close>

datatype ConsensusMode = Majority | ConfidenceWeighted

record ConsensusReport =
  cr_mode :: ConsensusMode
  cr_winner :: string
  cr_winning_task :: TaskId
  cr_agreement_rate :: real
  cr_votes :: nat
  cr_distinct_positions :: nat

text \<open>The first cluster that accepts the index gets it; otherwise it opens a new one.\<close>

fun join_cluster :: "(nat list \<Rightarrow> bool) \<Rightarrow> nat \<Rightarrow> nat list list \<Rightarrow> nat list list" where
  "join_cluster accepts index [] = [[index]]"
| "join_cluster accepts index (members # clusters) =
     (if accepts members then (members @ [index]) # clusters
      else members # join_cluster accepts index clusters)"

definition cluster :: "text_ops \<Rightarrow> 'v TaskResult list \<Rightarrow> real \<Rightarrow> nat list list" where
  "cluster T results threshold =
     (let fingerprints = map (\<lambda>r. tokens T (tr_output r)) results in
      fold (\<lambda>index.
          join_cluster
            (list_ex (\<lambda>member. similarity (fingerprints ! member) (fingerprints ! index) \<ge> threshold))
            index)
        [0..<length results] [])"

definition cluster_weight :: "'v TaskResult list \<Rightarrow> nat list \<Rightarrow> real" where
  "cluster_weight results members = sum_list (map (\<lambda>index. tr_confidence (results ! index)) members)"

definition winning_cluster ::
  "'v TaskResult list \<Rightarrow> ConsensusMode \<Rightarrow> nat list list \<Rightarrow> (nat list \<times> real) option" where
  "winning_cluster results mode clusters =
     (case mode of
        Majority \<Rightarrow>
          map_option (\<lambda>winner. (winner, real (length winner) / real (length results)))
            (max_by (\<lambda>a b. length b < length a) clusters)
      | ConfidenceWeighted \<Rightarrow>
          (let total_weight = sum_list (map tr_confidence results) in
           map_option
             (\<lambda>winner. (winner, if total_weight > 0 then cluster_weight results winner / total_weight else 0))
             (max_by (\<lambda>a b. cluster_weight results b < cluster_weight results a) clusters)))"

definition consensus ::
  "text_ops \<Rightarrow> 'v TaskResult list \<Rightarrow> ConsensusMode \<Rightarrow> ConsensusReport option" where
  "consensus T results mode =
     (if length results < 2 then None
      else
        let clusters = cluster T results SAME_ANSWER in
        Option.bind (winning_cluster results mode clusters) (\<lambda>(winner, agreement_rate).
        Option.bind (max_by (\<lambda>a b. tr_confidence (results ! b) < tr_confidence (results ! a)) winner) (\<lambda>best.
          Some \<lparr>cr_mode = mode, cr_winner = tr_output (results ! best),
                cr_winning_task = tr_task_id (results ! best), cr_agreement_rate = agreement_rate,
                cr_votes = length results, cr_distinct_positions = length clusters\<rparr>)))"

definition conflict_between :: "'v TaskResult \<Rightarrow> 'v TaskResult \<Rightarrow> Conflict" where
  "conflict_between first second =
     \<lparr>cf_description = ''`'' @ tr_title first @ ''` and `'' @ tr_title second @
        ''` reached materially different conclusions'',
      cf_claims = [headline (tr_output first), headline (tr_output second)],
      cf_task_ids = [tr_task_id first, tr_task_id second],
      cf_attempted_resolution = ''similarity clustering''\<rparr>"

definition conflicts :: "text_ops \<Rightarrow> 'v TaskResult list \<Rightarrow> Conflict list" where
  "conflicts T results =
     (let clusters = cluster T results SAME_ANSWER in
      if length clusters < 2 then []
      else
        let representatives = map hd (filter (\<lambda>members. members \<noteq> []) clusters);
            fingerprints = map (\<lambda>index. tokens T (tr_output (results ! index))) representatives
        in concat (map (\<lambda>left.
             concat (map (\<lambda>right.
               if similarity (fingerprints ! left) (fingerprints ! right) > DISAGREEMENT then []
               else [conflict_between (results ! (representatives ! left))
                       (results ! (representatives ! right))])
             [left + 1..<length representatives]))
           [0..<length representatives]))"

section \<open>Merging\<close>

text \<open>The loop of \<open>drop_redundant\<close>: the results kept so far with their fingerprints.\<close>

definition keep_new ::
  "text_ops \<Rightarrow> 'v TaskResult \<Rightarrow> 'v TaskResult list \<times> string set list \<Rightarrow>
   'v TaskResult list \<times> string set list" where
  "keep_new T res = (\<lambda>(kept, fingerprints).
     let fingerprint = tokens T (tr_output res) in
     if list_ex (\<lambda>existing. similarity existing fingerprint \<ge> REDUNDANT) fingerprints
     then (kept, fingerprints) else (kept @ [res], fingerprints @ [fingerprint]))"

definition drop_redundant :: "text_ops \<Rightarrow> 'v TaskResult list \<Rightarrow> 'v TaskResult list" where
  "drop_redundant T ordered = fst (fold (keep_new T) ordered ([], []))"

definition concludes :: "TaskKind \<Rightarrow> bool" where
  "concludes kind \<longleftrightarrow>
     kind \<in> {TaskKind.Merge, TaskKind.Summarize, TaskKind.Reduce, TaskKind.Judge}"

definition summarize ::
  "text_ops \<Rightarrow> 'v TaskResult list \<Rightarrow> ConsensusReport option \<Rightarrow> string \<Rightarrow> string" where
  "summarize T kept agreement objective =
     (case find (\<lambda>r. concludes (tr_kind r)) (rev kept) of
        Some r \<Rightarrow> tr_output r
      | None \<Rightarrow>
          (case agreement of
             Some report \<Rightarrow>
               ''Consensus ('' @ tx_percent T (cr_agreement_rate report * 100) @
               ''% agreement across '' @ dec (cr_votes report) @ '' answers): '' @ cr_winner report
           | None \<Rightarrow>
               if kept = [] then ''No validated output was produced for: '' @ objective
               else
                 ''Findings for: '' @ objective @ [CHR 0x0A] @
                 concat (map (\<lambda>r. [CHR 0x0A] @ ''- '' @ tr_title r @ '': '' @ headline (tr_output r))
                   (take 3 (sort_key (\<lambda>r. - tr_confidence r) kept)))))"

definition confidence :: "'v TaskResult list \<Rightarrow> 'g TaskGraph \<Rightarrow> nat \<Rightarrow> real" where
  "confidence kept graph conflict_count =
     (if kept = [] then 0
      else
        let mean = sum_list (map tr_confidence kept) / real (length kept);
            cs = counts graph;
            completion = (if gc_total cs = 0 then 0 else real (gc_completed cs) / real (gc_total cs));
            penalty = 1 / 10 * real conflict_count
        in clamp 0 1 (mean * completion - penalty))"

definition note_evidence :: "Evidence \<Rightarrow> (string \<times> string) set \<times> Evidence list \<Rightarrow> (string \<times> string) set \<times> Evidence list" where
  "note_evidence item = (\<lambda>(seen, evidence).
     if (ev_source item, ev_claim item) \<in> seen then (seen, evidence)
     else (insert (ev_source item, ev_claim item) seen, evidence @ [item]))"

definition merge_evidence :: "'v TaskResult list \<Rightarrow> Evidence list" where
  "merge_evidence kept =
     take MAX_EVIDENCE
       (sort_key (\<lambda>e. - ev_support e)
         (snd (fold note_evidence (concat (map tr_evidence kept)) ({}, []))))"

definition stage_of :: "'g TaskGraph \<Rightarrow> TaskId \<Rightarrow> u32 option" where
  "stage_of graph i = map_of (map (\<lambda>n. (tn_id n, tn_stage n)) (rev (hm_values (tg_nodes graph)))) i"

definition reportable :: "'g TaskGraph \<Rightarrow> 'v TaskResult list \<Rightarrow> 'v TaskResult list" where
  "reportable graph results =
     sort_key (\<lambda>r. (stage_of graph (tr_task_id r), tr_title r))
       (filter (\<lambda>r. passed_validation r \<and> is_reportable (tr_kind r)) results)"

definition structured_output :: "'v TaskResult \<Rightarrow> 'v StructuredOutput" where
  "structured_output r =
     \<lparr>so_task_id = tr_task_id r, so_kind = kind_as_str (tr_kind r), so_title = tr_title r,
      so_content = tr_output r, so_data = tr_structured r, so_confidence = tr_confidence r\<rparr>"

definition aggregate ::
  "text_ops \<Rightarrow> Job \<Rightarrow> 'g TaskGraph \<Rightarrow> 'v TaskResult list \<Rightarrow> JobStatus \<Rightarrow> ExecutionStatistics \<Rightarrow>
   'v FinalResult" where
  "aggregate T job graph results status statistics =
     (let ordered = reportable graph results;
          answers = filter (\<lambda>r. tr_kind r = TaskKind.Answer) ordered;
          kept = drop_redundant T ordered;
          unresolved = conflicts T answers;
          agreement = (if needs_consensus (jr_execution_strategy (j_request job))
                       then consensus T answers ConfidenceWeighted else None)
      in \<lparr>fr_job_id = j_id job, fr_status = status,
          fr_summary = summarize T kept agreement (jr_objective (j_request job)),
          fr_outputs = map structured_output kept,
          fr_supporting_evidence = merge_evidence kept,
          fr_confidence_score = confidence kept graph (length unresolved),
          fr_unresolved_conflicts = unresolved,
          fr_execution_statistics = statistics\<rparr>)"

section \<open>Similarity\<close>

lemma tokens_finite [simp]: "finite (tokens T text)"
  by (simp add: tokens_def)

lemma similarity_bounds: "0 \<le> similarity a b \<and> similarity a b \<le> 1"
proof -
  have "card (a \<inter> b) \<le> card (a \<union> b)" if "finite (a \<union> b)"
    using that by (intro card_mono) auto
  then show ?thesis
    by (cases "finite (a \<union> b)") (auto simp: similarity_def Let_def divide_le_eq_1)
qed

lemma similarity_sym: "similarity a b = similarity b a"
  by (auto simp: similarity_def Let_def Int_commute Un_commute)

lemma similarity_refl: "finite a \<Longrightarrow> similarity a a = 1"
  by (simp add: similarity_def Let_def)

section \<open>Clusters partition the results\<close>

lemma mset_join_cluster: "mset (concat (join_cluster p i cs)) = add_mset i (mset (concat cs))"
  by (induction p i cs rule: join_cluster.induct) auto

lemma join_cluster_nonempty: "[] \<notin> set cs \<Longrightarrow> [] \<notin> set (join_cluster p i cs)"
  by (induction p i cs rule: join_cluster.induct) auto

lemma fold_join_cluster:
  "mset (concat (fold (\<lambda>i. join_cluster (p i) i) is cs)) = mset is + mset (concat cs) \<and>
   ([] \<notin> set cs \<longrightarrow> [] \<notin> set (fold (\<lambda>i. join_cluster (p i) i) is cs))"
  by (induction "is" arbitrary: cs) (simp_all add: mset_join_cluster join_cluster_nonempty)

lemma cluster_partition:
  shows "mset (concat (cluster T results thr)) = mset [0..<length results]"
    and "[] \<notin> set (cluster T results thr)"
  using fold_join_cluster [of _ "[0..<length results]" "[]"]
  unfolding cluster_def Let_def by (simp_all add: fold_join_cluster)

lemma cluster_member:
  assumes "members \<in> set (cluster T results thr)" "i \<in> set members"
  shows "i < length results"
proof -
  have "i \<in> set_mset (mset (concat (cluster T results thr)))" using assms by auto
  then show ?thesis unfolding cluster_partition(1) by simp
qed

lemma cluster_nonempty:
  assumes "results \<noteq> []" shows "cluster T results thr \<noteq> []"
proof
  assume "cluster T results thr = []"
  with cluster_partition(1) [of T results thr] have "mset [0..<length results] = mset []" by simp
  then have "length [0..<length results] = 0" by (metis list.size(3) size_mset)
  with assms show False by simp
qed

lemma sum_list_map_concat: "sum_list (map (\<lambda>m. sum_list (map f m)) xss) = (sum_list (map f (concat xss)) :: real)"
  by (induction xss) simp_all

lemma cluster_weight_total:
  "sum_list (map (cluster_weight results) (cluster T results thr)) = sum_list (map tr_confidence results)"
proof -
  let ?f = "\<lambda>i. tr_confidence (results ! i)"
  have "sum_list (map (cluster_weight results) (cluster T results thr)) =
      sum_list (map ?f (concat (cluster T results thr)))"
    unfolding cluster_weight_def by (rule sum_list_map_concat)
  also have "\<dots> = sum_mset (image_mset ?f (mset (concat (cluster T results thr))))"
    by (metis mset_map sum_mset_sum_list)
  also have "\<dots> = sum_list (map ?f [0..<length results])"
    unfolding cluster_partition(1) by (metis mset_map sum_mset_sum_list)
  also have "\<dots> = sum_list (map tr_confidence results)"
    by (metis (no_types, lifting) map_nth map_map comp_def map_eq_conv)
  finally show ?thesis .
qed

lemma cluster_length_total: "sum_list (map length (cluster T results thr)) = length results"
proof -
  have "length (concat (cluster T results thr)) = length [0..<length results]"
    using cluster_partition(1) [of T results thr] by (metis size_mset)
  then show ?thesis by (simp add: length_concat)
qed

lemma cluster_count: "length (cluster T results thr) \<le> length results"
proof -
  have "length cs \<le> sum_list (map length cs)" if "[] \<notin> set cs" for cs :: "nat list list"
    using that
  proof (induction cs)
    case (Cons c cs)
    moreover from Cons.prems have "1 \<le> length c" by (cases c) auto
    ultimately show ?case by simp
  qed simp
  from this [OF cluster_partition(2)] show ?thesis by (simp add: cluster_length_total)
qed

lemma weight_le_total:
  "x \<in> set xs \<Longrightarrow> (\<And>y. y \<in> set xs \<Longrightarrow> 0 \<le> f y) \<Longrightarrow> f x \<le> (sum_list (map f xs) :: real)"
proof (induction xs)
  case (Cons a xs)
  have "0 \<le> sum_list (map f xs)" "0 \<le> f a" using Cons.prems(2) by (auto intro!: sum_list_nonneg)
  moreover have "f x \<le> sum_list (map f xs)" if "x \<in> set xs" using Cons.IH [OF that] Cons.prems(2) by simp
  ultimately show ?case using Cons.prems(1) by fastforce
qed simp

section \<open>Consensus\<close>

definition nonneg_confidence :: "'v TaskResult list \<Rightarrow> bool" where
  "nonneg_confidence results \<longleftrightarrow> list_all (\<lambda>r. 0 \<le> tr_confidence r) results"

lemma cluster_weight_nonneg:
  "nonneg_confidence results \<Longrightarrow> members \<in> set (cluster T results thr) \<Longrightarrow> 0 \<le> cluster_weight results members"
  unfolding cluster_weight_def nonneg_confidence_def list_all_iff
  by (intro sum_list_nonneg) (auto dest: cluster_member)

text \<open>What the two modes count for a position.\<close>

fun backing :: "'v TaskResult list \<Rightarrow> ConsensusMode \<Rightarrow> nat list \<Rightarrow> real" where
  "backing results Majority members = real (length members)"
| "backing results ConfidenceWeighted members = cluster_weight results members"

lemma winning_cluster_props:
  assumes "winning_cluster results mode (cluster T results thr) = Some (winner, rate)" "nonneg_confidence results"
  shows "winner \<in> set (cluster T results thr)" "0 \<le> rate" "rate \<le> 1"
    "members \<in> set (cluster T results thr) \<Longrightarrow> backing results mode members \<le> backing results mode winner"
proof -
  let ?cs = "cluster T results thr"
  have "winner \<in> set ?cs \<and> 0 \<le> rate \<and> rate \<le> 1 \<and>
      (\<forall>members \<in> set ?cs. backing results mode members \<le> backing results mode winner)"
  proof (cases mode)
    case Majority
    with assms(1) have w: "max_by (\<lambda>a b. length b < length a) ?cs = Some winner"
      and rate: "rate = real (length winner) / real (length results)"
      by (auto simp: winning_cluster_def)
    have "winner \<in> set ?cs" by (rule max_by_in [OF w])
    moreover from this have "length winner \<le> length results"
      using member_le_sum_list [of "length winner" "map length ?cs"] cluster_length_total [of T results thr]
      by simp
    ultimately show ?thesis
      using max_by_key_max [OF w] Majority rate by (auto simp: divide_le_eq_1)
  next
    case ConfidenceWeighted
    with assms(1) have w: "max_by (\<lambda>a b. cluster_weight results b < cluster_weight results a) ?cs = Some winner"
      and rate: "rate = (if sum_list (map tr_confidence results) > 0
        then cluster_weight results winner / sum_list (map tr_confidence results) else 0)"
      by (auto simp: winning_cluster_def Let_def)
    have m: "winner \<in> set ?cs" by (rule max_by_in [OF w])
    have "cluster_weight results winner \<le> sum_list (map tr_confidence results)"
      using weight_le_total [OF m, of "cluster_weight results"] cluster_weight_nonneg [OF assms(2)]
      by (simp add: cluster_weight_total)
    with m cluster_weight_nonneg [OF assms(2) m] show ?thesis
      using max_by_key_max [OF w] ConfidenceWeighted rate by (auto simp: divide_le_eq_1)
  qed
  then show "winner \<in> set ?cs" "0 \<le> rate" "rate \<le> 1"
    "members \<in> set ?cs \<Longrightarrow> backing results mode members \<le> backing results mode winner" by blast+
qed

section \<open>Redundancy\<close>

lemma subseq_set_subset: "subseq xs ys \<Longrightarrow> set xs \<subseteq> set ys"
  by (induction rule: list_emb.induct) auto

lemma subseq_sorted: "subseq xs ys \<Longrightarrow> sorted ys \<Longrightarrow> sorted xs"
  by (induction rule: list_emb.induct) (use subseq_set_subset in \<open>auto 4 3\<close>)

definition near :: "text_ops \<Rightarrow> 'v TaskResult \<Rightarrow> 'v TaskResult \<Rightarrow> bool" where
  "near T a b \<longleftrightarrow> similarity (tokens T (tr_output a)) (tokens T (tr_output b)) \<ge> REDUNDANT"

lemma near_refl [simp]: "near T r r"
  by (simp add: near_def similarity_refl REDUNDANT_def)

fun drop_near :: "text_ops \<Rightarrow> 'v TaskResult list \<Rightarrow> 'v TaskResult list \<Rightarrow> 'v TaskResult list" where
  "drop_near T kept [] = kept"
| "drop_near T kept (r # rs) =
     drop_near T (if list_ex (\<lambda>k. near T k r) kept then kept else kept @ [r]) rs"

lemma drop_redundant_near: "drop_redundant T ordered = drop_near T [] ordered"
proof -
  have "fst (fold (keep_new T) rs (kept, map (\<lambda>r. tokens T (tr_output r)) kept)) = drop_near T kept rs"
    for kept and rs :: "'a TaskResult list"
  proof (induction rs arbitrary: kept)
    case (Cons r rs)
    let ?kept = "if list_ex (\<lambda>k. near T k r) kept then kept else kept @ [r]"
    have "keep_new T r (kept, map (\<lambda>r. tokens T (tr_output r)) kept) =
        (?kept, map (\<lambda>r. tokens T (tr_output r)) ?kept)"
      by (simp add: keep_new_def Let_def list_ex_iff near_def)
    with Cons.IH [of ?kept] show ?case by simp
  qed simp
  from this [of ordered "[]"] show ?thesis by (simp add: drop_redundant_def)
qed

lemma drop_near_props:
  assumes "sorted_wrt (\<lambda>a b. \<not> near T a b) kept"
  shows "sorted_wrt (\<lambda>a b. \<not> near T a b) (drop_near T kept rs)"
    and "\<exists>ks. drop_near T kept rs = kept @ ks \<and> subseq ks rs"
    and "r \<in> set rs \<Longrightarrow> \<exists>k \<in> set (drop_near T kept rs). near T k r"
proof -
  have "sorted_wrt (\<lambda>a b. \<not> near T a b) (drop_near T kept rs) \<and>
    (\<exists>ks. drop_near T kept rs = kept @ ks \<and> subseq ks rs) \<and>
    (\<forall>r \<in> set rs. \<exists>k \<in> set (drop_near T kept rs). near T k r)"
    using assms
  proof (induction rs arbitrary: kept)
    case (Cons x rs)
    let ?kept = "if list_ex (\<lambda>k. near T k x) kept then kept else kept @ [x]"
    have s: "sorted_wrt (\<lambda>a b. \<not> near T a b) ?kept"
      using Cons.prems by (auto simp: sorted_wrt_append list_ex_iff)
    from Cons.IH [OF s] obtain ks where
      ks: "drop_near T ?kept rs = ?kept @ ks" "subseq ks rs" by blast
    have "\<exists>k \<in> set ?kept. near T k x" by (auto simp: list_ex_iff)
    then have "\<exists>k \<in> set (drop_near T ?kept rs). near T k x" unfolding ks(1) by auto
    moreover have "\<exists>ks'. ?kept @ ks = kept @ ks' \<and> subseq ks' (x # rs)"
      using ks(2) by auto
    ultimately show ?case
      using Cons.IH [OF s] ks by (auto simp only: drop_near.simps set_simps insert_iff)
  qed simp
  then show "sorted_wrt (\<lambda>a b. \<not> near T a b) (drop_near T kept rs)"
    "\<exists>ks. drop_near T kept rs = kept @ ks \<and> subseq ks rs"
    "r \<in> set rs \<Longrightarrow> \<exists>k \<in> set (drop_near T kept rs). near T k r" by blast+
qed

lemma drop_redundant_props:
  shows "sorted_wrt (\<lambda>a b. \<not> near T a b) (drop_redundant T ordered)"
    and "subseq (drop_redundant T ordered) ordered"
    and "r \<in> set ordered \<Longrightarrow> \<exists>k \<in> set (drop_redundant T ordered). near T k r"
  using drop_near_props [where T = T and kept = "[]" and rs = ordered] unfolding drop_redundant_near by auto

section \<open>Evidence\<close>

definition evidence_key :: "Evidence \<Rightarrow> string \<times> string" where
  "evidence_key e = (ev_source e, ev_claim e)"

lemma fold_note_evidence:
  assumes "fold note_evidence items (seen, evidence) = (seen', evidence')"
    "seen = evidence_key ` set evidence" "distinct (map evidence_key evidence)"
  shows "seen' = evidence_key ` set evidence' \<and> distinct (map evidence_key evidence') \<and>
    set evidence' \<subseteq> set evidence \<union> set items \<and>
    evidence_key ` set evidence' = evidence_key ` (set evidence \<union> set items)"
  using assms
proof (induction items arbitrary: seen evidence)
  case (Cons item items)
  let ?dup = "evidence_key item \<in> seen"
  let ?seen = "if ?dup then seen else insert (evidence_key item) seen"
  let ?ev = "if ?dup then evidence else evidence @ [item]"
  have step: "note_evidence item (seen, evidence) = (?seen, ?ev)"
    by (simp add: note_evidence_def evidence_key_def)
  have "fold note_evidence items (?seen, ?ev) = (seen', evidence')"
    using Cons.prems(1) step by simp
  from Cons.IH [OF this] Cons.prems(2,3) have
    "seen' = evidence_key ` set evidence'" "distinct (map evidence_key evidence')"
    "set evidence' \<subseteq> set ?ev \<union> set items"
    "evidence_key ` set evidence' = evidence_key ` (set ?ev \<union> set items)" by auto
  moreover have "evidence_key ` (set ?ev \<union> set items) = evidence_key ` (set evidence \<union> set (item # items))"
    using Cons.prems(2) by auto
  ultimately show ?case by (auto split: if_splits)
qed simp

definition distinct_evidence :: "'v TaskResult list \<Rightarrow> Evidence list" where
  "distinct_evidence kept = snd (fold note_evidence (concat (map tr_evidence kept)) ({}, []))"

lemma distinct_evidence_props:
  shows "distinct (map evidence_key (distinct_evidence kept))"
    and "set (distinct_evidence kept) \<subseteq> (\<Union>r \<in> set kept. set (tr_evidence r))"
    and "evidence_key ` set (distinct_evidence kept) = (\<Union>r \<in> set kept. evidence_key ` set (tr_evidence r))"
proof -
  obtain seen ev where f: "fold note_evidence (concat (map tr_evidence kept)) ({}, []) = (seen, ev)"
    by fastforce
  from fold_note_evidence [OF f] f show "distinct (map evidence_key (distinct_evidence kept))"
    "set (distinct_evidence kept) \<subseteq> (\<Union>r \<in> set kept. set (tr_evidence r))"
    "evidence_key ` set (distinct_evidence kept) = (\<Union>r \<in> set kept. evidence_key ` set (tr_evidence r))"
    by (auto simp: distinct_evidence_def)
qed

lemma merge_evidence_eq: "merge_evidence kept = take 20 (sort_key (\<lambda>e. - ev_support e) (distinct_evidence kept))"
  by (simp add: merge_evidence_def distinct_evidence_def MAX_EVIDENCE_def)

lemma merge_evidence_props:
  shows "length (merge_evidence kept) \<le> 20" "distinct (map evidence_key (merge_evidence kept))"
    "sorted (map (\<lambda>e. - ev_support e) (merge_evidence kept))"
    "set (merge_evidence kept) \<subseteq> set (distinct_evidence kept)"
    "e \<in> set (distinct_evidence kept) \<Longrightarrow> e \<notin> set (merge_evidence kept) \<Longrightarrow> m \<in> set (merge_evidence kept) \<Longrightarrow>
      ev_support e \<le> ev_support m"
proof -
  let ?s = "sort_key (\<lambda>e. - ev_support e) (distinct_evidence kept)"
  have sorted: "sorted (map (\<lambda>e. - ev_support e) ?s)" by simp
  have "mset (map evidence_key ?s) = mset (map evidence_key (distinct_evidence kept))"
    by simp
  then have d: "distinct (map evidence_key ?s)"
    using distinct_evidence_props(1) [of kept] mset_eq_imp_distinct_iff by blast
  show "length (merge_evidence kept) \<le> 20" by (simp add: merge_evidence_eq)
  show "distinct (map evidence_key (merge_evidence kept))"
    using d by (simp add: merge_evidence_eq take_map [symmetric])
  show "sorted (map (\<lambda>e. - ev_support e) (merge_evidence kept))"
    using sorted_wrt_take [OF sorted, of 20] by (simp add: merge_evidence_eq take_map)
  show "set (merge_evidence kept) \<subseteq> set (distinct_evidence kept)"
    using set_take_subset [of 20 ?s] by (simp add: merge_evidence_eq)
  assume e: "e \<in> set (distinct_evidence kept)" "e \<notin> set (merge_evidence kept)" "m \<in> set (merge_evidence kept)"
  have "set ?s = set (take 20 ?s) \<union> set (drop 20 ?s)" by (metis append_take_drop_id set_append)
  moreover have "e \<in> set ?s" using e(1) by simp
  moreover have "e \<notin> set (take 20 ?s)" "m \<in> set (take 20 ?s)" using e(2,3) by (simp_all add: merge_evidence_eq)
  moreover have "\<forall>a \<in> set (take 20 ?s). \<forall>b \<in> set (drop 20 ?s). - ev_support a \<le> - ev_support b"
    using sorted append_take_drop_id [of 20 ?s]
    by (metis (mono_tags, lifting) map_append sorted_append set_map image_eqI)
  ultimately have "- ev_support m \<le> - ev_support e" by blast
  then show "ev_support e \<le> ev_support m" by simp
qed

section \<open>Properties\<close>

definition sample_result :: "TaskId \<Rightarrow> TaskKind \<Rightarrow> string \<Rightarrow> real \<Rightarrow> unit TaskResult" where
  "sample_result i kind output conf =
     \<lparr>tr_task_id = i, tr_job_id = 1, tr_agent_id = 1, tr_attempt = 1, tr_kind = kind, tr_title = ''t'',
      tr_output = output, tr_structured = (), tr_evidence = [], tr_reasoning_summary = [],
      tr_confidence = conf, tr_validation_failures = [], tr_tokens_in = 0, tr_tokens_out = 0,
      tr_cost_usd = 0, tr_duration_ms = 0, tr_deduplicated = False, tr_finished_at = 0\<rparr>"

definition ascii_text :: text_ops where
  "ascii_text = \<lparr>tx_alphanumeric = list_all is_ascii_alphanumeric, tx_lower = map to_ascii_lowercase,
     tx_percent = (\<lambda>r. dec (nat \<lfloor>r\<rfloor>))\<rparr>"

text \<open>
  C39: consensus is decided whenever there are at least two answers, and soundly: the answers are
  partitioned into positions, the winning position is backed by at least as many votes (as much
  confidence) as any other, the representative is a most confident answer of that position, and the
  agreement rate is a fraction. Confidences are non-negative (the runtime clamps them).
\<close>

theorem consensus_sound:
  assumes "nonneg_confidence results"
  shows "mset (concat (cluster T results SAME_ANSWER)) = mset [0..<length results] \<and>
    (consensus T results mode = None \<longleftrightarrow> length results < 2) \<and>
    (\<forall>rep. consensus T results mode = Some rep \<longrightarrow>
       0 \<le> cr_agreement_rate rep \<and> cr_agreement_rate rep \<le> 1 \<and> cr_votes rep = length results \<and>
       1 \<le> cr_distinct_positions rep \<and> cr_distinct_positions rep \<le> length results \<and>
       (\<exists>winner \<in> set (cluster T results SAME_ANSWER). \<exists>best \<in> set winner.
          best < length results \<and> cr_winner rep = tr_output (results ! best) \<and>
          cr_winning_task rep = tr_task_id (results ! best) \<and>
          (\<forall>i \<in> set winner. tr_confidence (results ! i) \<le> tr_confidence (results ! best)) \<and>
          (\<forall>members \<in> set (cluster T results SAME_ANSWER).
             backing results mode members \<le> backing results mode winner)))"
proof (cases "length results < 2")
  case True
  then show ?thesis by (simp add: consensus_def cluster_partition)
next
  case False
  let ?cs = "cluster T results SAME_ANSWER"
  have ne: "?cs \<noteq> []" using False by (intro cluster_nonempty) auto
  then obtain winner rate where w: "winning_cluster results mode ?cs = Some (winner, rate)"
    by (cases mode; cases ?cs) (auto simp: winning_cluster_def Let_def)
  note props = winning_cluster_props [OF w assms]
  have "winner \<noteq> []" using props(1) cluster_partition(2) by metis
  then obtain best where b: "max_by (\<lambda>a b. tr_confidence (results ! b) < tr_confidence (results ! a)) winner = Some best"
    by (metis max_by_None_iff not_None_eq)
  have best: "best \<in> set winner" by (rule max_by_in [OF b])
  have "\<forall>i \<in> set winner. tr_confidence (results ! i) \<le> tr_confidence (results ! best)"
    using max_by_key_max [OF b] by blast
  moreover have "best < length results" by (rule cluster_member [OF props(1) best])
  moreover have "1 \<le> length ?cs" using ne by (cases ?cs) auto
  ultimately show ?thesis
    using False w b best props cluster_count [of T results SAME_ANSWER]
    by (auto simp: consensus_def cluster_partition intro!: bexI [of _ winner] bexI [of _ best])
qed

theorem consensus_sound_witness:
  "\<exists>rep. consensus ascii_text [sample_result 1 TaskKind.Answer ''alpha'' (1 / 2),
      sample_result 2 TaskKind.Answer ''beta'' (1 / 3)] Majority = Some rep \<and> cr_votes rep = 2"
proof -
  let ?rs = "[sample_result 1 TaskKind.Answer ''alpha'' (1 / 2), sample_result 2 TaskKind.Answer ''beta'' (1 / 3)]"
  have "nonneg_confidence ?rs" by (simp add: nonneg_confidence_def sample_result_def)
  note sound = consensus_sound [OF this, of ascii_text Majority]
  have "consensus ascii_text ?rs Majority \<noteq> None" using sound by simp
  then obtain rep where "consensus ascii_text ?rs Majority = Some rep" by blast
  with sound show ?thesis by auto
qed



lemma confidence_bounds:
  "0 \<le> confidence k graph n" "confidence k graph n \<le> 1" "confidence k graph n \<le> real (length k)"
proof -
  show "0 \<le> confidence k graph n" and le: "confidence k graph n \<le> 1"
    using clamp_bounds [of 0 1] by (simp_all add: confidence_def Let_def)
  show "confidence k graph n \<le> real (length k)"
  proof (cases k)
    case (Cons r rs)
    then have "1 \<le> real (length k)" by simp
    with le show ?thesis by linarith
  qed (simp add: confidence_def)
qed

text \<open>
  What the final result claims is bounded: the confidence score is a fraction, it is zero when
  nothing was produced, and the evidence has at most twenty items, no two with the same source and
  claim, all of them cited by a merged output, the best supported first.
\<close>

theorem final_result_bounds:
  "let fr = aggregate T job graph results status statistics in
   0 \<le> fr_confidence_score fr \<and> fr_confidence_score fr \<le> 1 \<and>
   fr_confidence_score fr \<le> real (length (fr_outputs fr)) \<and>
   length (fr_supporting_evidence fr) \<le> 20 \<and>
   distinct (map (\<lambda>e. (ev_source e, ev_claim e)) (fr_supporting_evidence fr)) \<and>
   sorted (map (\<lambda>e. - ev_support e) (fr_supporting_evidence fr)) \<and>
   set (fr_supporting_evidence fr) \<subseteq>
     (\<Union>r \<in> {r \<in> set results. passed_validation r \<and> is_reportable (tr_kind r)}. set (tr_evidence r))"
proof -
  let ?fr = "aggregate T job graph results status statistics"
  define kept where "kept = drop_redundant T (reportable graph results)"
  have fields: "fr_supporting_evidence ?fr = merge_evidence kept" "length (fr_outputs ?fr) = length kept"
    "\<exists>n. fr_confidence_score ?fr = confidence kept graph n"
    by (auto simp: aggregate_def Let_def kept_def)
  have "set kept \<subseteq> set (reportable graph results)"
    unfolding kept_def by (rule subseq_set_subset [OF drop_redundant_props(2)])
  then have "set kept \<subseteq> {r \<in> set results. passed_validation r \<and> is_reportable (tr_kind r)}"
    by (simp add: reportable_def subset_eq)
  moreover have "set (merge_evidence kept) \<subseteq> (\<Union>r \<in> set kept. set (tr_evidence r))"
    using merge_evidence_props(4) distinct_evidence_props(2) by (rule subset_trans)
  ultimately have cited: "set (merge_evidence kept) \<subseteq>
      (\<Union>r \<in> {r \<in> set results. passed_validation r \<and> is_reportable (tr_kind r)}. set (tr_evidence r))"
    by blast
  have "distinct (map (\<lambda>e. (ev_source e, ev_claim e)) (merge_evidence kept))"
    using merge_evidence_props(2) [of kept] unfolding evidence_key_def [abs_def] .
  then show ?thesis
    unfolding Let_def fields(1,2)
    using confidence_bounds fields(3) cited merge_evidence_props(1,3) [of kept] by metis
qed

text \<open>
  Texts whose words all have at most three bytes have no tokens, and two texts without tokens count
  as identical: a debate between \<open>Yes\<close> and \<open>No\<close> has one position, no conflict, and one of the two
  answers is dropped as a restatement of the other.
\<close>

lemma chars_of_concat: "concat (chars_of s) = s"
  by (induction s rule: chars_of.induct) simp_all

lemma split_when_length: "w \<in> set (split_when sep cur chs) \<Longrightarrow> length w \<le> length cur + length (concat chs)"
proof (induction chs arbitrary: cur)
  case (Cons ch chs)
  show ?case
  proof (cases "sep ch")
    case True
    with Cons.prems Cons.IH [of "[]"] show ?thesis by auto
  next
    case False
    with Cons.prems Cons.IH [of "cur @ ch"] show ?thesis by simp
  qed
qed simp

lemma short_text_no_tokens:
  assumes "length text \<le> 3" shows "tokens T text = {}"
  using split_when_length [of _ "\<lambda>ch. \<not> tx_alphanumeric T ch" "[]" "chars_of text"] assms
  by (fastforce simp: tokens_def chars_of_concat filter_empty_conv)

lemma short_answers_agree:
  assumes "tr_output yes = ''Yes''" "tr_output no = ''No''"
  shows "cluster T [yes, no] SAME_ANSWER = [[0, 1]]" "conflicts T [yes, no] = []"
    "drop_redundant T [yes, no] = [yes]"
proof -
  have t: "tokens T ''Yes'' = {}" "tokens T ''No'' = {}" by (simp_all add: short_text_no_tokens)
  show c: "cluster T [yes, no] SAME_ANSWER = [[0, 1]]"
    by (simp add: cluster_def assms t similarity_def SAME_ANSWER_def)
  then show "conflicts T [yes, no] = []" by (simp add: conflicts_def)
  show "drop_redundant T [yes, no] = [yes]"
    by (simp add: drop_redundant_near near_def assms t similarity_def REDUNDANT_def)
qed

end
