(* ===== verification/Engine.thy ===== *)
theory Engine
  imports Recovery Aggregate AgentRuntime
begin

text \<open>
  The execution engine (\<open>crates/coordinator/src/engine.rs\<close>): the loop that drives a planned job.
  Every function works on a \<open>Run\<close> (the handle of the job and the shared services). What the loop
  awaits from outside is a field of \<open>World\<close>: the operator's control channel, the wait for a
  resumption, how the dispatched executions end (each with the agent's answer or a timeout, or all
  of them dropped because the job was cancelled), and the elapsed time. How an execution arrives at
  its answer is the subject of \<open>AgentRuntime\<close>.
\<close>

section \<open>Dispatches and outcomes\<close>

record 'v Dispatch =
  dp_lease :: "'v TaskLease"
  dp_agent :: AgentDescriptor
  dp_task :: TaskNode
  dp_context :: TaskContext
  dp_queue_wait_ms :: u64

datatype 'v outcome = Returned "SwarmError + 'v TaskResult" | Elapsed

record ('v, 'w) World =
  wo_text :: text_ops
  wo_control :: "'w \<Rightarrow> Control \<times> 'w"
  wo_resume :: "'w \<Rightarrow> bool \<times> 'w"
  wo_outcomes :: "'v Dispatch list \<Rightarrow> 'w \<Rightarrow> 'v outcome list option \<times> 'w"
  wo_elapsed_ms :: "'w \<Rightarrow> u64 \<times> 'w"

definition ask :: "('w \<Rightarrow> 'a \<times> 'w) \<Rightarrow> (('v, 'g, 'j, 'w) Run, 'a) op" where
  "ask f s =
     (let (x, w) = f (sv_world (rn_sv s)) in (s\<lparr>rn_sv := (rn_sv s)\<lparr>sv_world := w\<rparr>\<rparr>, Ok x))"

text \<open>An operation of the queue, at the current time.\<close>

definition queue_op ::
  "('v, 'g, 'j, 'w) Env \<Rightarrow> (DateTime \<Rightarrow> 'v Inner \<Rightarrow> 'v Inner \<times> 'a result) \<Rightarrow>
   (('v, 'g, 'j, 'w) Run, 'a) op" where
  "queue_op E f =
     bindS (utc_now E) (\<lambda>now s.
       let (q, r) = f now (sv_queue (rn_sv s)) in (s\<lparr>rn_sv := (rn_sv s)\<lparr>sv_queue := q\<rparr>\<rparr>, r))"

text \<open>An operation whose error is logged and dropped, and one whose error is inspected.\<close>

definition ignoring :: "(('v, 'g, 'j, 'w) Run, 'a) op \<Rightarrow> (('v, 'g, 'j, 'w) Run, unit) op" where
  "ignoring m s = (fst (m s), Ok ())"

definition attempt_op :: "('s, 'a) op \<Rightarrow> ('s, 'a result) op" where
  "attempt_op m s = (case m s of (s', r) \<Rightarrow> (s', Ok r))"

definition job_progress :: "('v, 'g, 'j, 'w) Run \<Rightarrow> real" where
  "job_progress s = progress (jh_graph (rn_handle s))"

definition fault_text :: "('v, 'g, 'j, 'w) Env \<Rightarrow> fault \<Rightarrow> string" where
  "fault_text E f = (case f of Fail e \<Rightarrow> error_text (en_disp E) e | Panic m \<Rightarrow> m)"

definition past_deadline :: "('v, 'g, 'j, 'w) Env \<Rightarrow> (('v, 'g, 'j, 'w) Run, bool) op" where
  "past_deadline E =
     bindS (utc_now E) (\<lambda>now. gets (\<lambda>s. is_past_deadline (jh_job (rn_handle s)) now))"

section \<open>Moving a task\<close>

definition advance ::
  "('v, 'g, 'j, 'w) Env \<Rightarrow> TaskId \<Rightarrow> TaskState \<Rightarrow> string \<Rightarrow> string \<Rightarrow> CorrelationId \<Rightarrow>
   (('v, 'g, 'j, 'w) Run, unit) op" where
  "advance E task dst actor reason corr =
     bindS (utc_now E) (\<lambda>now.
     bindS (gets (\<lambda>s. set_state now task dst actor (Some reason) corr (jh_graph (rn_handle s)))) (\<lambda>(graph, r).
     bindS (liftR r) (\<lambda>tr.
     thenS (on_handle (\<lambda>h. h\<lparr>jh_graph := graph\<rparr>))
     (thenS (journal_record E (TaskTransitioned (tg_job_id graph) tr task
               (case get_task graph task of None \<Rightarrow> 0 | Some node \<Rightarrow> tn_attempt node)))
     (on_handle (\<lambda>h. h\<lparr>jh_transitions := jh_transitions h @ [tr]\<rparr>))))))"

section \<open>Agents\<close>

text \<open>\<open>Agent::new\<close>, its job, and the two transitions that make it idle.\<close>

definition spawn_agent ::
  "('v, 'g, 'j, 'w) Env \<Rightarrow> AgentType \<Rightarrow> (('v, 'g, 'j, 'w) Run, AgentDescriptor) op" where
  "spawn_agent E agent_type =
     bindS (fresh_uuid E) (\<lambda>i.
     bindS (utc_now E) (\<lambda>now.
     bindS (gets (\<lambda>s. j_id (jh_job (rn_handle s)))) (\<lambda>job_id.
       let agent = (agent_new i now agent_type (cc_node_id (en_config E)))\<lparr>ad_job_id := Some job_id\<rparr> in
       bindS (liftR (bindR (transition agent_machine (ad_status agent) AgentStatus.Registered)
                (\<lambda>st. transition agent_machine st AgentStatus.Idle))) (\<lambda>st.
         ret (agent\<lparr>ad_status := st\<rparr>)))))"

definition demand_of :: "TaskNode list \<Rightarrow> (AgentType, nat) hashmap" where
  "demand_of nodes =
     fold (\<lambda>node demand.
         let t = agent_type_for (tn_kind node)
         in AList.update t ((case map_of demand t of None \<Rightarrow> 0 | Some n \<Rightarrow> n) + 1) demand)
       nodes []"

definition with_required ::
  "Capability list \<Rightarrow> (AgentType, nat) hashmap \<Rightarrow> (AgentType, nat) hashmap" where
  "with_required capabilities demand =
     fold (\<lambda>capability demand.
         case map_of demand (for_capability capability) of
           None \<Rightarrow> AList.update (for_capability capability) 1 demand | Some _ \<Rightarrow> demand)
       capabilities demand"

definition rank_types :: "(AgentType, nat) hashmap \<Rightarrow> AgentType list" where
  "rank_types demand = map fst (sort_key (\<lambda>(t, n). (- int n, agent_type_as_str t)) demand)"

definition widest_layer :: "TaskId list list \<Rightarrow> nat" where
  "widest_layer ls = (if ls = [] then 1 else Max (set (map length ls)))"

fun spawn_loop ::
  "('v, 'g, 'j, 'w) Env \<Rightarrow> AgentType list \<Rightarrow> AgentDescriptor list \<Rightarrow>
   (('v, 'g, 'j, 'w) Run, AgentDescriptor list) op" where
  "spawn_loop E [] agents = ret agents"
| "spawn_loop E (t # ts) agents =
     bindS (spawn_agent E t) (\<lambda>agent.
     thenS (emit E AgentSpawned None (agent_type_as_str t @ '' agent '' @ en_disp E (ad_id agent)) 0)
       (spawn_loop E ts (agents @ [agent])))"

definition provision_agents ::
  "('v, 'g, 'j, 'w) Env \<Rightarrow> nat \<Rightarrow> (('v, 'g, 'j, 'w) Run, nat) op" where
  "provision_agents E max_agents =
     bindS (gets rn_handle) (\<lambda>h.
     bindS (liftR (layers (en_pg E) (jh_graph h))) (\<lambda>ls.
       let types = rank_types (with_required (jr_required_capabilities (j_request (jh_job h)))
             (demand_of (hm_values (tg_nodes (jh_graph h)))));
           target = max (min (max (widest_layer ls) (length types)) max_agents) 1
       in
       bindS (gets (\<lambda>s. sv_cluster_agents (rn_sv s))) (\<lambda>claimed.
       if claimed + target > cc_max_cluster_agents (en_config E)
       then raise (QuotaExceeded (''cluster has '' @ dec claimed @ '' of '' @
              dec (cc_max_cluster_agents (en_config E)) @ '' agents in use; job needs '' @
              dec target @ '' more''))
       else if types = [] then
         thenS (on_sv (\<lambda>sv. sv\<lparr>sv_cluster_agents := claimed + target\<rparr>))
           (liftR (panic ''attempt to calculate the remainder with a divisor of zero''))
       else
         thenS (on_sv (\<lambda>sv. sv\<lparr>sv_cluster_agents := claimed + target\<rparr>))
         (bindS (spawn_loop E (map (\<lambda>i. types ! (i mod length types)) [0..<target]) []) (\<lambda>agents.
          thenS (on_handle (\<lambda>h. h\<lparr>jh_agents := agents,
            jh_statistics := (jh_statistics h)\<lparr>es_agents_spawned := length agents\<rparr>\<rparr>))
            (ret (length agents)))))))"

definition most_needed_type :: "TaskNode list \<Rightarrow> AgentType option" where
  "most_needed_type nodes =
     map_option fst
       (max_by (\<lambda>(lt, ln) (rt, rn). rn < ln \<or> rn = ln \<and> agent_type_as_str lt < agent_type_as_str rt)
         (demand_of (filter (\<lambda>n. tn_state n = TaskState.Queued \<or> tn_state n = TaskState.RetryScheduled) nodes)))"

function reclaim :: "(AgentDescriptor \<Rightarrow> bool) \<Rightarrow> AgentDescriptor list \<Rightarrow> AgentDescriptor list" where
  "reclaim stale agents =
     (if length agents > 1 then
        case position stale agents of
          Some i \<Rightarrow> reclaim stale (remove_at i agents)
        | None \<Rightarrow> agents
      else agents)"
  by pat_completeness auto
termination
  by (relation "measure (\<lambda>(stale, agents). length agents)") (auto dest!: position_SomeD)

declare reclaim.simps [simp del]

definition scale_up :: "('v, 'g, 'j, 'w) Env \<Rightarrow> nat \<Rightarrow> QueueStats \<Rightarrow> (('v, 'g, 'j, 'w) Run, unit) op" where
  "scale_up E max_agents st =
     bindS (gets rn_handle) (\<lambda>h.
     bindS (gets (\<lambda>s. sv_cluster_agents (rn_sv s))) (\<lambda>in_use.
       if qs_ready st > length (filter is_available (jh_agents h)) \<and> length (jh_agents h) < max_agents \<and>
          in_use < cc_max_cluster_agents (en_config E)
       then case most_needed_type (hm_values (tg_nodes (jh_graph h))) of
              None \<Rightarrow> ret ()
            | Some t \<Rightarrow>
                thenS (on_sv (\<lambda>sv. sv\<lparr>sv_cluster_agents := sv_cluster_agents sv + 1\<rparr>))
                (bindS (spawn_agent E t) (\<lambda>agent.
                 thenS (emit E AgentSpawned None (''scaled up: '' @ agent_type_as_str t @ '' agent '' @
                         en_disp E (ad_id agent)) (progress (jh_graph h)))
                 (thenS (on_handle (\<lambda>h. h\<lparr>jh_agents := jh_agents h @ [agent]\<rparr>))
                   (bump_stats (\<lambda>st. st\<lparr>es_agents_spawned := es_agents_spawned st + 1\<rparr>)))))
       else ret ()))"

definition scale_down :: "('v, 'g, 'j, 'w) Env \<Rightarrow> QueueStats \<Rightarrow> (('v, 'g, 'j, 'w) Run, unit) op" where
  "scale_down E st =
     (if depth st = 0 then
        bindS (utc_now E) (\<lambda>now.
        let cutoff = now - ms (as_i64 (cc_agent_idle_timeout_ms (en_config E))) in
        bindS (gets (\<lambda>s. jh_agents (rn_handle s))) (\<lambda>agents.
        let kept = reclaim (\<lambda>a. is_available a \<and> ad_last_active_at a < cutoff) agents;
            reclaimed = length agents - length kept
        in thenS (on_handle (\<lambda>h. h\<lparr>jh_agents := kept\<rparr>))
           (if reclaimed > 0 then
              thenS (on_sv (\<lambda>sv. sv\<lparr>sv_cluster_agents := sv_cluster_agents sv - reclaimed\<rparr>))
              (bindS (gets job_progress) (\<lambda>p.
                emit E AgentTerminated None (''reclaimed '' @ dec reclaimed @ '' idle agents'') p))
            else ret ())))
      else ret ())"

definition maintain_agent_pool ::
  "('v, 'g, 'j, 'w) Env \<Rightarrow> nat \<Rightarrow> (('v, 'g, 'j, 'w) Run, unit) op" where
  "maintain_agent_pool E max_agents =
     bindS (queue_op E (\<lambda>now q. (q, stats now q))) (\<lambda>st.
       thenS (scale_up E max_agents st) (scale_down E st))"

section \<open>Promotion and dispatch\<close>

definition promote_one ::
  "('v, 'g, 'j, 'w) Env \<Rightarrow> Priority \<Rightarrow> string \<Rightarrow> CorrelationId \<Rightarrow> TaskId \<Rightarrow>
   (('v, 'g, 'j, 'w) Run, unit) op" where
  "promote_one E priority actor corr task_id =
     thenS (advance E task_id TaskState.Queued actor ''dependencies_satisfied'' corr)
     (bindS (gets (\<lambda>s. get_task (jh_graph (rn_handle s)) task_id)) (\<lambda>node.
       case node of
         None \<Rightarrow> raise (NotFound ''task'' task_id)
       | Some task \<Rightarrow>
           bindS (utc_now E) (\<lambda>now.
           bindS (liftR (from_task (en_to_value E) now task priority (cc_lease_ms (en_config E)))) (\<lambda>entry.
           thenS (queue_op E (\<lambda>now. enqueue entry))
           (bindS (gets job_progress) (\<lambda>p.
             emit E TaskQueued (Some task_id) (tn_title task) p))))))"

definition promote_ready ::
  "('v, 'g, 'j, 'w) Env \<Rightarrow> string \<Rightarrow> CorrelationId \<Rightarrow> (('v, 'g, 'j, 'w) Run, nat) op" where
  "promote_ready E actor corr =
     bindS (gets (\<lambda>s. ready (jh_graph (rn_handle s)))) (\<lambda>tasks.
     bindS (gets (\<lambda>s. jr_priority (j_request (jh_job (rn_handle s))))) (\<lambda>priority.
       thenS (forS tasks (promote_one E priority actor corr)) (ret (length tasks))))"

definition busy :: "DateTime \<Rightarrow> TaskId \<Rightarrow> AgentStatus \<Rightarrow> AgentDescriptor \<Rightarrow> AgentDescriptor" where
  "busy now task_id status a =
     a\<lparr>ad_status := status, ad_current_task := Some task_id, ad_current_load := 1,
       ad_last_active_at := now\<rparr>"

text \<open>Update the first agent of that identifier, the one \<open>iter_mut().find\<close> returns.\<close>

fun update_agent ::
  "AgentId \<Rightarrow> (AgentDescriptor \<Rightarrow> AgentDescriptor) \<Rightarrow> AgentDescriptor list \<Rightarrow> AgentDescriptor list" where
  "update_agent i f [] = []"
| "update_agent i f (a # as) = (if ad_id a = i then f a # as else a # update_agent i f as)"

definition assign ::
  "('v, 'g, 'j, 'w) Env \<Rightarrow> TaskNode \<Rightarrow> (('v, 'g, 'j, 'w) Run, AgentDescriptor option) op" where
  "assign E task =
     bindS (gets (\<lambda>s. jh_agents (rn_handle s))) (\<lambda>agents.
     bindS (gets (\<lambda>s. select_agent (sv_scheduler (rn_sv s)) task agents)) (\<lambda>(sch, chosen).
     thenS (on_sv (\<lambda>sv. sv\<lparr>sv_scheduler := sch\<rparr>))
     (case Option.bind chosen (\<lambda>i. find (\<lambda>a. ad_id a = i) agents) of
        None \<Rightarrow> ret None
      | Some pooled \<Rightarrow>
          (case bindR (transition agent_machine (ad_status pooled) AgentStatus.Assigned)
                  (\<lambda>st. transition agent_machine st AgentStatus.Running) of
             Inl _ \<Rightarrow> ret None
           | Inr st \<Rightarrow>
               bindS (utc_now E) (\<lambda>now.
               thenS (on_handle (\<lambda>h. h\<lparr>jh_agents :=
                   update_agent (ad_id pooled) (busy now (tn_id task) st) (jh_agents h)\<rparr>))
                 (ret (Some (busy now (tn_id task) st pooled))))))))"

definition respecialise ::
  "('v, 'g, 'j, 'w) Env \<Rightarrow> TaskNode \<Rightarrow> (('v, 'g, 'j, 'w) Run, bool) op" where
  "respecialise E task =
     bindS (gets (\<lambda>s. position is_available (jh_agents (rn_handle s)))) (\<lambda>index.
       case index of
         None \<Rightarrow> ret False
       | Some i \<Rightarrow>
           bindS (spawn_agent E (agent_type_for (tn_kind task))) (\<lambda>replacement.
           thenS (on_handle (\<lambda>h. h\<lparr>jh_agents := (jh_agents h)[i := replacement]\<rparr>)) (ret True)))"

definition acquire_agent ::
  "('v, 'g, 'j, 'w) Env \<Rightarrow> TaskNode \<Rightarrow> (('v, 'g, 'j, 'w) Run, AgentDescriptor option) op" where
  "acquire_agent E task =
     bindS (assign E task) (\<lambda>found.
       case found of
         Some agent \<Rightarrow> ret (Some agent)
       | None \<Rightarrow>
           bindS (respecialise E task) (\<lambda>replaced.
             if replaced then assign E task else ret None))"

definition upstream_outputs ::
  "('v, 'g, 'j, 'w) Env \<Rightarrow> ('v, 'g) JobHandle \<Rightarrow> TaskNode \<Rightarrow> UpstreamOutput list" where
  "upstream_outputs E h task =
     List.map_filter (\<lambda>dependency.
         map_option (\<lambda>r. \<lparr>uo_task_id = tr_task_id r, uo_title = tr_title r, uo_output = tr_output r\<rparr>)
           (find (\<lambda>r. tr_task_id r = dependency) (jh_results h)))
       (dependencies (en_pg E) (jh_graph h) (tn_id task))"

definition queue_wait :: "'v TaskLease \<Rightarrow> u64" where
  "queue_wait l =
     (let d = tl_granted_at l - qt_enqueued_at (tl_task l)
      in if d < 0 then 0 else word_of_int (d div 1000000))"

text \<open>A leased task that has an agent: mirror the attempt, move the task to \<open>Running\<close>, build the context.\<close>

definition start_task ::
  "('v, 'g, 'j, 'w) Env \<Rightarrow> string \<Rightarrow> CorrelationId \<Rightarrow> 'v TaskLease \<Rightarrow> TaskNode \<Rightarrow> AgentDescriptor \<Rightarrow>
   (('v, 'g, 'j, 'w) Run, 'v Dispatch) op" where
  "start_task E actor corr lease task agent =
     thenS (on_handle (\<lambda>h. h\<lparr>jh_graph := update_task (tn_id task)
         (\<lambda>n. n\<lparr>tn_attempt := qt_attempt (tl_task lease)\<rparr>) (jh_graph h)\<rparr>))
     (bindS (gets (\<lambda>s. map_option tn_state (get_task (jh_graph (rn_handle s)) (tn_id task)))) (\<lambda>st.
      thenS (if st = Some TaskState.RetryScheduled
             then advance E (tn_id task) TaskState.Queued actor ''backoff_elapsed'' corr else ret ())
     (thenS (advance E (tn_id task) TaskState.Leased actor ''leased_to_agent'' corr)
     (thenS (advance E (tn_id task) TaskState.Running actor ''agent_started'' corr)
     (let task' = task\<lparr>tn_attempt := qt_attempt (tl_task lease)\<rparr> in
      bindS (gets rn_handle) (\<lambda>h.
      thenS (emit E TaskStarted (Some (tn_id task))
          (tn_title task @ '' (attempt '' @ dec (unat (tn_attempt task')) @ '')'') (progress (jh_graph h)))
        (ret \<lparr>dp_lease = lease, dp_agent = agent, dp_task = task',
              dp_context = \<lparr>tc_objective = jr_objective (j_request (jh_job h)),
                            tc_context = jr_context (j_request (jh_job h)),
                            tc_upstream = upstream_outputs E h task', tc_allowed_tools = []\<rparr>,
              dp_queue_wait_ms = queue_wait lease\<rparr>)))))))"

fun collect_loop ::
  "('v, 'g, 'j, 'w) Env \<Rightarrow> string \<Rightarrow> string \<Rightarrow> CorrelationId \<Rightarrow> nat \<Rightarrow> 'v Dispatch list \<Rightarrow>
   (('v, 'g, 'j, 'w) Run, 'v Dispatch list) op" where
  "collect_loop E worker actor corr 0 dispatches = ret dispatches"
| "collect_loop E worker actor corr (Suc n) dispatches =
     bindS (fresh_uuid E) (\<lambda>lease_id.
     bindS (queue_op E (\<lambda>now. dequeue_from now lease_id worker [] [])) (\<lambda>leased.
       case leased of
         None \<Rightarrow> ret dispatches
       | Some lease \<Rightarrow>
           bindS (liftR (decode_task (en_from_value E) (tl_task lease))) (\<lambda>task.
           bindS (gets (\<lambda>s. map_option tn_state (get_task (jh_graph (rn_handle s)) (tn_id task)))) (\<lambda>st.
             if \<not> (st = Some TaskState.Queued \<or> st = Some TaskState.RetryScheduled)
             then thenS (ignoring (queue_op E (\<lambda>now. acknowledge now (tl_lease_id lease))))
                    (collect_loop E worker actor corr n dispatches)
             else
               bindS (acquire_agent E task) (\<lambda>found.
                 case found of
                   None \<Rightarrow>
                     thenS (queue_op E (\<lambda>now. release now (tl_lease_id lease))) (ret dispatches)
                 | Some agent \<Rightarrow>
                     bindS (start_task E actor corr lease task agent) (\<lambda>d.
                       collect_loop E worker actor corr n (dispatches @ [d])))))))"

definition collect_dispatches ::
  "('v, 'g, 'j, 'w) Env \<Rightarrow> string \<Rightarrow> string \<Rightarrow> CorrelationId \<Rightarrow> (('v, 'g, 'j, 'w) Run, 'v Dispatch list) op"
where
  "collect_dispatches E worker actor corr =
     bindS (gets (\<lambda>s. length (filter is_available (jh_agents (rn_handle s))))) (\<lambda>idle_count.
       if idle_count = 0 then ret [] else collect_loop E worker actor corr idle_count [])"

section \<open>Applying outcomes\<close>

text \<open>\<open>if let Ok(next) = status.transition(to)\<close>: a refused transition leaves the status.\<close>

definition try_status :: "AgentStatus \<Rightarrow> AgentDescriptor \<Rightarrow> AgentDescriptor" where
  "try_status dst a =
     (case transition agent_machine (ad_status a) dst of Inr st \<Rightarrow> a\<lparr>ad_status := st\<rparr> | Inl _ \<Rightarrow> a)"

definition idle_again :: "DateTime \<Rightarrow> bool \<Rightarrow> u64 \<Rightarrow> AgentDescriptor \<Rightarrow> AgentDescriptor" where
  "idle_again now succeeded latency_ms a =
     record_attempt now succeeded latency_ms
       ((try_status AgentStatus.Idle
          (try_status (if succeeded then AgentStatus.Completed else AgentStatus.Failed) a))
        \<lparr>ad_current_task := None, ad_current_load := 0\<rparr>)"

definition release_agent ::
  "('v, 'g, 'j, 'w) Env \<Rightarrow> AgentDescriptor \<Rightarrow> bool \<Rightarrow> u64 \<Rightarrow> u64 \<Rightarrow> (('v, 'g, 'j, 'w) Run, unit) op"
where
  "release_agent E agent succeeded latency_ms queue_wait_ms =
     thenS (on_sv (\<lambda>sv. sv\<lparr>sv_scheduler := observe
         \<lparr>so_agent_id = ad_id agent, so_succeeded = succeeded, so_latency_ms = latency_ms,
          so_queue_wait_ms = queue_wait_ms\<rparr> (sv_scheduler sv)\<rparr>))
     (bindS (utc_now E) (\<lambda>now.
       on_handle (\<lambda>h. h\<lparr>jh_agents :=
         update_agent (ad_id agent) (idle_again now succeeded latency_ms) (jh_agents h)\<rparr>)))"

definition count_success :: "u64 \<Rightarrow> 'v TaskResult \<Rightarrow> ExecutionStatistics \<Rightarrow> ExecutionStatistics" where
  "count_success queue_wait_ms res st =
     st\<lparr>es_tasks_succeeded := es_tasks_succeeded st + 1,
        es_tokens_in := es_tokens_in st + tr_tokens_in res,
        es_tokens_out := es_tokens_out st + tr_tokens_out res,
        es_cost_usd := es_cost_usd st + tr_cost_usd res,
        es_queue_wait_ms_total := es_queue_wait_ms_total st + queue_wait_ms,
        es_scheduling_decisions := es_scheduling_decisions st + 1,
        es_model_cache_hits := es_model_cache_hits st + (if tr_deduplicated res then 1 else 0),
        es_model_requests := es_model_requests st + (if tr_deduplicated res then 0 else 1)\<rparr>"

definition record_task_success ::
  "('v, 'g, 'j, 'w) Env \<Rightarrow> AgentDescriptor \<Rightarrow> 'v TaskResult \<Rightarrow> u64 \<Rightarrow> (('v, 'g, 'j, 'w) Run, unit) op"
where
  "record_task_success E agent res queue_wait_ms =
     thenS (release_agent E agent True (tr_duration_ms res) queue_wait_ms)
     (thenS (bump_stats (count_success queue_wait_ms res))
     (thenS (on_handle (\<lambda>h. h\<lparr>jh_latencies := jh_latencies h @ [tr_duration_ms res],
                               jh_results := jh_results h @ [res]\<rparr>))
       (journal_record E (JournalRecord.TaskCompleted (tr_job_id res) res))))"

definition fail_task ::
  "('v, 'g, 'j, 'w) Env \<Rightarrow> TaskNode \<Rightarrow> TaskState \<Rightarrow> string \<Rightarrow> string \<Rightarrow> bool \<Rightarrow> string list \<Rightarrow> string \<Rightarrow>
   CorrelationId \<Rightarrow> (('v, 'g, 'j, 'w) Run, unit) op" where
  "fail_task E task failure_state kind message retryable validation_failures actor corr =
     (let next = (if retryable then TaskState.RetryScheduled else TaskState.DeadLettered) in
      thenS (advance E (tn_id task) failure_state actor kind corr)
     (thenS (advance E (tn_id task) next actor kind corr)
     (bindS (utc_now E) (\<lambda>now.
      let failure = \<lparr>tf_task_id = tn_id task, tf_title = tn_title task, tf_attempt = tn_attempt task,
                     tf_error_kind = kind, tf_error_message = message,
                     tf_dead_lettered = (next = TaskState.DeadLettered),
                     tf_validation_failures = validation_failures, tf_at = now\<rparr>
      in
      thenS (journal_record E (JournalRecord.TaskFailed (tn_job_id task) failure))
     (thenS (on_handle (\<lambda>h. h\<lparr>jh_failures := jh_failures h @ [failure]\<rparr>))
     (thenS (bump_stats (\<lambda>st. st\<lparr>es_model_requests := es_model_requests st + 1,
              es_tasks_retried := es_tasks_retried st + (if retryable then 1 else 0),
              es_tasks_failed := es_tasks_failed st + (if retryable then 0 else 1)\<rparr>))
     (bindS (gets job_progress) (\<lambda>p.
       emit E (if retryable then TaskRetrying else TaskDeadLettered) (Some (tn_id task))
         (if retryable then tn_title task @ '': '' @ message
          else tn_title task @ '' gave up after '' @ dec (unat (tn_attempt task)) @ '' attempts: '' @
               message) p))))))))"

definition apply_outcome ::
  "('v, 'g, 'j, 'w) Env \<Rightarrow> string \<Rightarrow> CorrelationId \<Rightarrow> 'v Dispatch \<Rightarrow> 'v outcome \<Rightarrow>
   (('v, 'g, 'j, 'w) Run, unit) op" where
  "apply_outcome E actor corr d out =
     (let lease = dp_lease d; agent = dp_agent d; task = dp_task d; wait = dp_queue_wait_ms d;
          retryable = allows_retry (qt_retry (tl_task lease)) (qt_attempt (tl_task lease)) in
      case out of
        Returned (Inr res) \<Rightarrow>
          if passed_validation res then
            bindS (attempt_op (queue_op E (\<lambda>now. acknowledge now (tl_lease_id lease)))) (\<lambda>acked.
              case acked of
                Inr _ \<Rightarrow>
                  thenS (advance E (tn_id task) TaskState.Completed actor ''validated'' corr)
                 (thenS (record_task_success E agent res wait)
                 (bindS (gets job_progress) (\<lambda>p.
                   emit E JobEventKind.TaskCompleted (Some (tn_id task))
                     (tn_title task @ '' in '' @ dec (unat (tr_duration_ms res)) @ ''ms'') p)))
              | Inl err \<Rightarrow>
                  thenS (release_agent E agent False (tr_duration_ms res) wait)
                    (fail_task E task TaskState.Failed ''lease_lost'' (fault_text E err) retryable []
                      actor corr))
          else
            (let failures = tr_validation_failures res; detail = str_join ''; '' failures in
             thenS (ignoring (queue_op E (\<lambda>now. reject now (tl_lease_id lease)
               (''validation failed: '' @ detail))))
            (thenS (release_agent E agent False (tr_duration_ms res) wait)
              (fail_task E task TaskState.Failed ''validation_failed'' detail retryable failures actor corr)))
      | Returned (Inl err) \<Rightarrow>
          thenS (ignoring (queue_op E (\<lambda>now. reject now (tl_lease_id lease) (error_text (en_disp E) err))))
         (thenS (release_agent E agent False 0 wait)
           (fail_task E task TaskState.Failed (error_kind err) (error_text (en_disp E) err)
             (retryable \<and> is_retryable err) [] actor corr))
      | Elapsed \<Rightarrow>
          (let timeout_ms = tn_timeout_seconds task * 1000 in
           thenS (ignoring (queue_op E (\<lambda>now. reject now (tl_lease_id lease)
             (''timed out after '' @ dec (unat timeout_ms) @ ''ms''))))
          (thenS (release_agent E agent False timeout_ms wait)
            (fail_task E task TaskState.TimedOut ''timeout''
              (''exceeded '' @ dec (unat (tn_timeout_seconds task)) @ ''s'') retryable [] actor corr))))"

definition make_progress_possible ::
  "('v, 'g, 'j, 'w) Env \<Rightarrow> string \<Rightarrow> CorrelationId \<Rightarrow> (('v, 'g, 'j, 'w) Run, bool) op" where
  "make_progress_possible E actor corr =
     bindS (queue_op E (\<lambda>now q. (q, stats now q))) (\<lambda>st.
       if depth st > 0 then ret True
       else
         bindS (gets (\<lambda>s. blocked_by_abandoned (en_pg E) (jh_graph (rn_handle s)))) (\<lambda>stranded.
           if stranded = [] then ret False
           else
             thenS (forS stranded (\<lambda>task_id.
                 thenS (advance E task_id TaskState.Cancelled actor ''upstream_abandoned'' corr)
                 (bindS (gets job_progress) (\<lambda>p.
                   emit E TaskCancelled (Some task_id) ''upstream task was abandoned'' p))))
               (ret True)))"

section \<open>Finishing\<close>

definition cancel_task ::
  "('v, 'g, 'j, 'w) Env \<Rightarrow> string \<Rightarrow> CorrelationId \<Rightarrow> TaskId \<Rightarrow> (('v, 'g, 'j, 'w) Run, unit) op" where
  "cancel_task E actor corr task_id =
     bindS (gets (\<lambda>s. map_option tn_state (get_task (jh_graph (rn_handle s)) task_id))) (\<lambda>st.
       if st = Some TaskState.Running then
         thenS (advance E task_id TaskState.Failed actor ''job_cancelled'' corr)
           (advance E task_id TaskState.DeadLettered actor ''job_cancelled'' corr)
       else advance E task_id TaskState.Cancelled actor ''job_cancelled'' corr)"

definition final_status :: "bool \<Rightarrow> GraphCounts \<Rightarrow> JobStatus" where
  "final_status cancelled cs =
     (if cancelled then JobStatus.Cancelled
      else if gc_abandoned cs = 0 \<and> gc_completed cs = gc_total cs then JobStatus.Completed
      else if gc_completed cs > 0 then JobStatus.PartiallyCompleted
      else JobStatus.Failed)"

definition cancel_pending ::
  "('v, 'g, 'j, 'w) Env \<Rightarrow> string \<Rightarrow> CorrelationId \<Rightarrow> bool \<Rightarrow> (('v, 'g, 'j, 'w) Run, unit) op" where
  "cancel_pending E actor corr cancelled =
     (if cancelled then
        bindS (gets (\<lambda>s. map tn_id (filter (\<lambda>n. \<not> node_is_terminal n)
                  (hm_values (tg_nodes (jh_graph (rn_handle s))))))) (\<lambda>pending.
        thenS (forS pending (cancel_task E actor corr))
        (bindS (gets (\<lambda>s. j_id (jh_job (rn_handle s)))) (\<lambda>job_id.
          on_sv (\<lambda>sv. sv\<lparr>sv_queue := fst (purge_job job_id (sv_queue sv))\<rparr>))))
      else ret ())"

definition report ::
  "('v, 'g, 'j, 'w) Env \<Rightarrow> ('v, 'w) World \<Rightarrow> bool \<Rightarrow> nat \<Rightarrow> (('v, 'g, 'j, 'w) Run, 'v FinalResult) op"
where
  "report E W cancelled spawned =
     bindS (gets (\<lambda>s. counts (jh_graph (rn_handle s)))) (\<lambda>cs.
      let status = final_status cancelled cs in
      bindS (ask (wo_elapsed_ms W)) (\<lambda>elapsed.
      thenS (on_handle (\<lambda>h. h\<lparr>jh_statistics := set_latency_percentiles (jh_latencies h)
          ((jh_statistics h)\<lparr>es_wall_clock_ms := elapsed, es_tasks_total := gc_total cs,
             es_agents_spawned := max (es_agents_spawned (jh_statistics h)) spawned\<rparr>)\<rparr>))
     (thenS (if \<not> cancelled then set_status E JobStatus.Aggregating None else ret ())
     (bindS (gets (\<lambda>s. let h = rn_handle s in
        aggregate (wo_text W) (jh_job h) (jh_graph h) (jh_results h) status (jh_statistics h))) (\<lambda>fr.
      thenS (set_status E status
          (if fr_unresolved_conflicts fr = [] then None
           else Some (dec (length (fr_unresolved_conflicts fr)) @ '' unresolved conflicts'')))
     (thenS (journal_record E (JournalRecord.JobFinished (fr_job_id fr) fr))
     (thenS (on_handle (\<lambda>h. h\<lparr>jh_final_result := Some fr\<rparr>))
     (bindS (gets (\<lambda>s. length (jh_agents (rn_handle s)))) (\<lambda>released.
      thenS (on_sv (\<lambda>sv. sv\<lparr>sv_cluster_agents := sv_cluster_agents sv - released\<rparr>))
     (bindS (gets job_progress) (\<lambda>p.
      thenS (emit E JobEventKind.JobFinished None
          (job_status_as_str status @ '': '' @ dec (gc_completed cs) @ ''/'' @ dec (gc_total cs) @
           '' tasks completed, $'' @ en_usd E (es_cost_usd (fr_execution_statistics fr))) p)
        (ret fr))))))))))))"

definition finish ::
  "('v, 'g, 'j, 'w) Env \<Rightarrow> ('v, 'w) World \<Rightarrow> bool \<Rightarrow> nat \<Rightarrow> string \<Rightarrow> CorrelationId \<Rightarrow>
   (('v, 'g, 'j, 'w) Run, 'v FinalResult) op" where
  "finish E W cancelled spawned actor corr =
     thenS (cancel_pending E actor corr cancelled) (report E W cancelled spawned)"

section \<open>The loop\<close>

text \<open>
  Waiting on the control channel, over the values the receiver observes in turn; the list ends when
  the sender is gone. A paused job waits for the first other value. The wait for a cancellation never
  returns (\<open>None\<close>) unless there is one. \<open>wo_resume\<close> and \<open>wo_outcomes\<close> of the world are what these waits
  come to.
\<close>

fun await_resume :: "Control list \<Rightarrow> bool" where
  "await_resume [] = False"
| "await_resume (Control.Paused # observed) = await_resume observed"
| "await_resume (Control.Running # observed) = True"
| "await_resume (Control.Cancelled # observed) = False"

fun wait_for_cancel :: "Control list \<Rightarrow> unit option" where
  "wait_for_cancel [] = None"
| "wait_for_cancel (c # observed) = (if c = Control.Cancelled then Some () else wait_for_cancel observed)"

lemma await_resume_iff: "await_resume observed \<longleftrightarrow> find (\<lambda>c. c \<noteq> Control.Paused) observed = Some Control.Running"
  by (induction observed rule: await_resume.induct) simp_all

lemma wait_for_cancel_iff: "wait_for_cancel observed = Some () \<longleftrightarrow> Control.Cancelled \<in> set observed"
  by (induction observed) auto

text \<open>How a tick ends: go round again (paused or not), or leave the loop (cancelled or not).\<close>

datatype flow = Continue bool | Stop bool

definition observe_control :: "('v, 'w) World \<Rightarrow> (('v, 'g, 'j, 'w) Run, Control) op" where
  "observe_control W =
     bindS (ask (wo_control W)) (\<lambda>c. thenS (on_handle (\<lambda>h. h\<lparr>jh_control := c\<rparr>)) (ret c))"

definition schedule_tick ::
  "('v, 'g, 'j, 'w) Env \<Rightarrow> ('v, 'w) World \<Rightarrow> nat \<Rightarrow> string \<Rightarrow> CorrelationId \<Rightarrow>
   (('v, 'g, 'j, 'w) Run, flow) op" where
  "schedule_tick E W max_agents actor corr =
     bindS (promote_ready E actor corr) (\<lambda>promoted.
     thenS (queue_op E requeue_expired)
     (thenS (maintain_agent_pool E max_agents)
     (bindS (collect_dispatches E actor actor corr) (\<lambda>dispatches.
       if dispatches = [] then
         bindS (gets (\<lambda>s. is_complete (jh_graph (rn_handle s)))) (\<lambda>complete.
           if complete then ret (Stop False)
           else if promoted = 0 then
             bindS (make_progress_possible E actor corr) (\<lambda>possible.
               ret (if possible then Continue False else Stop False))
           else ret (Continue False))
       else
         bindS (ask (wo_outcomes W dispatches)) (\<lambda>outcomes.
           case outcomes of
             None \<Rightarrow> ret (Stop True)
           | Some outs \<Rightarrow>
               thenS (forS (zip dispatches outs) (\<lambda>(d, out). apply_outcome E actor corr d out))
               (bindS (gets (\<lambda>s. is_complete (jh_graph (rn_handle s)))) (\<lambda>complete.
                 ret (if complete then Stop False else Continue False))))))))"

definition tick ::
  "('v, 'g, 'j, 'w) Env \<Rightarrow> ('v, 'w) World \<Rightarrow> nat \<Rightarrow> string \<Rightarrow> CorrelationId \<Rightarrow> bool \<Rightarrow>
   (('v, 'g, 'j, 'w) Run, flow) op" where
  "tick E W max_agents actor corr paused =
     bindS (observe_control W) (\<lambda>c.
       case c of
         Control.Cancelled \<Rightarrow> ret (Stop True)
       | Control.Paused \<Rightarrow>
           thenS (if paused then ret () else set_status E JobStatus.Paused (Some ''operator paused''))
           (bindS (ask (wo_resume W)) (\<lambda>resumed. ret (if resumed then Continue True else Stop True)))
       | Control.Running \<Rightarrow>
           thenS (if paused then set_status E JobStatus.Running None else ret ())
           (bindS (past_deadline E) (\<lambda>late.
             if late then
               bindS (gets job_progress) (\<lambda>p.
                 thenS (emit E JobEventKind.JobFinished None ''deadline exceeded'' p) (ret (Stop False)))
             else schedule_tick E W max_agents actor corr)))"

text \<open>The first argument is the number of ticks left; the code counts them up to \<open>max_ticks\<close>.\<close>

fun run_loop ::
  "nat \<Rightarrow> ('v, 'g, 'j, 'w) Env \<Rightarrow> ('v, 'w) World \<Rightarrow> nat \<Rightarrow> string \<Rightarrow> CorrelationId \<Rightarrow> bool \<Rightarrow>
   (('v, 'g, 'j, 'w) Run, bool) op" where
  "run_loop 0 E W max_agents actor corr paused =
     raise (Internal ''job exceeded its scheduling tick budget'')"
| "run_loop (Suc n) E W max_agents actor corr paused =
     bindS (tick E W max_agents actor corr paused) (\<lambda>f.
       case f of
         Continue paused' \<Rightarrow> run_loop n E W max_agents actor corr paused'
       | Stop cancelled \<Rightarrow> ret cancelled)"

definition run_job ::
  "('v, 'g, 'j, 'w) Env \<Rightarrow> ('v, 'w) World \<Rightarrow> (('v, 'g, 'j, 'w) Run, 'v FinalResult) op" where
  "run_job E W =
     bindS (gets rn_handle) (\<lambda>h.
       if is_finished (j_status (jh_job h)) then
         (case jh_final_result h of
            Some fr \<Rightarrow> ret fr
          | None \<Rightarrow> raise (Internal ''job finished without a result''))
       else
         let actor = ''coordinator:'' @ en_disp E (cc_node_id (en_config E));
             corr = j_correlation_id (jh_job h);
             max_agents = jr_max_agents (j_request (jh_job h))
         in
         thenS (set_status E JobStatus.Running None)
         (bindS (provision_agents E max_agents) (\<lambda>spawned.
          bindS (run_loop (unat (cc_max_ticks (en_config E))) E W max_agents actor corr False) (\<lambda>cancelled.
            finish E W cancelled spawned actor corr))))"

definition run :: "('v, 'g, 'j, 'w) Env \<Rightarrow> ('v, 'w) World \<Rightarrow> JobId \<Rightarrow>
    (('v, 'g, 'j, 'w) Coordinator, 'v FinalResult) op" where
  "run E W job_id = with_handle job_id (run_job E W)"

definition submit_and_run :: "('v, 'g, 'j, 'w) Env \<Rightarrow> ('v, 'w) World \<Rightarrow> JobRequest \<Rightarrow>
    (('v, 'g, 'j, 'w) Coordinator, 'v FinalResult) op" where
  "submit_and_run E W request = bindS (submit E request) (run E W)"

end
