(* ===== verification/EngineSync.thy ===== *)
theory EngineSync
  imports Engine
begin

text \<open>
  The engine keeps the journal in step with the live job. The invariant \<open>run_inv\<close> says that the
  records of the job describe its handle (\<open>mirrors\<close>), that the graph is consistent, that everything
  queued for one of its tasks is a copy of that task, and that the completed tasks are exactly those
  with a result, one each. Every operation of the engine preserves it, also when it fails.
\<close>

section \<open>Interfaces\<close>

text \<open>
  A journal that accepts every record. \<open>holds j rs\<close>: the journal \<open>j\<close> stores exactly \<open>rs\<close>. The
  in-memory journal is one; the file journal is one while its writes succeed.
\<close>

locale reliable_journal =
  fixes append_to :: "'r \<Rightarrow> 'j \<Rightarrow> 'j \<times> unit result"
    and replay_of :: "'j \<Rightarrow> 'r list result"
    and holds :: "'j \<Rightarrow> 'r list \<Rightarrow> bool"
  assumes append_holds: "holds j rs \<Longrightarrow> holds (fst (append_to r j)) (rs @ [r])"
    and replay_holds: "holds j rs \<Longrightarrow> replay_of j = Ok rs"

interpretation reliable_memory: reliable_journal memory_append memory_replay "\<lambda>j rs. j = rs"
  by unfold_locales (simp_all add: memory_append_def memory_replay_def)

lemma reliable_file:
  assumes "\<And>r. codec_ok encode decode r"
  shows "reliable_journal (file_append encode (IoDone, True))
    (\<lambda>s. snd (file_replay decode IoDone None s)) (file_holds encode decode)"
proof
  fix j rs r
  assume h: "file_holds encode decode j rs"
  have "file_append encode (IoDone, True) r j =
      (fst (file_append encode (IoDone, True) r j), Ok ())"
    using codec_okD(1) [OF assms] by (simp add: file_append_def write_flush_def Let_def)
  from file_append_ok [OF h assms this]
  show "file_holds encode decode (fst (file_append encode (IoDone, True) r j)) (rs @ [r])" .
qed (rule file_replay_ok)

section \<open>The records of one job\<close>

definition job_view :: "'v JournalRecord list \<Rightarrow> JobId \<Rightarrow> 'v Recovering" where
  "job_view rs j = fold absorb (filter (\<lambda>r. record_job_id r = j) rs) default_recovering"

lemma job_view_snoc:
  "job_view (rs @ [r]) j = (if record_job_id r = j then absorb r (job_view rs j) else job_view rs j)"
  by (simp add: job_view_def)

lemma apply_records_lookup:
  "map_of (fold apply_record rs []) j =
     (if \<exists>r \<in> set rs. record_job_id r = j then Some (job_view rs j) else None)"
proof (induction rs rule: rev_induct)
  case (snoc r rs)
  let ?acc = "fold apply_record rs []"
  have "map_of (apply_record r ?acc) j =
      (if record_job_id r = j
       then Some (absorb r (case map_of ?acc j of None \<Rightarrow> default_recovering | Some e \<Rightarrow> e))
       else map_of ?acc j)"
    by (auto simp: apply_record_def Let_def)
  moreover have "job_view rs j = default_recovering" if "\<forall>r \<in> set rs. record_job_id r \<noteq> j"
    using that by (simp add: job_view_def filter_False)
  ultimately show ?case using snoc.IH by (auto simp: job_view_snoc)
qed simp

section \<open>Mirroring, record by record\<close>

lemma mirrors_cong:
  assumes "jh_job h' = jh_job h" "map_of (tg_nodes (jh_graph h')) = map_of (tg_nodes (jh_graph h))"
    "jh_transitions h' = jh_transitions h" "jh_results h' = jh_results h"
    "jh_failures h' = jh_failures h" "jh_final_result h' = jh_final_result h"
  shows "mirrors h' e = mirrors h e"
  using assms by (simp add: mirrors_def)

lemma mirrors_status:
  assumes "mirrors h e"
  shows "mirrors (h\<lparr>jh_job := apply_status st reason now (jh_job h)\<rparr>)
    (absorb (JobStatusChanged j st reason t) e)"
proof -
  obtain job where job: "rc_job e = Some job" "same_job (jh_job h) job"
    using assms unfolding mirrors_def by blast
  have "same_job (apply_status st reason now (jh_job h)) (job\<lparr>j_status := st, j_status_reason := reason\<rparr>)"
    using job(2) by (simp add: same_job_def apply_status_def)
  moreover have "journalled (absorb (JobStatusChanged j st reason t) e) = journalled e"
    by (intro ext) (simp add: journalled_def)
  ultimately show ?thesis
    using assms job(1) by (simp add: mirrors_def)
qed

lemma mirrors_result:
  assumes "mirrors h e"
  shows "mirrors (h\<lparr>jh_results := jh_results h @ [r]\<rparr>) (absorb (JournalRecord.TaskCompleted j r) e)"
proof -
  have "journalled (absorb (JournalRecord.TaskCompleted j r) e) = journalled e"
    by (intro ext) (simp add: journalled_def)
  with assms show ?thesis by (simp add: mirrors_def)
qed

lemma mirrors_failure:
  assumes "mirrors h e"
  shows "mirrors (h\<lparr>jh_failures := jh_failures h @ [f]\<rparr>) (absorb (JournalRecord.TaskFailed j f) e)"
proof -
  have "journalled (absorb (JournalRecord.TaskFailed j f) e) = journalled e"
    by (intro ext) (simp add: journalled_def)
  with assms show ?thesis by (simp add: mirrors_def)
qed

lemma mirrors_finished:
  assumes "mirrors h e"
  shows "mirrors (h\<lparr>jh_final_result := Some fr\<rparr>) (absorb (JournalRecord.JobFinished j fr) e)"
proof -
  have "journalled (absorb (JournalRecord.JobFinished j fr) e) = journalled e"
    by (intro ext) (simp add: journalled_def)
  with assms show ?thesis by (simp add: mirrors_def)
qed

text \<open>
  A transition, possibly after the attempt of the same task was changed: the record carries both.
\<close>

lemma mirrors_transition:
  assumes m: "mirrors h e"
    and n: "map_of (tg_nodes (jh_graph h)) i = Some n"
    and g: "map_of (tg_nodes g) = (map_of (tg_nodes (jh_graph h)))(i \<mapsto> n\<lparr>tn_attempt := a, tn_state := t_to tr\<rparr>)"
  shows "mirrors (h\<lparr>jh_graph := g, jh_transitions := jh_transitions h @ [tr]\<rparr>)
    (absorb (TaskTransitioned j tr i a) e)"
proof -
  note d = mirrorsD [OF m]
  let ?e = "absorb (TaskTransitioned j tr i a) e"
  let ?live = "map_of (tg_nodes (jh_graph h))" and ?up = "\<lambda>n. n\<lparr>tn_attempt := a, tn_state := t_to tr\<rparr>"
  have dist: "distinct (map tn_id (rc_tasks e))" using d(1) by (simp add: well_founded_tasks_def)
  from d(6) [of i] n obtain m where m: "map_of (map (\<lambda>t. (tn_id t, journalled e t)) (rc_tasks e)) i = Some m"
    "reset_node n = reset_node m" by (cases "map_of (map (\<lambda>t. (tn_id t, journalled e t)) (rc_tasks e)) i") auto
  then obtain t where t: "t \<in> set (rc_tasks e)" "tn_id t = i" "m = journalled e t"
    using map_of_task_list [OF dist, of "journalled e" i m] by blast
  have jn: "journalled ?e u = (if tn_id u = i then ?up (journalled e u) else journalled e u)" for u
    by (simp add: journalled_def)
  have up: "reset_node (?up n) = reset_node (?up m)"
  proof -
    have "?up n = ?up (reset_node n)" "?up m = ?up (reset_node m)" by (simp_all add: reset_node_def)
    with m(2) show ?thesis by simp
  qed
  have "map_option reset_node (map_of (tg_nodes g) k) =
      map_option reset_node (map_of (map (\<lambda>u. (tn_id u, journalled ?e u)) (rc_tasks e)) k)" for k
  proof (cases "k = i")
    case True
    have "map_of (map (\<lambda>u. (tn_id u, journalled ?e u)) (rc_tasks e)) i = Some (?up m)"
      using t jn [of t] map_of_task_list [OF dist, of "journalled ?e" i "?up m"] by auto
    with True up show ?thesis by (simp add: g del: absorb.simps)
  next
    case False
    then have "map_of (map (\<lambda>u. (tn_id u, journalled ?e u)) (rc_tasks e)) k =
        map_of (map (\<lambda>u. (tn_id u, journalled e u)) (rc_tasks e)) k"
      by (intro option_eqI) (force simp: map_of_task_list [OF dist] jn simp del: absorb.simps)
    with False d(6) [of k] show ?thesis by (simp add: g del: absorb.simps)
  qed
  moreover have "i \<in> task_ids (rc_tasks e)" using t by (auto simp: task_ids_def)
  moreover have "dom (map_of (rc_attempts ?e)) = dom (map_of (rc_task_states ?e))"
    using d(4) by simp
  moreover obtain job where "rc_job e = Some job" "same_job (jh_job h) job"
    using assms(1) unfolding mirrors_def by blast
  ultimately show ?thesis
    using d(1-3,5,7-10) distinct_update [of "rc_task_states e" i "t_to tr"] by (simp add: mirrors_def)
qed

section \<open>What the queue carries\<close>

definition payloads :: "'v Inner \<Rightarrow> 'v set" where
  "payloads q = qt_payload ` (set (q_ready q) \<union> tl_task ` snd ` set (q_leases q))"

lemma set_hm_update: "set (AList.update k v m) \<subseteq> insert (k, v) (set m)"
  by (induction m) (auto split: if_splits)

lemma set_hm_delete: "set (AList.delete k m) \<subseteq> set m"
  by (auto simp: AList.delete_eq)

lemma payloads_enqueue: "payloads (fst (enqueue t q)) \<subseteq> insert (qt_payload t) (payloads q)"
  by (auto simp: enqueue_def payloads_def)

lemma payloads_retry_or_park: "payloads (retry_or_park t reason now q) \<subseteq> insert (qt_payload t) (payloads q)"
  by (auto simp: retry_or_park_def payloads_def Let_def)

lemma take_lease_payloads:
  assumes "take_lease lid q = (q', r)"
  shows "payloads q' \<subseteq> payloads q" "r = Inr l \<Longrightarrow> qt_payload (tl_task l) \<in> payloads q"
proof -
  show "payloads q' \<subseteq> payloads q"
    using assms set_hm_delete [of lid "q_leases q"]
    by (fastforce simp: take_lease_def payloads_def split: option.splits)
  assume "r = Inr l"
  with assms have "map_of (q_leases q) lid = Some l" by (auto simp: take_lease_def split: option.splits)
  from map_of_SomeD [OF this] show "qt_payload (tl_task l) \<in> payloads q" by (force simp: payloads_def)
qed

lemma payloads_stats [simp]: "payloads (q\<lparr>q_stats := st\<rparr>) = payloads q"
  by (simp add: payloads_def)

lemma payloads_park:
  "qt_payload t \<in> payloads q \<Longrightarrow> payloads q' \<subseteq> payloads q \<Longrightarrow> payloads (retry_or_park t reason now q') \<subseteq> payloads q"
  using payloads_retry_or_park [of t reason now q'] by blast

lemma payloads_acknowledge: "payloads (fst (acknowledge now lid q)) \<subseteq> payloads q"
proof -
  obtain q' r where t: "take_lease lid q = (q', r)" by fastforce
  note p = take_lease_payloads [OF t]
  show ?thesis
  proof (cases r)
    case (Inr l)
    with p show ?thesis
      by (auto simp: acknowledge_def t split: sum.split dest!: subsetD [OF payloads_park, rotated 2])
  qed (use p in \<open>simp add: acknowledge_def t\<close>)
qed

lemma payloads_reject: "payloads (fst (reject now lid reason q)) \<subseteq> payloads q"
proof -
  obtain q' r where t: "take_lease lid q = (q', r)" by fastforce
  note p = take_lease_payloads [OF t]
  show ?thesis
  proof (cases r)
    case (Inr l)
    with p show ?thesis
      by (auto simp: reject_def t split: sum.split dest!: subsetD [OF payloads_park, rotated 2])
  qed (use p in \<open>simp add: reject_def t\<close>)
qed

lemma payloads_release: "payloads (fst (release now lid q)) \<subseteq> payloads q"
proof -
  obtain q' r where t: "take_lease lid q = (q', r)" by fastforce
  note p = take_lease_payloads [OF t]
  show ?thesis
  proof (cases r)
    case (Inr l)
    have "payloads (q'\<lparr>q_ready := q_ready q' @ [u]\<rparr>) = insert (qt_payload u) (payloads q')" for u
      by (auto simp: payloads_def)
    with p Inr show ?thesis by (simp add: release_def t Let_def)
  qed (use p in \<open>simp add: release_def t\<close>)
qed

lemma payloads_expire_one: "payloads (expire_one now lid q) \<subseteq> payloads q"
proof (cases "map_of (q_leases q) lid")
  case (Some l)
  have "qt_payload (tl_task l) \<in> payloads q" using map_of_SomeD [OF Some] by (force simp: payloads_def)
  moreover have "payloads (q\<lparr>q_leases := AList.delete lid (q_leases q), q_stats := st\<rparr>) \<subseteq> payloads q" for st
    using set_hm_delete [of lid "q_leases q"] by (fastforce simp: payloads_def)
  ultimately show ?thesis
    using Some payloads_retry_or_park unfolding expire_one_def by (fastforce simp: Let_def)
qed (simp add: expire_one_def)

lemma payloads_requeue_expired: "payloads (fst (requeue_expired now q)) \<subseteq> payloads q"
proof -
  have "payloads (fold (expire_one now) lids q) \<subseteq> payloads q" for lids
    by (induction lids arbitrary: q) (auto dest: subsetD [OF payloads_expire_one])
  then show ?thesis by (simp add: requeue_expired_def Let_def)
qed

lemma payloads_purge_job: "payloads (fst (purge_job j q)) \<subseteq> payloads q"
  by (auto simp: purge_job_def payloads_def Let_def)

lemma pick_payloads:
  assumes "pick now queues caps q = (q', r)"
  shows "payloads q' \<subseteq> payloads q" "r = Some t \<Longrightarrow> qt_payload t \<in> payloads q"
proof -
  have "payloads q' \<subseteq> payloads q \<and> (\<forall>t. r = Some t \<longrightarrow> qt_payload t \<in> payloads q)"
  proof (cases r)
    case None
    with pick_None assms show ?thesis by blast
  next
    case (Some t)
    with assms have "pick now queues caps q = (q', Some t)" by simp
    then obtain i where "i < length (q_ready q)" "t = q_ready q ! i"
      "q' = q\<lparr>q_ready := swap_remove i (q_ready q)\<rparr>" by (rule pick_Some)
    with Some set_swap_remove_subset [of i "q_ready q"] show ?thesis
      by (auto simp: payloads_def)
  qed
  then show "payloads q' \<subseteq> payloads q" "r = Some t \<Longrightarrow> qt_payload t \<in> payloads q" by blast+
qed

lemma payloads_lease: "payloads (q\<lparr>q_leases := AList.update i l (q_leases q)\<rparr>) \<subseteq> insert (qt_payload (tl_task l)) (payloads q)"
  using set_hm_update [of i l "q_leases q"] by (fastforce simp: payloads_def)

lemma payloads_dequeue:
  assumes "dequeue_from now lease_id worker queues caps q = (q', r)"
  shows "payloads q' \<subseteq> payloads q" "r = Ok (Some l) \<Longrightarrow> qt_payload (tl_task l) \<in> payloads q"
proof -
  obtain q1 picked where pk: "pick now queues caps q = (q1, picked)" by fastforce
  note p = pick_payloads [OF pk]
  show "payloads q' \<subseteq> payloads q"
  proof (cases picked)
    case (Some t)
    with assms pk obtain l st where
      "q' = q1\<lparr>q_stats := st, q_leases := AList.update lease_id l (q_leases q1)\<rparr>"
      "qt_payload (tl_task l) = qt_payload t"
      by (auto simp: dequeue_from_def Let_def)
    then show ?thesis
      using payloads_lease [where q = "q1\<lparr>q_stats := st\<rparr>" and i = lease_id and l = l] p Some by auto
  qed (use assms pk p in \<open>simp add: dequeue_from_def\<close>)
  show "r = Ok (Some l) \<Longrightarrow> qt_payload (tl_task l) \<in> payloads q"
    using assms pk p(2) by (auto simp: dequeue_from_def Let_def split: option.splits)
qed

section \<open>The invariant of a run\<close>

definition completed_in :: "'g TaskGraph \<Rightarrow> TaskId set" where
  "completed_in g = {i. \<exists>n. map_of (tg_nodes g) i = Some n \<and> tn_state n = TaskState.Completed}"

definition journal_in_step ::
  "('j \<Rightarrow> 'v JournalRecord list \<Rightarrow> bool) \<Rightarrow> ('v, 'g, 'j, 'w) Run \<Rightarrow> bool" where
  "journal_in_step H s \<longleftrightarrow>
     (\<exists>rs. H (sv_journal (rn_sv s)) rs \<and>
        mirrors (rn_handle s) (job_view rs (j_id (jh_job (rn_handle s)))))"

definition owned :: "('v, 'g, 'j, 'w) Env \<Rightarrow> ('v, 'g, 'j, 'w) Run \<Rightarrow> bool" where
  "owned E s \<longleftrightarrow>
     (let g = jh_graph (rn_handle s); j = j_id (jh_job (rn_handle s)) in
      tg_job_id g = j \<and>
      (\<forall>i n. map_of (tg_nodes g) i = Some n \<longrightarrow> tn_job_id n = j) \<and>
      (\<forall>v t. v \<in> payloads (sv_queue (rn_sv s)) \<longrightarrow> en_from_value E v = Inr t \<longrightarrow>
         map_of (tg_nodes g) (tn_id t) \<noteq> None \<longrightarrow> tn_job_id t = j))"

definition tallied :: "('v, 'g, 'j, 'w) Run \<Rightarrow> bool" where
  "tallied s \<longleftrightarrow>
     distinct (map tr_task_id (jh_results (rn_handle s))) \<and>
     set (map tr_task_id (jh_results (rn_handle s))) = completed_in (jh_graph (rn_handle s))"

definition run_inv ::
  "('v, 'g, 'j, 'w) Env \<Rightarrow> ('j \<Rightarrow> 'v JournalRecord list \<Rightarrow> bool) \<Rightarrow> JobId \<Rightarrow> ('v, 'g, 'j, 'w) Run \<Rightarrow> bool" where
  "run_inv E H j s \<longleftrightarrow>
     j_id (jh_job (rn_handle s)) = j \<and> journal_in_step H s \<and> graph_inv (en_pg E) (jh_graph (rn_handle s)) \<and> owned E s \<and> tallied s"

text \<open>The part of the state the invariant is about.\<close>

definition essence where
  "essence s = (sv_journal (rn_sv s), sv_queue (rn_sv s), jh_job (rn_handle s), jh_graph (rn_handle s),
     jh_results (rn_handle s), jh_failures (rn_handle s), jh_transitions (rn_handle s),
     jh_final_result (rn_handle s))"

lemma essenceD:
  assumes "essence s' = essence s"
  shows "sv_journal (rn_sv s') = sv_journal (rn_sv s)" "sv_queue (rn_sv s') = sv_queue (rn_sv s)"
    "jh_job (rn_handle s') = jh_job (rn_handle s)" "jh_graph (rn_handle s') = jh_graph (rn_handle s)"
    "jh_results (rn_handle s') = jh_results (rn_handle s)"
    "jh_failures (rn_handle s') = jh_failures (rn_handle s)"
    "jh_transitions (rn_handle s') = jh_transitions (rn_handle s)"
    "jh_final_result (rn_handle s') = jh_final_result (rn_handle s)"
  using assms by (simp_all add: essence_def)

lemma run_inv_essence:
  assumes "essence s' = essence s"
  shows "run_inv E H j s' = run_inv E H j s"
proof -
  note e = essenceD [OF assms]
  have "mirrors (rn_handle s') = mirrors (rn_handle s)"
    by (intro ext mirrors_cong) (simp_all add: e)
  then show ?thesis
    unfolding run_inv_def journal_in_step_def owned_def tallied_def e by simp
qed

definition quiet :: "(('v, 'g, 'j, 'w) Run, 'a) op \<Rightarrow> bool" where
  "quiet m \<longleftrightarrow> (\<forall>s. essence (fst (m s)) = essence s)"

named_theorems quiet_intro

lemma quietI: "(\<And>s. essence (fst (m s)) = essence s) \<Longrightarrow> quiet m"
  by (simp add: quiet_def)

lemma quietD: "quiet m \<Longrightarrow> m s = (s', r) \<Longrightarrow> essence s' = essence s"
  unfolding quiet_def by (metis fst_conv)

lemma quiet_bindS [quiet_intro]:
  assumes "quiet m" "\<And>x. quiet (f x)" shows "quiet (bindS m f)"
proof (rule quietI)
  fix s
  obtain s1 r where "m s = (s1, r)" by fastforce
  with assms show "essence (fst (bindS m f s)) = essence s"
    by (auto simp: bindS_def quiet_def split: sum.split) (metis fst_conv)+
qed

lemma quiet_thenS [quiet_intro]: "quiet m \<Longrightarrow> quiet n \<Longrightarrow> quiet (thenS m n)"
  unfolding thenS_def by (rule quiet_bindS)

lemma quiet_basic [quiet_intro]:
  "quiet (ret x)" "quiet (raise e)" "quiet (gets f)" "quiet (liftR r)" "quiet (utc_now E)"
  "quiet (fresh_uuid E)" "quiet (ask a)"
  by (simp_all add: quiet_def ret_def raise_def gets_def liftR_def utc_now_def fresh_uuid_def
      ask_def essence_def split: prod.split)

lemma quiet_cases [quiet_intro]:
  "(c \<Longrightarrow> quiet m) \<Longrightarrow> (\<not> c \<Longrightarrow> quiet n) \<Longrightarrow> quiet (if c then m else n)"
  "quiet k \<Longrightarrow> (\<And>y. quiet (f y)) \<Longrightarrow> quiet (case x of None \<Rightarrow> k | Some y \<Rightarrow> f y)"
  "(\<And>e. quiet (g e)) \<Longrightarrow> (\<And>y. quiet (f' y)) \<Longrightarrow> quiet (case r of Inl e \<Rightarrow> g e | Inr y \<Rightarrow> f' y)"
  "(\<And>a b. quiet (p a b)) \<Longrightarrow> quiet (case z of (a, b) \<Rightarrow> p a b)"
  by (simp_all split: option.split sum.split prod.split)

lemma quiet_bump_stats [quiet_intro]: "quiet (bump_stats f)"
  by (simp add: quiet_def bump_stats_def on_handle_def modify_def essence_def)

lemma quiet_emit [quiet_intro]: "quiet (emit E kind task_id detail p)"
  unfolding emit_def
  by (intro quiet_intro) (simp add: quiet_def on_handle_def modify_def essence_def)

lemma quiet_agents [quiet_intro]:
  "quiet (on_handle (\<lambda>h. h\<lparr>jh_agents := fa h\<rparr>))"
  "quiet (on_handle (\<lambda>h. h\<lparr>jh_agents := fa h, jh_statistics := fs h\<rparr>))"
  "quiet (on_handle (\<lambda>h. h\<lparr>jh_statistics := fs h\<rparr>))"
  "quiet (on_handle (\<lambda>h. h\<lparr>jh_control := c\<rparr>))"
  "quiet (on_sv (\<lambda>sv. sv\<lparr>sv_scheduler := fsch sv\<rparr>))"
  "quiet (on_sv (\<lambda>sv. sv\<lparr>sv_cluster_agents := fn sv\<rparr>))"
  by (simp_all add: quiet_def on_handle_def on_sv_def modify_def essence_def)

lemma keeps_quiet:
  assumes "quiet m" shows "keeps (run_inv E H j) m"
proof (rule keepsI)
  fix s assume "run_inv E H j s"
  moreover have "essence (fst (m s)) = essence s" using assms by (simp add: quiet_def)
  ultimately show "run_inv E H j (fst (m s))" using run_inv_essence by blast
qed

lemma quiet_spawn_agent [quiet_intro]: "quiet (spawn_agent E t)"
  unfolding spawn_agent_def Let_def by (intro quiet_intro)

lemma quiet_spawn_loop [quiet_intro]: "quiet (spawn_loop E ts agents)"
  by (induction E ts agents rule: spawn_loop.induct) (simp_all, (intro quiet_intro; assumption)+)

lemma quiet_provision_agents [quiet_intro]: "quiet (provision_agents E max_agents)"
  unfolding provision_agents_def Let_def by (intro quiet_intro)

lemma quiet_assign [quiet_intro]: "quiet (assign E task)"
  unfolding assign_def by (intro quiet_intro)

lemma quiet_respecialise [quiet_intro]: "quiet (respecialise E task)"
  unfolding respecialise_def by (intro quiet_intro)

lemma quiet_acquire_agent [quiet_intro]: "quiet (acquire_agent E task)"
  unfolding acquire_agent_def by (intro quiet_intro)

lemma quiet_release_agent [quiet_intro]: "quiet (release_agent E agent ok l w)"
  unfolding release_agent_def by (intro quiet_intro)

lemma quiet_scale_up [quiet_intro]: "quiet (scale_up E max_agents st)"
  unfolding scale_up_def by (intro quiet_intro)

lemma quiet_scale_down [quiet_intro]: "quiet (scale_down E st)"
  unfolding scale_down_def Let_def by (intro quiet_intro)

lemma quiet_stats [quiet_intro]: "quiet (queue_op E (\<lambda>now q. (q, stats now q)))"
  unfolding queue_op_def by (intro quiet_intro) (simp add: quiet_def essence_def)

lemma quiet_maintain_agent_pool [quiet_intro]: "quiet (maintain_agent_pool E max_agents)"
  unfolding maintain_agent_pool_def by (intro quiet_intro)

lemma quiet_past_deadline [quiet_intro]: "quiet (past_deadline E)"
  unfolding past_deadline_def by (intro quiet_intro)

lemma quiet_observe_control [quiet_intro]: "quiet (observe_control W)"
  unfolding observe_control_def by (intro quiet_intro)

end
