(* ===== verification/EngineInvariant.thy ===== *)
theory EngineInvariant
  imports EngineSync
begin

text \<open>
  Every operation of the engine preserves \<open>run_inv\<close>, whether it succeeds or fails: the moves of
  tasks, the queue operations, the collection of dispatches, the outcomes, and the final report.
\<close>

section \<open>The environment the engine relies on\<close>

text \<open>
  A journal that stores what it is given, and a codec of tasks that restores what it encoded. The
  local deployment (in-memory journal, values that are the tasks they encode) is one.
\<close>

locale engine_env =
  jn: reliable_journal "en_append E" "en_replay E" H
  for E :: "('v, 'g, 'j, 'w) Env" and H +
  assumes codec_restores: "en_to_value E t = Inr v \<Longrightarrow> en_from_value E v = Inr t"

definition local_env :: "(TaskNode, 'g, TaskNode JournalRecord list, 'w) Env \<Rightarrow>
    (TaskNode, 'g, TaskNode JournalRecord list, 'w) Env" where
  "local_env E = E\<lparr>en_append := memory_append, en_replay := memory_replay, en_to_value := Inr,
     en_from_value := Inr\<rparr>"

interpretation local_engine: engine_env "local_env E" "\<lambda>j rs. j = rs"
  by unfold_locales (simp_all add: local_env_def memory_append_def memory_replay_def)

section \<open>Moving a task\<close>

definition core_inv ::
  "('v, 'g, 'j, 'w) Env \<Rightarrow> ('j \<Rightarrow> 'v JournalRecord list \<Rightarrow> bool) \<Rightarrow> JobId \<Rightarrow> ('v, 'g, 'j, 'w) Run \<Rightarrow> bool" where
  "core_inv E H j s \<longleftrightarrow>
     j_id (jh_job (rn_handle s)) = j \<and> journal_in_step H s \<and>
     graph_inv (en_pg E) (jh_graph (rn_handle s)) \<and> owned E s"

lemma run_inv_core: "run_inv E H j s \<longleftrightarrow> core_inv E H j s \<and> tallied s"
  by (auto simp: run_inv_def core_inv_def)

definition node_at :: "('v, 'g, 'j, 'w) Run \<Rightarrow> TaskId \<Rightarrow> TaskNode option" where
  "node_at s i = map_of (tg_nodes (jh_graph (rn_handle s))) i"

definition moved ::
  "('v, 'g, 'j, 'w) Env \<Rightarrow> ('v, 'g, 'j, 'w) Run \<Rightarrow> TaskId \<Rightarrow> u32 \<Rightarrow> TaskState \<Rightarrow> ('v, 'g, 'j, 'w) Run \<Rightarrow> bool"
where
  "moved E s i a dst s' \<longleftrightarrow>
     (\<exists>tr g. node_at s i \<noteq> None \<and> t_to tr = dst \<and>
        g = update_task i (\<lambda>n. n\<lparr>tn_attempt := a, tn_state := dst\<rparr>) (jh_graph (rn_handle s)) \<and>
        essence s' =
          (fst (en_append E (TaskTransitioned (tg_job_id g) tr i a) (sv_journal (rn_sv s))),
           sv_queue (rn_sv s), jh_job (rn_handle s), g, jh_results (rn_handle s),
           jh_failures (rn_handle s), jh_transitions (rn_handle s) @ [tr],
           jh_final_result (rn_handle s)))"

lemma node_at_essence: "essence s' = essence s \<Longrightarrow> node_at s' = node_at s"
  by (intro ext) (simp add: node_at_def essence_def)

lemma moved_node:
  assumes "moved E s i a dst s'" "node_at s i = Some n"
  shows "node_at s' = (node_at s)(i \<mapsto> n\<lparr>tn_attempt := a, tn_state := dst\<rparr>)"
  using assms by (intro ext) (auto simp: moved_def node_at_def essence_def map_of_update_task)

lemma advance_effect:
  assumes "advance E i dst actor reason corr s = (s', r)"
  shows "(\<exists>n. r = Inr () \<and> node_at s i = Some n \<and> dst \<in> set (task_allowed (tn_state n)) \<and>
            moved E s i (tn_attempt n) dst s') \<or>
         ((\<forall>u. r \<noteq> Inr u) \<and> essence s' = essence s \<and>
            (\<forall>n. node_at s i = Some n \<longrightarrow> dst \<notin> set (task_allowed (tn_state n))))"
proof -
  obtain now w where now: "en_now E (sv_world (rn_sv s)) = (now, w)" by fastforce
  let ?g = "jh_graph (rn_handle s)"
  show ?thesis
  proof (cases "\<exists>n. node_at s i = Some n \<and> dst \<in> set (task_allowed (tn_state n))")
    case True
    then obtain n where n: "map_of (tg_nodes ?g) i = Some n" "dst \<in> set (task_allowed (tn_state n))"
      by (auto simp: node_at_def)
    let ?g' = "update_task i (\<lambda>m. m\<lparr>tn_state := dst\<rparr>) ?g"
    let ?tr = "new_transition task_machine now (Some (tn_state n)) dst actor (Some reason) corr"
    have "set_state now i dst actor (Some reason) corr ?g = (?g', Ok ?tr)"
      using n by (simp add: set_state_def apply_transition_def transition_def can_transition_to_def task_machine_def)
    moreover have "?g' = update_task i (\<lambda>m. m\<lparr>tn_attempt := tn_attempt n, tn_state := dst\<rparr>) ?g"
      using n(1) by (intro update_task_cong) simp
    moreover have "get_task ?g' i = Some (n\<lparr>tn_state := dst\<rparr>)"
      using n(1) by (simp add: get_task_def map_of_update_task)
    moreover have "t_to ?tr = dst" by (simp add: new_transition_def)
    ultimately show ?thesis
      using assms n now
      by (auto simp: advance_def bindS_def thenS_def utc_now_def gets_def liftR_def on_handle_def
          on_sv_def modify_def journal_record_def node_at_def moved_def essence_def)
  next
    case False
    then have "\<exists>e. set_state now i dst actor (Some reason) corr ?g = (?g, Inl e)"
      by (auto simp: set_state_def apply_transition_def transition_def can_transition_to_def
          task_machine_def node_at_def split: option.split)
    with False show ?thesis
      using assms now
      by (auto simp: advance_def bindS_def thenS_def utc_now_def gets_def liftR_def essence_def)
  qed
qed

text \<open>
  A lease may carry a new attempt number. It is written to the graph first; the record of the first
  move that follows carries it.
\<close>

definition with_attempt :: "TaskId \<Rightarrow> u32 \<Rightarrow> ('v, 'g) JobHandle \<Rightarrow> ('v, 'g) JobHandle" where
  "with_attempt i a h = h\<lparr>jh_graph := update_task i (\<lambda>n. n\<lparr>tn_attempt := a\<rparr>) (jh_graph h)\<rparr>"

lemma update_after_attempt:
  "update_task i (\<lambda>n. n\<lparr>tn_attempt := a, tn_state := dst\<rparr>) (update_task i (\<lambda>n. n\<lparr>tn_attempt := a\<rparr>) g) =
   update_task i (\<lambda>n. n\<lparr>tn_attempt := a, tn_state := dst\<rparr>) g"
  by (simp add: update_task_update_task comp_def)

lemma moved_after_attempt:
  assumes "moved E (s\<lparr>rn_handle := with_attempt i a (rn_handle s)\<rparr>) i a dst s'"
  shows "moved E s i a dst s'"
  using assms unfolding moved_def with_attempt_def
  by (auto simp: update_after_attempt node_at_def map_of_update_task split: option.splits)

lemma completed_in_update:
  assumes "map_of (tg_nodes g) i = Some n"
  shows "completed_in (update_task i f g) =
    (if tn_state (f n) = TaskState.Completed then insert i (completed_in g) else completed_in g - {i})"
  using assms by (auto simp: completed_in_def map_of_update_task)

lemma moved_completed_in:
  assumes "moved E s i a dst s'"
  shows "completed_in (jh_graph (rn_handle s')) =
    (if dst = TaskState.Completed then insert i (completed_in (jh_graph (rn_handle s)))
     else completed_in (jh_graph (rn_handle s)) - {i})"
  using assms by (auto simp: moved_def node_at_def essence_def completed_in_update)

lemma moved_tallied:
  assumes "moved E s i a dst s'" "tallied s" "dst \<noteq> TaskState.Completed"
    "\<And>n. node_at s i = Some n \<Longrightarrow> tn_state n \<noteq> TaskState.Completed"
  shows "tallied s'"
proof -
  have "i \<notin> completed_in (jh_graph (rn_handle s))" using assms(4) by (auto simp: completed_in_def node_at_def)
  moreover have "jh_results (rn_handle s') = jh_results (rn_handle s)"
    using assms(1) by (auto simp: moved_def essence_def)
  ultimately show ?thesis
    using assms(2) moved_completed_in [OF assms(1)] assms(3) by (simp add: tallied_def)
qed

lemma in_stepI:
  assumes "H (sv_journal (rn_sv s)) rs" "mirrors (rn_handle s) (job_view rs (j_id (jh_job (rn_handle s))))"
  shows "journal_in_step H s"
  using assms unfolding journal_in_step_def by blast

lemma valid_bind_liftR:
  assumes "\<And>x. r = Inr x \<Longrightarrow> valid P (f x) Q F" "\<And>s. P s \<Longrightarrow> F s"
  shows "valid P (bindS (liftR r) f) Q F"
  using assms by (cases r) (auto simp: valid_def bindS_def liftR_def)

lemma bindS_gets [simp]: "bindS (gets f) k s = k (f s) s"
  by (simp add: bindS_def gets_def)

lemma thenS_on_handle [simp]: "thenS (on_handle f) m s = m (s\<lparr>rn_handle := f (rn_handle s)\<rparr>)"
  by (simp add: thenS_def bindS_def on_handle_def modify_def)

lemma keeps_bind_gets:
  assumes "\<And>s. I s \<Longrightarrow> keeps I (k (f s))"
  shows "keeps I (bindS (gets f) k)"
proof (rule keepsI)
  fix s assume "I s"
  with keeps_fst [OF assms] show "I (fst (bindS (gets f) k s))" by simp
qed

lemma valid_at:
  "valid P m Q F \<Longrightarrow> P s \<Longrightarrow> case m s of (s', Inr x) \<Rightarrow> Q x s' | (s', Inl e) \<Rightarrow> F s'"
  by (simp add: valid_def)

lemma valid_conseq:
  assumes "valid P' m Q' F'" "\<And>s. P s \<Longrightarrow> P' s" "\<And>x s. Q' x s \<Longrightarrow> Q x s" "\<And>s. F' s \<Longrightarrow> F s"
  shows "valid P m Q F"
  using assms unfolding valid_def by (fastforce split: prod.splits sum.splits)

lemma valid_quiet:
  assumes "quiet m" "\<And>s s'. essence s' = essence s \<Longrightarrow> P s \<Longrightarrow> P s'" "\<And>s. P s \<Longrightarrow> F s"
  shows "valid P m (\<lambda>_. P) F"
  using assms(2,3) quietD [OF assms(1)] by (intro validI) blast+

lemma queue_op_state:
  "\<exists>now. essence (fst (queue_op E f s)) =
      essence (s\<lparr>rn_sv := (rn_sv s)\<lparr>sv_queue := fst (f now (sv_queue (rn_sv s)))\<rparr>\<rparr>) \<and>
    snd (queue_op E f s) = snd (f now (sv_queue (rn_sv s)))"
proof -
  obtain now w where now: "en_now E (sv_world (rn_sv s)) = (now, w)" by fastforce
  obtain q r where f: "f now (sv_queue (rn_sv s)) = (q, r)" by fastforce
  from now f show ?thesis
    by (intro exI [of _ now]) (simp add: queue_op_def bindS_def utc_now_def essence_def)
qed

lemma run_inv_queue:
  assumes "run_inv E H j s"
    "\<And>v t. v \<in> payloads q \<Longrightarrow> v \<notin> payloads (sv_queue (rn_sv s)) \<Longrightarrow> en_from_value E v = Inr t \<Longrightarrow>
       tn_job_id t = j"
  shows "run_inv E H j (s\<lparr>rn_sv := (rn_sv s)\<lparr>sv_queue := q\<rparr>\<rparr>)"
proof -
  have "owned E (s\<lparr>rn_sv := (rn_sv s)\<lparr>sv_queue := q\<rparr>\<rparr>)"
    using assms unfolding run_inv_def owned_def Let_def by simp blast
  with assms(1) show ?thesis by (auto simp: run_inv_def journal_in_step_def tallied_def)
qed

lemma keeps_queue_op:
  assumes "\<And>now q v t. v \<in> payloads (fst (f now q)) \<Longrightarrow> v \<notin> payloads q \<Longrightarrow> en_from_value E v = Inr t \<Longrightarrow>
    tn_job_id t = j"
  shows "keeps (run_inv E H j) (queue_op E f)"
proof (rule keepsI)
  fix s assume inv: "run_inv E H j s"
  from queue_op_state [of E f s] obtain now where
    "essence (fst (queue_op E f s)) =
      essence (s\<lparr>rn_sv := (rn_sv s)\<lparr>sv_queue := fst (f now (sv_queue (rn_sv s)))\<rparr>\<rparr>)" by blast
  moreover have "run_inv E H j (s\<lparr>rn_sv := (rn_sv s)\<lparr>sv_queue := fst (f now (sv_queue (rn_sv s)))\<rparr>\<rparr>)"
    using run_inv_queue [OF inv] assms by blast
  ultimately show "run_inv E H j (fst (queue_op E f s))" using run_inv_essence by blast
qed

lemma keeps_queue_shrink:
  assumes "\<And>now q. payloads (fst (f now q)) \<subseteq> payloads q"
  shows "keeps (run_inv E H j) (queue_op E f)"
  using keeps_queue_op assms by blast

lemma keeps_ignoring: "keeps I m \<Longrightarrow> keeps I (ignoring m)"
  by (rule keepsI) (simp add: ignoring_def keeps_fst)

lemma valid_dequeue:
  "valid (run_inv E H j) (queue_op E (\<lambda>now. dequeue_from now lease_id worker [] []))
     (\<lambda>leased s. run_inv E H j s \<and> (\<forall>l t. leased = Some l \<longrightarrow> en_from_value E (qt_payload (tl_task l)) = Inr t \<longrightarrow>
        node_at s (tn_id t) \<noteq> None \<longrightarrow> tn_job_id t = j)) (run_inv E H j)"
proof -
  let ?f = "\<lambda>now. dequeue_from now lease_id worker [] []"
  have keep: "keeps (run_inv E H j) (queue_op E ?f)"
    by (rule keeps_queue_shrink) (metis payloads_dequeue(1) prod.collapse)
  show ?thesis
  proof (rule validI)
    fix s s' x assume inv: "run_inv E H j s" and op: "queue_op E ?f s = (s', Inr x)"
    from queue_op_state [of E ?f s] obtain now where
      st: "essence s' = essence (s\<lparr>rn_sv := (rn_sv s)\<lparr>sv_queue := fst (?f now (sv_queue (rn_sv s)))\<rparr>\<rparr>)"
        "snd (?f now (sv_queue (rn_sv s))) = Inr x" using op by auto
    have "tn_job_id t = j" if "x = Some l" "en_from_value E (qt_payload (tl_task l)) = Inr t"
      "node_at s' (tn_id t) \<noteq> None" for l t
    proof -
      have "qt_payload (tl_task l) \<in> payloads (sv_queue (rn_sv s))"
        using payloads_dequeue(2) [OF prod.collapse [symmetric]] st(2) that(1) by blast
      moreover have "node_at s' = node_at s" using st(1) by (intro ext) (simp add: node_at_def essence_def)
      ultimately show ?thesis
        using inv that unfolding run_inv_def owned_def Let_def node_at_def by metis
    qed
    moreover have "run_inv E H j s'" using keeps_fst [OF keep inv] op by simp
    ultimately show "run_inv E H j s' \<and> (\<forall>l t. x = Some l \<longrightarrow> en_from_value E (qt_payload (tl_task l)) = Inr t \<longrightarrow>
        node_at s' (tn_id t) \<noteq> None \<longrightarrow> tn_job_id t = j)" by blast
  next
    fix s s' e assume "run_inv E H j s" "queue_op E ?f s = (s', Inl e)"
    with keeps_fst [OF keep] show "run_inv E H j s'" by (metis fst_conv)
  qed
qed

lemma thenS_on_sv [simp]: "thenS (on_sv f) m s = m (s\<lparr>rn_sv := f (rn_sv s)\<rparr>)"
  by (simp add: thenS_def bindS_def on_sv_def modify_def)

lemma journal_record_state:
  "journal_record E r s = (s\<lparr>rn_sv := (rn_sv s)\<lparr>sv_journal := fst (en_append E r (sv_journal (rn_sv s)))\<rparr>\<rparr>, Ok ())"
  by (simp add: journal_record_def on_sv_def modify_def)

lemma thenS_journal_record [simp]:
  "thenS (journal_record E r) m s =
   m (s\<lparr>rn_sv := (rn_sv s)\<lparr>sv_journal := fst (en_append E r (sv_journal (rn_sv s)))\<rparr>\<rparr>)"
  by (simp add: thenS_def bindS_def journal_record_state)

lemma release_agent_state:
  "\<exists>s'. release_agent E agent ok l w s = (s', Ok ()) \<and> essence s' = essence s"
proof -
  obtain s' r where r: "release_agent E agent ok l w s = (s', r)" by fastforce
  have "r = Ok ()"
    using r by (auto simp: release_agent_def bindS_def utc_now_def on_handle_def modify_def split: prod.splits)
  with r quietD [OF quiet_release_agent r] show ?thesis by blast
qed

lemma keeps_forS_mem: "(\<And>x. x \<in> set xs \<Longrightarrow> keeps I (body x)) \<Longrightarrow> keeps I (forS xs body)"
  by (induction xs) (simp_all add: valid_ret keeps_thenS)

text \<open>An agent that returns a result answers for the task it was given.\<close>

fun answers :: "'v Dispatch \<Rightarrow> 'v outcome \<Rightarrow> bool" where
  "answers d (Returned (Inr res)) \<longleftrightarrow>
     tr_task_id res = tn_id (dp_task d) \<and> tr_job_id res = tn_job_id (dp_task d)"
| "answers d _ \<longleftrightarrow> True"

definition honest_outcomes :: "('v, 'w) World \<Rightarrow> bool" where
  "honest_outcomes W \<longleftrightarrow>
     (\<forall>ds w outs w'. wo_outcomes W ds w = (Some outs, w') \<longrightarrow> list_all (\<lambda>(d, out). answers d out) (zip ds outs))"

text \<open>The state after a record was appended and the handle changed.\<close>

abbreviation recorded ::
  "('v, 'g, 'j, 'w) Env \<Rightarrow> 'v JournalRecord \<Rightarrow> (('v, 'g) JobHandle \<Rightarrow> ('v, 'g) JobHandle) \<Rightarrow>
   ('v, 'g, 'j, 'w) Run \<Rightarrow> ('v, 'g, 'j, 'w) Run" where
  "recorded E r f s \<equiv>
     s\<lparr>rn_sv := (rn_sv s)\<lparr>sv_journal := fst (en_append E r (sv_journal (rn_sv s)))\<rparr>,
       rn_handle := f (rn_handle s)\<rparr>"

lemma record_success_state:
  "\<exists>s'. record_task_success E agent res w s = (s', Ok ()) \<and>
    essence s' = essence (recorded E (JournalRecord.TaskCompleted (tr_job_id res) res)
      (\<lambda>h. h\<lparr>jh_results := jh_results h @ [res]\<rparr>) s)"
proof -
  obtain s1 where s1: "release_agent E agent True (tr_duration_ms res) w s = (s1, Ok ())" "essence s1 = essence s"
    using release_agent_state by blast
  then show ?thesis
    by (simp add: record_task_success_def thenS_def [of "release_agent _ _ _ _ _"] bindS_def
        bump_stats_def journal_record_state) (simp add: essence_def)
qed

context engine_env
begin

text \<open>
  The journal stays in step when a record of the job is appended and the handle becomes the one the
  record describes.
\<close>

lemma in_step_append:
  assumes "journal_in_step H s" "record_job_id r = j_id (jh_job (rn_handle s))"
    "sv_journal (rn_sv s') = fst (en_append E r (sv_journal (rn_sv s)))"
    "j_id (jh_job (rn_handle s')) = j_id (jh_job (rn_handle s))"
    "\<And>e. mirrors (rn_handle s) e \<Longrightarrow> mirrors (rn_handle s') (absorb r e)"
  shows "journal_in_step H s'"
proof -
  from assms(1) obtain rs where rs: "H (sv_journal (rn_sv s)) rs"
    "mirrors (rn_handle s) (job_view rs (j_id (jh_job (rn_handle s))))"
    unfolding journal_in_step_def by blast
  show ?thesis
  proof (rule in_stepI)
    show "H (sv_journal (rn_sv s')) (rs @ [r])" unfolding assms(3) using rs(1) by (rule jn.append_holds)
    show "mirrors (rn_handle s') (job_view (rs @ [r]) (j_id (jh_job (rn_handle s'))))"
      using assms(5) [OF rs(2)] by (simp add: job_view_snoc assms(2,4))
  qed
qed

lemma core_moved:
  assumes "core_inv E H j s" "moved E s i a dst s'"
  shows "core_inv E H j s'"
proof -
  let ?h = "rn_handle s" and ?h' = "rn_handle s'"
  from assms(2) obtain tr n where n: "map_of (tg_nodes (jh_graph ?h)) i = Some n" and tr: "t_to tr = dst"
    and ess: "sv_journal (rn_sv s') =
        fst (en_append E (TaskTransitioned (tg_job_id (jh_graph ?h)) tr i a) (sv_journal (rn_sv s)))"
      "sv_queue (rn_sv s') = sv_queue (rn_sv s)" "jh_job ?h' = jh_job ?h"
      "jh_graph ?h' = update_task i (\<lambda>n. n\<lparr>tn_attempt := a, tn_state := dst\<rparr>) (jh_graph ?h)"
      "jh_results ?h' = jh_results ?h" "jh_failures ?h' = jh_failures ?h"
      "jh_transitions ?h' = jh_transitions ?h @ [tr]" "jh_final_result ?h' = jh_final_result ?h"
    by (auto simp: moved_def essence_def node_at_def)
  have look: "map_of (tg_nodes (jh_graph ?h')) =
      (map_of (tg_nodes (jh_graph ?h)))(i \<mapsto> n\<lparr>tn_attempt := a, tn_state := t_to tr\<rparr>)"
    using n tr by (simp add: ess map_of_update_task)
  have own: "owned E s" and gi: "graph_inv (en_pg E) (jh_graph ?h)" and js: "journal_in_step H s"
    using assms(1) by (simp_all add: core_inv_def)
  have "journal_in_step H s'"
  proof (rule in_step_append [OF js _ ess(1)])
    show "record_job_id (TaskTransitioned (tg_job_id (jh_graph ?h)) tr i a) = j_id (jh_job ?h)"
      using own by (simp add: owned_def Let_def)
    fix e assume "mirrors ?h e"
    from mirrors_transition [OF this n look]
    have "mirrors (?h\<lparr>jh_graph := jh_graph ?h', jh_transitions := jh_transitions ?h @ [tr]\<rparr>)
        (absorb (TaskTransitioned (tg_job_id (jh_graph ?h)) tr i a) e)" .
    then show "mirrors ?h' (absorb (TaskTransitioned (tg_job_id (jh_graph ?h)) tr i a) e)"
      by (subst mirrors_cong [where h = "?h\<lparr>jh_graph := jh_graph ?h', jh_transitions := jh_transitions ?h @ [tr]\<rparr>"])
        (simp_all add: ess)
  qed (simp add: ess)
  moreover have "graph_inv (en_pg E) (jh_graph ?h')"
    unfolding ess by (rule update_task_inv [OF gi]) simp_all
  moreover have "owned E s'"
    using own n unfolding owned_def Let_def look ess by (auto simp: map_of_update_task split: if_splits)
  moreover have "j_id (jh_job ?h') = j" using assms(1) by (simp add: core_inv_def ess)
  ultimately show ?thesis by (simp add: core_inv_def)
qed

lemma run_inv_moved:
  assumes "run_inv E H j s" "moved E s i a dst s'" "dst \<noteq> TaskState.Completed"
    "\<And>n. node_at s i = Some n \<Longrightarrow> tn_state n \<noteq> TaskState.Completed"
  shows "run_inv E H j s'"
  using assms core_moved moved_tallied unfolding run_inv_core by blast

lemma allowed_not_completed: "dst \<in> set (task_allowed st) \<Longrightarrow> st \<noteq> TaskState.Completed"
  by auto

lemma keeps_advance:
  assumes "dst \<noteq> TaskState.Completed"
  shows "keeps (run_inv E H j) (advance E i dst actor reason corr)"
proof (rule keepsI)
  fix s assume inv: "run_inv E H j s"
  obtain s' r where adv: "advance E i dst actor reason corr s = (s', r)" by fastforce
  from advance_effect [OF adv] have "run_inv E H j s'"
  proof
    assume "\<exists>n. r = Inr () \<and> node_at s i = Some n \<and> dst \<in> set (task_allowed (tn_state n)) \<and>
      moved E s i (tn_attempt n) dst s'"
    then obtain n where n: "node_at s i = Some n" "dst \<in> set (task_allowed (tn_state n))"
      "moved E s i (tn_attempt n) dst s'" by blast
    show ?thesis
      using run_inv_moved [OF inv n(3) assms] n(1) allowed_not_completed [OF n(2)] by simp
  qed (use inv run_inv_essence in blast)
  then show "run_inv E H j (fst (advance E i dst actor reason corr s))" by (simp add: adv)
qed

lemma run_inv_node:
  assumes "run_inv E H j s" "node_at s i = Some n"
  shows "tn_job_id n = j" "tn_id n = i"
  using assms graph_invD(5) by (auto simp: run_inv_def owned_def Let_def node_at_def)

lemma keeps_enqueue:
  assumes "from_task (en_to_value E) now t priority lease = Inr entry" "tn_job_id t = j"
  shows "keeps (run_inv E H j) (queue_op E (\<lambda>now. enqueue entry))"
proof (rule keeps_queue_op)
  fix now q v t' assume v: "v \<in> payloads (fst (enqueue entry q))" "v \<notin> payloads q" "en_from_value E v = Inr t'"
  then have "v = qt_payload entry" using payloads_enqueue [of entry q] by blast
  moreover have "en_to_value E t = Inr (qt_payload entry)"
    using assms(1) by (auto simp: from_task_def split: sum.splits)
  note codec_restores [OF this]
  ultimately show "tn_job_id t' = j" using v(3) assms(2) by simp
qed

lemma keeps_promote_one: "keeps (run_inv E H j) (promote_one E priority actor corr i)"
  unfolding promote_one_def
proof (rule valid_thenS [OF keeps_advance])
  have "keeps (run_inv E H j) (bindS (utc_now E) (\<lambda>now.
          bindS (liftR (from_task (en_to_value E) now t priority (cc_lease_ms (en_config E)))) (\<lambda>entry.
          thenS (queue_op E (\<lambda>now. enqueue entry))
            (bindS (gets job_progress) (\<lambda>p. emit E TaskQueued (Some i) (tn_title t) p)))))"
    if "tn_job_id t = j" for t
    using that
    by (intro keeps_bindS keeps_thenS valid_bind_liftR keeps_enqueue keeps_quiet quiet_intro) auto
  then show "keeps (run_inv E H j) (bindS (gets (\<lambda>s. get_task (jh_graph (rn_handle s)) i)) (\<lambda>node.
      case node of None \<Rightarrow> raise (NotFound ''task'' i)
      | Some task \<Rightarrow> bindS (utc_now E) (\<lambda>now.
          bindS (liftR (from_task (en_to_value E) now task priority (cc_lease_ms (en_config E)))) (\<lambda>entry.
          thenS (queue_op E (\<lambda>now. enqueue entry))
            (bindS (gets job_progress) (\<lambda>p. emit E TaskQueued (Some i) (tn_title task) p))))))"
    by (intro keeps_bind_gets)
      (auto simp: get_task_def node_at_def dest: run_inv_node(1) [unfolded node_at_def]
        intro: valid_raise split: option.split)
qed simp

lemma keeps_promote_ready: "keeps (run_inv E H j) (promote_ready E actor corr)"
  unfolding promote_ready_def by (intro op_valid keeps_promote_one)

lemma first_move:
  assumes inv: "run_inv E H j s" and n: "node_at s i = Some n"
    and ok: "dst \<in> set (task_allowed (tn_state n))" "dst \<noteq> TaskState.Completed"
    and adv: "advance E i dst actor reason corr (s\<lparr>rn_handle := with_attempt i a (rn_handle s)\<rparr>) = (s', r)"
  shows "r = Inr ()" "run_inv E H j s'"
proof -
  let ?s = "s\<lparr>rn_handle := with_attempt i a (rn_handle s)\<rparr>"
  have n': "node_at ?s i = Some (n\<lparr>tn_attempt := a\<rparr>)"
    using n by (simp add: node_at_def with_attempt_def map_of_update_task)
  with advance_effect [OF adv] ok(1) have "r = Inr ()" "moved E ?s i a dst s'" by auto
  then show "r = Inr ()" "run_inv E H j s'"
    using run_inv_moved [OF inv moved_after_attempt ok(2), of i a s'] n allowed_not_completed [OF ok(1)]
    by simp_all
qed

lemma keeps_start_task:
  assumes task: "tn_job_id task = j"
  shows "valid (\<lambda>s. run_inv E H j s \<and>
      (\<exists>n. node_at s (tn_id task) = Some n \<and> tn_state n \<in> {TaskState.Queued, TaskState.RetryScheduled}))
    (start_task E actor corr lease task agent)
    (\<lambda>d s. run_inv E H j s \<and> tn_job_id (dp_task d) = j) (run_inv E H j)" (is "valid ?P _ ?Q _")
proof -
  let ?a = "qt_attempt (tl_task lease)" and ?i = "tn_id task"
  let ?task' = "task\<lparr>tn_attempt := ?a\<rparr>"
  define tail where "tail = bindS (gets rn_handle) (\<lambda>h.
      thenS (emit E TaskStarted (Some ?i)
          (tn_title task @ '' (attempt '' @ dec (unat (tn_attempt ?task')) @ '')'') (progress (jh_graph h)))
        (ret \<lparr>dp_lease = lease, dp_agent = agent, dp_task = ?task',
              dp_context = \<lparr>tc_objective = jr_objective (j_request (jh_job h)),
                            tc_context = jr_context (j_request (jh_job h)),
                            tc_upstream = upstream_outputs E h ?task', tc_allowed_tools = []\<rparr>,
              dp_queue_wait_ms = queue_wait lease\<rparr>))"
  define rest where "rest = thenS (advance E ?i TaskState.Running actor ''agent_started'' corr) tail"
  have "valid (run_inv E H j) tail ?Q (run_inv E H j)"
    unfolding tail_def
    by (rule valid_bindS [where R = "\<lambda>_. run_inv E H j"], rule valid_gets, assumption)
      (intro valid_thenS [OF keeps_quiet] quiet_intro valid_ret, simp add: task)
  then have rest: "valid (run_inv E H j) rest ?Q (run_inv E H j)"
    unfolding rest_def by (rule valid_thenS [OF keeps_advance, rotated]) simp
  then have rest1: "valid (run_inv E H j)
      (thenS (advance E ?i TaskState.Leased actor ''leased_to_agent'' corr) rest) ?Q (run_inv E H j)"
    by (rule valid_thenS [OF keeps_advance, rotated]) simp
  have "case start_task E actor corr lease task agent s of (s', Inr x) \<Rightarrow> ?Q x s' | (s', Inl e) \<Rightarrow> run_inv E H j s'"
    if P: "?P s" for s
  proof -
    from P obtain n where inv: "run_inv E H j s" and n: "node_at s ?i = Some n" by blast
    let ?s = "s\<lparr>rn_handle := with_attempt ?i ?a (rn_handle s)\<rparr>"
    have st: "get_task (jh_graph (rn_handle ?s)) ?i = Some (n\<lparr>tn_attempt := ?a\<rparr>)"
      using n by (simp add: get_task_def node_at_def with_attempt_def map_of_update_task)
    have eq: "start_task E actor corr lease task agent s =
        thenS (if tn_state n = TaskState.RetryScheduled
               then advance E ?i TaskState.Queued actor ''backoff_elapsed'' corr else ret ())
          (thenS (advance E ?i TaskState.Leased actor ''leased_to_agent'' corr) rest) ?s"
      using st by (simp add: start_task_def rest_def tail_def with_attempt_def Let_def)
    from P n consider "tn_state n = TaskState.RetryScheduled" | "tn_state n = TaskState.Queued" by auto
    then show ?thesis
    proof cases
      case 1
      obtain s1 r where adv: "advance E ?i TaskState.Queued actor ''backoff_elapsed'' corr ?s = (s1, r)" by fastforce
      note f = first_move [OF inv n _ _ adv]
      have "start_task E actor corr lease task agent s =
          thenS (advance E ?i TaskState.Leased actor ''leased_to_agent'' corr) rest s1"
        unfolding eq thenS_def [of "if _ then _ else _"] using 1 adv f(1) by (simp add: bindS_def)
      with rest1 f(2) 1 show ?thesis unfolding valid_def by simp
    next
      case 2
      obtain s1 r where adv: "advance E ?i TaskState.Leased actor ''leased_to_agent'' corr ?s = (s1, r)" by fastforce
      note f = first_move [OF inv n _ _ adv]
      have "start_task E actor corr lease task agent s = rest s1"
        unfolding eq thenS_def using 2 adv f(1) by (simp add: bindS_def ret_def)
      with rest f(2) 2 show ?thesis unfolding valid_def by simp
    qed
  qed
  then show ?thesis unfolding valid_def by blast
qed

abbreviation leasable :: "TaskId \<Rightarrow> ('v, 'g, 'j, 'w) Run \<Rightarrow> bool" where
  "leasable i s \<equiv> (\<exists>n. node_at s i = Some n \<and> tn_state n \<in> {TaskState.Queued, TaskState.RetryScheduled})"

abbreviation dispatches_of :: "JobId \<Rightarrow> 'v Dispatch list \<Rightarrow> bool" where
  "dispatches_of j ds \<equiv> (\<forall>d \<in> set ds. tn_job_id (dp_task d) = j)"

lemma keeps_dispatch:
  assumes "tn_job_id task = j" "dispatches_of j ds"
    and IH: "\<And>ds. dispatches_of j ds \<Longrightarrow>
      valid (run_inv E H j) (loop ds) (\<lambda>ds s. run_inv E H j s \<and> dispatches_of j ds) (run_inv E H j)"
  shows "valid (\<lambda>s. run_inv E H j s \<and> leasable (tn_id task) s)
    (bindS (acquire_agent E task) (\<lambda>found.
       case found of
         None \<Rightarrow> thenS (queue_op E (\<lambda>now. release now (tl_lease_id lease))) (ret ds)
       | Some agent \<Rightarrow> bindS (start_task E actor corr lease task agent) (\<lambda>d. loop (ds @ [d]))))
    (\<lambda>ds s. run_inv E H j s \<and> dispatches_of j ds) (run_inv E H j)"
proof (rule valid_bindS)
  show "valid (\<lambda>s. run_inv E H j s \<and> leasable (tn_id task) s) (acquire_agent E task)
      (\<lambda>_ s. run_inv E H j s \<and> leasable (tn_id task) s) (run_inv E H j)"
    by (rule valid_quiet [OF quiet_acquire_agent]) (use run_inv_essence node_at_essence in metis)+
next
  fix found
  have "valid (\<lambda>s. run_inv E H j s \<and> leasable (tn_id task) s)
      (thenS (queue_op E (\<lambda>now. release now (tl_lease_id lease))) (ret ds))
      (\<lambda>ds s. run_inv E H j s \<and> dispatches_of j ds) (run_inv E H j)"
    by (rule valid_conseq [OF valid_thenS [OF keeps_queue_shrink [OF payloads_release] valid_ret]])
      (use assms(2) in auto)
  moreover have "valid (\<lambda>s. run_inv E H j s \<and> leasable (tn_id task) s)
      (bindS (start_task E actor corr lease task agent) (\<lambda>d. loop (ds @ [d])))
      (\<lambda>ds s. run_inv E H j s \<and> dispatches_of j ds) (run_inv E H j)" for agent
  proof (rule valid_bindS [OF keeps_start_task [OF assms(1)]])
    fix d
    show "valid (\<lambda>s. run_inv E H j s \<and> tn_job_id (dp_task d) = j) (loop (ds @ [d]))
      (\<lambda>ds s. run_inv E H j s \<and> dispatches_of j ds) (run_inv E H j)"
    proof (cases "tn_job_id (dp_task d) = j")
      case True
      with IH [of "ds @ [d]"] assms(2) show ?thesis by simp
    qed (simp add: valid_def)
  qed
  ultimately show "valid (\<lambda>s. run_inv E H j s \<and> leasable (tn_id task) s)
      (case found of
         None \<Rightarrow> thenS (queue_op E (\<lambda>now. release now (tl_lease_id lease))) (ret ds)
       | Some agent \<Rightarrow> bindS (start_task E actor corr lease task agent) (\<lambda>d. loop (ds @ [d])))
      (\<lambda>ds s. run_inv E H j s \<and> dispatches_of j ds) (run_inv E H j)"
    by (cases found) simp_all
qed

lemma keeps_leased:
  assumes "dispatches_of j ds"
    and IH: "\<And>ds. dispatches_of j ds \<Longrightarrow>
      valid (run_inv E H j) (loop ds) (\<lambda>ds s. run_inv E H j s \<and> dispatches_of j ds) (run_inv E H j)"
  shows "valid (\<lambda>s. run_inv E H j s \<and> (\<forall>t. en_from_value E (qt_payload (tl_task lease)) = Inr t \<longrightarrow>
        node_at s (tn_id t) \<noteq> None \<longrightarrow> tn_job_id t = j))
    (bindS (liftR (decode_task (en_from_value E) (tl_task lease))) (\<lambda>task.
     bindS (gets (\<lambda>s. map_option tn_state (get_task (jh_graph (rn_handle s)) (tn_id task)))) (\<lambda>st.
       if \<not> (st = Some TaskState.Queued \<or> st = Some TaskState.RetryScheduled)
       then thenS (ignoring (queue_op E (\<lambda>now. acknowledge now (tl_lease_id lease)))) (loop ds)
       else
         bindS (acquire_agent E task) (\<lambda>found.
           case found of
             None \<Rightarrow> thenS (queue_op E (\<lambda>now. release now (tl_lease_id lease))) (ret ds)
           | Some agent \<Rightarrow> bindS (start_task E actor corr lease task agent) (\<lambda>d. loop (ds @ [d]))))))
    (\<lambda>ds s. run_inv E H j s \<and> dispatches_of j ds) (run_inv E H j)" (is "valid ?P _ ?Q _")
proof (rule valid_bind_liftR)
  fix task assume "decode_task (en_from_value E) (tl_task lease) = Inr task"
  then have dec: "en_from_value E (qt_payload (tl_task lease)) = Inr task"
    by (auto simp: decode_task_def split: sum.splits)
  let ?dispatch = "bindS (acquire_agent E task) (\<lambda>found.
           case found of
             None \<Rightarrow> thenS (queue_op E (\<lambda>now. release now (tl_lease_id lease))) (ret ds)
           | Some agent \<Rightarrow> bindS (start_task E actor corr lease task agent) (\<lambda>d. loop (ds @ [d])))"
  let ?drop = "thenS (ignoring (queue_op E (\<lambda>now. acknowledge now (tl_lease_id lease)))) (loop ds)"
  have drop: "valid (run_inv E H j) ?drop ?Q (run_inv E H j)"
    by (rule valid_thenS [OF keeps_ignoring [OF keeps_queue_shrink [OF payloads_acknowledge]] IH [OF assms(1)]])
  let ?body = "bindS (gets (\<lambda>s. map_option tn_state (get_task (jh_graph (rn_handle s)) (tn_id task)))) (\<lambda>st.
       if \<not> (st = Some TaskState.Queued \<or> st = Some TaskState.RetryScheduled) then ?drop else ?dispatch)"
  have "case ?body s of (s', Inr x) \<Rightarrow> ?Q x s' | (s', Inl e) \<Rightarrow> run_inv E H j s'" if P: "?P s" for s
  proof (cases "leasable (tn_id task) s")
    case True
    then have "tn_job_id task = j" using P dec by auto
    from keeps_dispatch [where loop = loop, OF this assms(1) IH]
    have v: "valid (\<lambda>s. run_inv E H j s \<and> leasable (tn_id task) s) ?dispatch ?Q (run_inv E H j)" .
    have eq: "?body s = ?dispatch s" using True by (auto simp: node_at_def get_task_def)
    show ?thesis unfolding eq by (rule valid_at [OF v]) (use P True in blast)
  next
    case False
    then have eq: "?body s = ?drop s" by (auto simp: node_at_def get_task_def)
    show ?thesis unfolding eq by (rule valid_at [OF drop]) (use P in blast)
  qed
  then show "valid ?P ?body ?Q (run_inv E H j)" unfolding valid_def by blast
qed simp

lemma keeps_collect_loop:
  "dispatches_of j ds \<Longrightarrow> valid (run_inv E H j) (collect_loop E worker actor corr n ds)
     (\<lambda>ds s. run_inv E H j s \<and> dispatches_of j ds) (run_inv E H j)"
proof (induction n arbitrary: ds)
  case (Suc n)
  show ?case
    unfolding collect_loop.simps
  proof (rule valid_bindS [OF keeps_quiet [OF quiet_basic(6)]], rule valid_bindS [OF valid_dequeue])
    fix lease_id leased
    let ?k = "\<lambda>leased. case leased of None \<Rightarrow> ret ds | Some lease \<Rightarrow>
      bindS (liftR (decode_task (en_from_value E) (tl_task lease))) (\<lambda>task.
      bindS (gets (\<lambda>s. map_option tn_state (get_task (jh_graph (rn_handle s)) (tn_id task)))) (\<lambda>st.
       if \<not> (st = Some TaskState.Queued \<or> st = Some TaskState.RetryScheduled)
       then thenS (ignoring (queue_op E (\<lambda>now. acknowledge now (tl_lease_id lease))))
              (collect_loop E worker actor corr n ds)
       else
         bindS (acquire_agent E task) (\<lambda>found.
           case found of
             None \<Rightarrow> thenS (queue_op E (\<lambda>now. release now (tl_lease_id lease))) (ret ds)
           | Some agent \<Rightarrow> bindS (start_task E actor corr lease task agent) (\<lambda>d.
               collect_loop E worker actor corr n (ds @ [d])))))"
    show "valid (\<lambda>s. run_inv E H j s \<and> (\<forall>l t. leased = Some l \<longrightarrow> en_from_value E (qt_payload (tl_task l)) = Inr t \<longrightarrow>
        node_at s (tn_id t) \<noteq> None \<longrightarrow> tn_job_id t = j)) (?k leased)
        (\<lambda>ds s. run_inv E H j s \<and> dispatches_of j ds) (run_inv E H j)"
    proof (cases leased)
      case None
      then show ?thesis using Suc.prems by (simp add: valid_ret)
    next
      case (Some lease)
      then show ?thesis using keeps_leased [where loop = "collect_loop E worker actor corr n", OF Suc.prems Suc.IH, where lease = lease] by simp
    qed
  qed
qed (simp add: valid_ret)

lemma keeps_collect_dispatches:
  "valid (run_inv E H j) (collect_dispatches E worker actor corr)
     (\<lambda>ds s. run_inv E H j s \<and> dispatches_of j ds) (run_inv E H j)"
  unfolding collect_dispatches_def
  by (rule valid_bindS [where R = "\<lambda>_. run_inv E H j"], rule valid_gets, assumption)
    (simp add: keeps_collect_loop valid_ret)

subsection \<open>Records\<close>

lemma core_recorded:
  assumes "core_inv E H j s" "record_job_id r = j" "j_id (jh_job (f (rn_handle s))) = j"
    "jh_graph (f (rn_handle s)) = jh_graph (rn_handle s)"
    "\<And>e. mirrors (rn_handle s) e \<Longrightarrow> mirrors (f (rn_handle s)) (absorb r e)"
  shows "core_inv E H j (recorded E r f s)"
proof -
  have in_step: "journal_in_step H s" and id: "j_id (jh_job (rn_handle s)) = j"
    using assms(1) by (simp_all add: core_inv_def)
  have "journal_in_step H (recorded E r f s)"
    by (rule in_step_append [OF in_step, where r = r])
      (simp_all add: assms(2,3) id assms(5) del: absorb.simps)
  with assms(1,3,4) show ?thesis by (simp add: core_inv_def owned_def Let_def)
qed

lemma run_inv_recorded:
  assumes "run_inv E H j s" "record_job_id r = j" "j_id (jh_job (f (rn_handle s))) = j"
    "jh_graph (f (rn_handle s)) = jh_graph (rn_handle s)"
    "jh_results (f (rn_handle s)) = jh_results (rn_handle s)"
    "\<And>e. mirrors (rn_handle s) e \<Longrightarrow> mirrors (f (rn_handle s)) (absorb r e)"
  shows "run_inv E H j (recorded E r f s)"
proof -
  have "core_inv E H j s" "tallied s" using assms(1) by (simp_all add: run_inv_core)
  from core_recorded [where r = r and f = f, OF this(1) assms(2-4,6)] this(2) show ?thesis
    using assms(4,5) by (simp add: run_inv_core tallied_def)
qed

lemma keeps_set_status: "keeps (run_inv E H j) (set_status E dst reason)"
proof (rule keepsI)
  fix s assume inv: "run_inv E H j s"
  let ?job = "jh_job (rn_handle s)"
  show "run_inv E H j (fst (set_status E dst reason s))"
  proof (cases "transition job_machine (j_status ?job) dst")
    case (Inr st)
    obtain now w where now: "en_now E (sv_world (rn_sv s)) = (now, w)" by fastforce
    obtain later w' where later: "en_now E w = (later, w')" by fastforce
    let ?r = "JobStatusChanged (j_id ?job) st reason later"
    let ?f = "\<lambda>h. h\<lparr>jh_job := apply_status st reason now (jh_job h)\<rparr>"
    have "essence (fst (set_status E dst reason s)) = essence (recorded E ?r ?f s)"
      using Inr now later
      by (simp add: set_status_def bindS_def liftR_def utc_now_def thenS_def on_handle_def modify_def
          journal_record_state gets_def essence_def)
    moreover have "run_inv E H j (recorded E ?r ?f s)"
      using inv by (intro run_inv_recorded mirrors_status) (auto simp: run_inv_def apply_status_def)
    ultimately show ?thesis using run_inv_essence by blast
  qed (use inv in \<open>simp add: set_status_def bindS_def liftR_def gets_def\<close>)
qed

lemma keeps_recorded:
  assumes "keeps (run_inv E H j) k" "record_job_id r = j"
    "\<And>h. j_id (jh_job (f h)) = j_id (jh_job h)" "\<And>h. jh_graph (f h) = jh_graph h"
    "\<And>h. jh_results (f h) = jh_results h" "\<And>h e. mirrors h e \<Longrightarrow> mirrors (f h) (absorb r e)"
  shows "keeps (run_inv E H j) (thenS (journal_record E r) (thenS (on_handle f) k))"
proof (rule keepsI)
  fix s assume inv: "run_inv E H j s"
  then have "run_inv E H j (recorded E r f s)"
    using assms by (intro run_inv_recorded) (auto simp: run_inv_def)
  from keeps_fst [OF assms(1) this]
  show "run_inv E H j (fst (thenS (journal_record E r) (thenS (on_handle f) k) s))" by simp
qed

lemma keeps_fail_task:
  assumes "tn_job_id task = j" "failure_state \<noteq> TaskState.Completed"
  shows "keeps (run_inv E H j)
    (fail_task E task failure_state kind message retryable failures actor corr)"
proof -
  have nx: "(if retryable then TaskState.RetryScheduled else TaskState.DeadLettered) \<noteq> TaskState.Completed"
    by simp
  show ?thesis
    unfolding fail_task_def Let_def
    by (rule keeps_thenS [OF keeps_advance [OF assms(2)]],
        rule keeps_thenS [OF keeps_advance [OF nx]],
        rule keeps_bindS [OF keeps_quiet [OF quiet_basic(5)]], rule keeps_recorded)
      (use assms(1) in \<open>auto intro!: keeps_quiet quiet_intro mirrors_failure simp del: absorb.simps\<close>)
qed

subsection \<open>Outcomes\<close>

lemma keeps_complete_task:
  assumes res: "tr_task_id res = i" "tr_job_id res = j" and k: "quiet k"
  shows "keeps (run_inv E H j) (thenS (advance E i TaskState.Completed actor reason corr)
    (thenS (record_task_success E agent res w) k))"
proof (rule keepsI)
  fix s assume inv: "run_inv E H j s"
  obtain s1 r where adv: "advance E i TaskState.Completed actor reason corr s = (s1, r)" by fastforce
  let ?rec = "JournalRecord.TaskCompleted (tr_job_id res) res"
  let ?f = "\<lambda>h. h\<lparr>jh_results := jh_results h @ [res]\<rparr>"
  let ?m = "thenS (advance E i TaskState.Completed actor reason corr) (thenS (record_task_success E agent res w) k)"
  from advance_effect [OF adv] show "run_inv E H j (fst (?m s))"
  proof
    assume "\<exists>n. r = Inr () \<and> node_at s i = Some n \<and> TaskState.Completed \<in> set (task_allowed (tn_state n)) \<and>
      moved E s i (tn_attempt n) TaskState.Completed s1"
    then obtain n where n: "r = Inr ()" "node_at s i = Some n" "TaskState.Completed \<in> set (task_allowed (tn_state n))"
      "moved E s i (tn_attempt n) TaskState.Completed s1" by blast
    have core: "core_inv E H j s1" using core_moved [OF _ n(4)] inv by (simp add: run_inv_core)
    have "core_inv E H j (recorded E ?rec ?f s1)"
      by (rule core_recorded [OF core]) (use core in \<open>auto simp: res core_inv_def intro!: mirrors_result simp del: absorb.simps\<close>)
    moreover have "i \<notin> completed_in (jh_graph (rn_handle s))"
      using n(2) allowed_not_completed [OF n(3)] by (auto simp: completed_in_def node_at_def)
    moreover have "jh_results (rn_handle s1) = jh_results (rn_handle s)" using n(4) by (auto simp: moved_def essence_def)
    ultimately have inv2: "run_inv E H j (recorded E ?rec ?f s1)"
      using inv moved_completed_in [OF n(4)] by (simp add: run_inv_core tallied_def res)
    obtain s2 where s2: "record_task_success E agent res w s1 = (s2, Ok ())"
      "essence s2 = essence (recorded E ?rec ?f s1)" using record_success_state by blast
    have "fst (?m s) = fst (k s2)" using adv n(1) s2(1) by (simp add: thenS_def bindS_def)
    moreover have "essence (fst (k s2)) = essence s2" using k by (simp add: quiet_def)
    ultimately show ?thesis using inv2 s2(2) run_inv_essence by metis
  next
    assume a: "(\<forall>u. r \<noteq> Inr u) \<and> essence s1 = essence s \<and>
      (\<forall>n. node_at s i = Some n \<longrightarrow> TaskState.Completed \<notin> set (task_allowed (tn_state n)))"
    then obtain e where "r = Inl e" by (cases r) auto
    then have "fst (?m s) = s1" using adv by (simp add: thenS_def bindS_def)
    then show ?thesis using a inv run_inv_essence by metis
  qed
qed

lemma keeps_attempt_op: "keeps I m \<Longrightarrow> keeps I (attempt_op m)"
  by (rule keepsI) (use keeps_fst in \<open>fastforce simp: attempt_op_def split: prod.split\<close>)

lemma keeps_apply_outcome:
  assumes "answers d out" "tn_job_id (dp_task d) = j"
  shows "keeps (run_inv E H j) (apply_outcome E actor corr d out)"
proof -
  let ?task = "dp_task d"
  have fail: "keeps (run_inv E H j) (thenS (release_agent E agent ok l w)
      (fail_task E ?task st kind message retryable failures actor corr))"
    if "st \<noteq> TaskState.Completed" for agent ok l w st kind message retryable failures
    by (rule keeps_thenS [OF keeps_quiet [OF quiet_release_agent] keeps_fail_task [OF assms(2) that]])
  have reject: "keeps (run_inv E H j) (ignoring (queue_op E (\<lambda>now. reject now lid reason)))" for lid reason
    by (rule keeps_ignoring [OF keeps_queue_shrink [OF payloads_reject]])
  have ack: "keeps (run_inv E H j) (attempt_op (queue_op E (\<lambda>now. acknowledge now lid)))" for lid
    by (rule keeps_attempt_op [OF keeps_queue_shrink [OF payloads_acknowledge]])
  consider (ok) res where "out = Returned (Inr res)" "passed_validation res"
    | (bad) res where "out = Returned (Inr res)" "\<not> passed_validation res"
    | (err) e where "out = Returned (Inl e)" | (late) "out = Elapsed"
    by (cases out rule: outcome.exhaust) (metis sum.exhaust)+
  then show ?thesis
  proof cases
    case ok
    have complete: "keeps (run_inv E H j)
       (thenS (advance E (tn_id ?task) TaskState.Completed actor ''validated'' corr)
         (thenS (record_task_success E agent res w) (bindS (gets job_progress) (\<lambda>p.
           emit E JobEventKind.TaskCompleted (Some (tn_id ?task)) detail p))))" for agent w detail
      using assms ok(1) by (intro keeps_complete_task quiet_intro) simp_all
    show ?thesis
      unfolding apply_outcome_def Let_def ok(1)
      by (simp add: ok(2), rule keeps_bindS [OF ack]) (auto split: sum.split intro: complete fail)
  next
    case bad
    show ?thesis unfolding apply_outcome_def Let_def bad(1)
      by (simp add: bad(2), rule keeps_thenS [OF reject fail]) simp
  next
    case err
    show ?thesis unfolding apply_outcome_def Let_def err
      by (simp, rule keeps_thenS [OF reject fail]) simp
  next
    case late
    show ?thesis unfolding apply_outcome_def Let_def late
      by (simp, rule keeps_thenS [OF reject fail]) simp
  qed
qed

subsection \<open>The loop\<close>

lemma keeps_make_progress: "keeps (run_inv E H j) (make_progress_possible E actor corr)"
  unfolding make_progress_possible_def
  by (intro keeps_bindS [OF keeps_quiet [OF quiet_stats]] op_valid keeps_advance keeps_quiet quiet_emit) simp_all

lemma keeps_cancel_task: "keeps (run_inv E H j) (cancel_task E actor corr i)"
  unfolding cancel_task_def by (intro op_valid keeps_advance) simp_all

lemma keeps_purge: "keeps (run_inv E H j) (on_sv (\<lambda>sv. sv\<lparr>sv_queue := fst (purge_job i (sv_queue sv))\<rparr>))"
proof (rule keepsI)
  fix s assume "run_inv E H j s"
  then have "run_inv E H j (s\<lparr>rn_sv := (rn_sv s)\<lparr>sv_queue := fst (purge_job i (sv_queue (rn_sv s)))\<rparr>\<rparr>)"
    by (rule run_inv_queue) (use payloads_purge_job [of i "sv_queue (rn_sv s)"] in blast)
  then show "run_inv E H j (fst (on_sv (\<lambda>sv. sv\<lparr>sv_queue := fst (purge_job i (sv_queue sv))\<rparr>) s))"
    by (simp add: on_sv_def modify_def)
qed

lemma keeps_cancel_pending: "keeps (run_inv E H j) (cancel_pending E actor corr cancelled)"
  unfolding cancel_pending_def by (intro op_valid keeps_cancel_task keeps_purge) simp_all

lemma keeps_report:
  assumes "fr_job_id fr = j" "quiet k"
  shows "keeps (run_inv E H j) (thenS (set_status E st reason)
    (thenS (journal_record E (JournalRecord.JobFinished (fr_job_id fr) fr))
    (thenS (on_handle (\<lambda>h. h\<lparr>jh_final_result := Some fr\<rparr>)) k)))"
  by (rule keeps_thenS [OF keeps_set_status], rule keeps_recorded [OF keeps_quiet [OF assms(2)]])
    (auto simp: assms(1) intro: mirrors_finished simp del: absorb.simps)

lemma aggregate_job_id: "fr_job_id (aggregate ops job graph results st tally) = j_id job"
  by (simp add: aggregate_def Let_def)

lemma keeps_report_result: "keeps (run_inv E H j) (report E W cancelled spawned)"
  unfolding report_def Let_def
  by (rule keeps_bindS [OF keeps_quiet [OF quiet_basic(3)]],
      rule keeps_bindS [OF keeps_quiet [OF quiet_basic(7)]],
      rule keeps_thenS [OF keeps_quiet [OF quiet_agents(3)]],
      rule keeps_thenS, intro op_valid keeps_set_status, assumption,
      rule keeps_bind_gets, rule keeps_report)
    (auto simp: run_inv_def aggregate_job_id intro!: quiet_intro)

lemma keeps_finish: "keeps (run_inv E H j) (finish E W cancelled spawned actor corr)"
  unfolding finish_def by (rule keeps_thenS [OF keeps_cancel_pending keeps_report_result])

lemma valid_outcomes:
  assumes "honest_outcomes W"
  shows "valid (run_inv E H j) (ask (wo_outcomes W ds))
    (\<lambda>outs s. run_inv E H j s \<and> (\<forall>os. outs = Some os \<longrightarrow> list_all (\<lambda>(d, out). answers d out) (zip ds os)))
    (run_inv E H j)"
proof (rule validI)
  fix s s' x assume inv: "run_inv E H j s" and a: "ask (wo_outcomes W ds) s = (s', Inr x)"
  obtain w' where "wo_outcomes W ds (sv_world (rn_sv s)) = (x, w')"
    using a by (auto simp: ask_def split: prod.splits)
  with assms have "\<forall>os. x = Some os \<longrightarrow> list_all (\<lambda>(d, out). answers d out) (zip ds os)"
    unfolding honest_outcomes_def by blast
  with inv run_inv_essence [OF quietD [OF quiet_basic(7) a]]
  show "run_inv E H j s' \<and> (\<forall>os. x = Some os \<longrightarrow> list_all (\<lambda>(d, out). answers d out) (zip ds os))" by blast
next
  fix s s' e assume "run_inv E H j s" "ask (wo_outcomes W ds) s = (s', Inl e)"
  then show "run_inv E H j s'" using run_inv_essence [OF quietD [OF quiet_basic(7)]] by blast
qed

lemma keeps_apply_outcomes:
  assumes "dispatches_of j ds" "list_all (\<lambda>(d, out). answers d out) (zip ds os)"
  shows "keeps (run_inv E H j) (forS (zip ds os) (\<lambda>(d, out). apply_outcome E actor corr d out))"
proof (rule keeps_forS_mem)
  fix x assume x: "x \<in> set (zip ds os)"
  obtain d out where "x = (d, out)" by (cases x)
  with x assms have "answers d out" "tn_job_id (dp_task d) = j"
    by (auto simp: list_all_iff dest: set_zip_leftD)
  with \<open>x = (d, out)\<close> show "keeps (run_inv E H j) (case x of (d, out) \<Rightarrow> apply_outcome E actor corr d out)"
    using keeps_apply_outcome by simp
qed

lemma keeps_execute:
  assumes "honest_outcomes W" "dispatches_of j ds"
  shows "keeps (run_inv E H j) (bindS (ask (wo_outcomes W ds)) (\<lambda>outcomes.
     case outcomes of None \<Rightarrow> ret (Stop True)
     | Some outs \<Rightarrow> thenS (forS (zip ds outs) (\<lambda>(d, out). apply_outcome E actor corr d out))
         (bindS (gets (\<lambda>s. is_complete (jh_graph (rn_handle s)))) (\<lambda>complete.
           ret (if complete then Stop False else Continue False)))))"
proof (rule valid_bindS [OF valid_outcomes [OF assms(1)]])
  fix outs
  let ?k = "\<lambda>outcomes. case outcomes of None \<Rightarrow> ret (Stop True)
     | Some outs \<Rightarrow> thenS (forS (zip ds outs) (\<lambda>(d, out). apply_outcome E actor corr d out))
         (bindS (gets (\<lambda>s. is_complete (jh_graph (rn_handle s)))) (\<lambda>complete.
           ret (if complete then Stop False else Continue False)))"
  show "valid (\<lambda>s. run_inv E H j s \<and> (\<forall>os. outs = Some os \<longrightarrow> list_all (\<lambda>(d, out). answers d out) (zip ds os)))
    (?k outs) (\<lambda>_. run_inv E H j) (run_inv E H j)"
  proof (cases "\<exists>os. outs = Some os \<and> list_all (\<lambda>(d, out). answers d out) (zip ds os)")
    case True
    then obtain os where os: "outs = Some os" "list_all (\<lambda>(d, out). answers d out) (zip ds os)" by blast
    have "keeps (run_inv E H j) (?k (Some os))"
      by (simp, rule keeps_thenS [OF keeps_apply_outcomes [OF assms(2) os(2)]]) (intro op_valid, simp)
    with os show ?thesis by simp
  next
    case False
    then show ?thesis by (cases outs) (auto simp: valid_def ret_def)
  qed
qed

lemma keeps_schedule_tick:
  assumes "honest_outcomes W"
  shows "keeps (run_inv E H j) (schedule_tick E W max_agents actor corr)"
  unfolding schedule_tick_def
proof (rule keeps_bindS [OF keeps_promote_ready],
    rule keeps_thenS [OF keeps_queue_shrink [OF payloads_requeue_expired]],
    rule keeps_thenS [OF keeps_quiet [OF quiet_maintain_agent_pool]],
    rule valid_bindS [OF keeps_collect_dispatches])
  fix promoted ds
  let ?m = "if ds = [] then
         bindS (gets (\<lambda>s. is_complete (jh_graph (rn_handle s)))) (\<lambda>complete.
           if complete then ret (Stop False)
           else if promoted = 0 then
             bindS (make_progress_possible E actor corr) (\<lambda>possible.
               ret (if possible then Continue False else Stop False))
           else ret (Continue False))
       else
         bindS (ask (wo_outcomes W ds)) (\<lambda>outcomes.
           case outcomes of
             None \<Rightarrow> ret (Stop True)
           | Some outs \<Rightarrow>
               thenS (forS (zip ds outs) (\<lambda>(d, out). apply_outcome E actor corr d out))
               (bindS (gets (\<lambda>s. is_complete (jh_graph (rn_handle s)))) (\<lambda>complete.
                 ret (if complete then Stop False else Continue False))))"
  have "keeps (run_inv E H j) ?m" if "dispatches_of j ds"
    by (rule keeps_if, intro op_valid keeps_make_progress, simp_all, rule keeps_execute [OF assms that])
  then show "valid (\<lambda>s. run_inv E H j s \<and> dispatches_of j ds) ?m (\<lambda>_. run_inv E H j) (run_inv E H j)"
    by (cases "dispatches_of j ds") (auto intro: valid_conseq simp: valid_def)
qed

lemma keeps_tick:
  assumes "honest_outcomes W"
  shows "keeps (run_inv E H j) (tick E W max_agents actor corr paused)"
  unfolding tick_def
proof (rule keeps_bindS [OF keeps_quiet [OF quiet_observe_control]])
  fix c
  have ask: "keeps (run_inv E H j) (bindS (ask (wo_resume W)) (\<lambda>resumed. ret (if resumed then Continue True else Stop True)))"
    by (rule keeps_quiet) (intro quiet_intro)
  have late: "keeps (run_inv E H j) (bindS (past_deadline E) (\<lambda>late.
      if late then bindS (gets job_progress) (\<lambda>p.
        thenS (emit E JobEventKind.JobFinished None ''deadline exceeded'' p) (ret (Stop False)))
      else schedule_tick E W max_agents actor corr))"
    by (rule keeps_bindS [OF keeps_quiet [OF quiet_past_deadline]], rule keeps_if,
        rule keeps_quiet, (intro quiet_intro)[1], rule keeps_schedule_tick [OF assms])
  show "keeps (run_inv E H j) (case c of
         Control.Cancelled \<Rightarrow> ret (Stop True)
       | Control.Paused \<Rightarrow>
           thenS (if paused then ret () else set_status E JobStatus.Paused (Some ''operator paused''))
           (bindS (ask (wo_resume W)) (\<lambda>resumed. ret (if resumed then Continue True else Stop True)))
       | Control.Running \<Rightarrow>
           thenS (if paused then set_status E JobStatus.Running None else ret ())
           (bindS (past_deadline E) (\<lambda>late.
             if late then
               bindS (gets job_progress) (\<lambda>p.
                 thenS (emit E JobEventKind.JobFinished None ''deadline exceeded'' p) (ret (Stop False)))
             else schedule_tick E W max_agents actor corr)))"
    using ask late keeps_set_status by (cases c) (auto intro!: keeps_thenS valid_ret)
qed

lemma keeps_run_loop:
  assumes "honest_outcomes W"
  shows "keeps (run_inv E H j) (run_loop n E W max_agents actor corr paused)"
proof (induction n arbitrary: paused)
  case (Suc n)
  show ?case
    unfolding run_loop.simps
    by (rule keeps_bindS [OF keeps_tick [OF assms]]) (auto intro: Suc.IH valid_ret split: flow.split)
qed (simp add: valid_raise)

lemma keeps_run_job:
  assumes "honest_outcomes W"
  shows "keeps (run_inv E H j) (run_job E W)"
  unfolding run_job_def Let_def
  by (rule keeps_bindS [OF keeps_quiet [OF quiet_basic(3)]], rule keeps_if,
      rule keeps_quiet, (intro quiet_intro)[1], rule keeps_thenS [OF keeps_set_status],
      rule keeps_bindS [OF keeps_quiet [OF quiet_provision_agents]],
      rule keeps_bindS [OF keeps_run_loop [OF assms] keeps_finish])

end

end
