(* ===== verification/CrashRecovery.thy ===== *)
theory CrashRecovery
  imports EngineInvariant
begin

text \<open>
  The life of a job across crashes and restarts: submission, runs that may stop after any tick,
  restarts that rebuild the job from the journal, and other jobs that share queue and journal. In
  every state of such a life the journal describes the job, each completed task has exactly one
  result, and a restart resumes the job with everything it had achieved.
\<close>

section \<open>Recovery, job by job\<close>

lemma recover_jobs_effect:
  assumes "keys_distinct es" "recover_jobs pg b es jobs n = (jobs', n')"
  shows "n' = n + length (filter (\<lambda>(j, e). \<exists>h. build_handle pg b e = Ok h) es) \<and>
    (\<forall>j. map_of jobs' j =
       (case map_of es j of None \<Rightarrow> map_of jobs j
        | Some e \<Rightarrow> (case build_handle pg b e of Inr h \<Rightarrow> Some h | Inl _ \<Rightarrow> map_of jobs j)))"
  using assms
proof (induction es arbitrary: jobs n)
  case (Cons a es)
  obtain i e where a: "a = (i, e)" by (cases a)
  have free: "map_of es i = None" using Cons.prems(1) a by (auto simp: map_of_eq_None_iff)
  show ?case
  proof (cases "build_handle pg b e")
    case (Inr h)
    with Cons.IH [of "AList.update i h jobs" "n + 1"] Cons.prems a free show ?thesis
      by (auto split: option.split sum.split)
  next
    case (Inl err)
    with Cons.IH [of jobs n] Cons.prems a free show ?thesis by (auto split: option.split)
  qed
qed simp

lemma apply_records_distinct: "keys_distinct (fold apply_record rs [])"
proof -
  have "keys_distinct (fold apply_record rs m)" if "keys_distinct m" for m
    using that by (induction rs arbitrary: m) (simp_all add: apply_record_def Let_def distinct_update)
  then show ?thesis by simp
qed

lemma recover_effect:
  assumes "en_replay E (sv_journal (co_sv c)) = Ok rs" "recover E c = (c', r)"
  shows "\<exists>k. r = Ok k \<and> co_sv c' = co_sv c \<and>
    k = length (filter (\<lambda>(j, e). \<exists>h. build_handle (en_pg E) (cc_event_buffer (en_config E)) e = Ok h)
      (fold apply_record rs [])) \<and>
    (\<forall>j. map_of (co_jobs c') j =
      (if \<exists>r \<in> set rs. record_job_id r = j
       then case build_handle (en_pg E) (cc_event_buffer (en_config E)) (job_view rs j) of
              Inr h \<Rightarrow> Some h | Inl _ \<Rightarrow> map_of (co_jobs c) j
       else map_of (co_jobs c) j))"
proof (cases "rs = []")
  case False
  obtain jobs k where rj: "recover_jobs (en_pg E) (cc_event_buffer (en_config E)) (fold apply_record rs [])
      (co_jobs c) 0 = (jobs, k)" by fastforce
  from recover_jobs_effect [OF apply_records_distinct rj] assms False rj show ?thesis
    by (auto simp: recover_def apply_records_lookup)
qed (use assms in \<open>auto simp: recover_def\<close>)

section \<open>Submission establishes the invariant\<close>

definition task_total :: "JobRequest \<Rightarrow> nat" where
  "task_total request =
     (let plan = job_plan (new_job 0 0 0 request) in stage_start plan (length plan))"

text \<open>
  What the random identifiers drawn by \<open>submit\<close> must be: the task identifiers differ, the job's is
  not in the journal, and no task already in the queue has one of them.
\<close>

definition fresh_ids ::
  "('v, 'g, 'j, 'w) Env \<Rightarrow> ('j \<Rightarrow> 'v JournalRecord list \<Rightarrow> bool) \<Rightarrow> JobRequest \<Rightarrow>
   ('v, 'g, 'j, 'w) Coordinator \<Rightarrow> bool" where
  "fresh_ids E H request c \<longleftrightarrow>
     (let (job_id, w1) = en_uuid E (sv_world (co_sv c));
          w3 = snd (en_now E (snd (en_uuid E w1)));
          ids = nth_uuid (en_uuid E) w3
      in inj_on ids {..<task_total request} \<and>
         (\<exists>rs. H (sv_journal (co_sv c)) rs \<and> (\<forall>r \<in> set rs. record_job_id r \<noteq> job_id)) \<and>
         (\<forall>v \<in> payloads (sv_queue (co_sv c)). \<forall>t. en_from_value E v = Inr t \<longrightarrow>
            tn_id t \<notin> ids ` {..<task_total request}))"

lemma job_task_ids:
  assumes "t \<in> set (job_tasks lower disp ids job)"
  shows "tn_id t \<in> ids ` {..<stage_start (job_plan job) (length (job_plan job))}" "tn_job_id t = j_id job"
    "tn_state t = TaskState.Created"
proof -
  let ?plan = "job_plan job"
  from assms obtain k s where k: "k < length ?plan" "s < st_fanout (?plan ! k)"
    "tn_id t = ids (stage_start ?plan k + s)" "tn_job_id t = j_id job" "tn_state t = TaskState.Created"
    unfolding job_tasks_def planned_def planned_stage_def by auto
  have "stage_start ?plan k + s < stage_start ?plan (Suc k)" using k stage_start_Suc by simp
  also have "\<dots> \<le> stage_start ?plan (length ?plan)" using k(1) by (intro stage_start_mono) simp
  finally show "tn_id t \<in> ids ` {..<stage_start ?plan (length ?plan)}" using k(3) by auto
  show "tn_job_id t = j_id job" "tn_state t = TaskState.Created" using k by simp_all
qed

lemma graph_nodes_list:
  assumes "graph_inv pg g"
  shows "tg_nodes g = map (\<lambda>t. (tn_id t, t)) (hm_values (tg_nodes g))"
proof -
  have "tn_id t = i" if "(i, t) \<in> set (tg_nodes g)" for i t
    using that graph_invD(1,5) [OF assms] by (metis map_of_is_SomeI)
  then show ?thesis by (auto simp: comp_def intro!: map_idI [symmetric])
qed

lemma planned_mirrors:
  assumes "petgraph_laws pg" "graph_inv pg graph" "list_all (\<lambda>t. tn_state t = TaskState.Created) (hm_values (tg_nodes graph))"
    "\<forall>r \<in> set rs. record_job_id r \<noteq> j_id job"
  shows "mirrors (new_job_handle job graph b)
    (job_view (rs @ [JournalRecord.JobPlanned job (hm_values (tg_nodes graph))]) (j_id job))"
proof -
  define ts where "ts = hm_values (tg_nodes graph)"
  let ?e = "default_recovering\<lparr>rc_job := Some job, rc_tasks := ts\<rparr>"
  have "job_view rs (j_id job) = default_recovering" using assms(4) by (simp add: job_view_def filter_False)
  then have view: "job_view (rs @ [JournalRecord.JobPlanned job ts]) (j_id job) = ?e"
    by (simp add: job_view_snoc)
  have nodes: "tg_nodes graph = map (\<lambda>t. (tn_id t, t)) ts" unfolding ts_def by (rule graph_nodes_list [OF assms(2)])
  then have "holds_tasks pg ts graph" using assms(2) by (simp add: holds_tasks_def)
  then have "well_founded_tasks ts" by (rule petgraph_laws.holds_tasks_well_founded [OF assms(1)])
  then show ?thesis
    unfolding ts_def [symmetric] view mirrors_def using assms(3) nodes
    by (simp add: new_job_handle_def default_recovering_def same_job_def journalled_def list_all_iff)
qed

lemma announce_quiet: "quiet (announce E)"
  unfolding announce_def by (intro quiet_intro)

lemma submit_Ok:
  fixes E :: "('v, 'g, 'j, 'w) Env"
  assumes "submit E request c = (c1, Inr job_id)"
  obtains w1 corr w2 now w3 job graph and s :: "('v, 'g, 'j, 'w) Run" where
    "en_uuid E (sv_world (co_sv c)) = (job_id, w1)" "en_uuid E w1 = (corr, w2)" "en_now E w2 = (now, w3)"
    "plan_job E (new_job job_id corr now request) = Inr job"
    "decompose (en_lower E) (en_disp E) (nth_uuid (en_uuid E) w3) (en_pg E) job = Inr graph"
    "essence s = (fst (en_append E (JournalRecord.JobPlanned job (hm_values (tg_nodes graph)))
        (sv_journal (co_sv c))), sv_queue (co_sv c), job, graph, [], [], [], None)"
    "find_handle job_id c1 = Ok (rn_handle s)" "co_sv c1 = rn_sv s"
    "jh_agents (rn_handle s) = []" "sv_cluster_agents (rn_sv s) = sv_cluster_agents (co_sv c)"
proof -
  obtain i w1 where u1: "en_uuid E (sv_world (co_sv c)) = (i, w1)" by fastforce
  obtain corr w2 where u2: "en_uuid E w1 = (corr, w2)" by fastforce
  obtain now w3 where n: "en_now E w2 = (now, w3)" by fastforce
  from assms obtain job where job: "plan_job E (new_job i corr now request) = Inr job"
    by (auto simp: submit_def u1 u2 n Let_def split: sum.splits)
  from assms obtain graph where
    g: "decompose (en_lower E) (en_disp E) (nth_uuid (en_uuid E) w3) (en_pg E) job = Inr graph"
    by (auto simp: submit_def u1 u2 n job Let_def split: sum.splits)
  obtain jnl appended where app: "en_append E (JournalRecord.JobPlanned job (hm_values (tg_nodes graph)))
      (sv_journal (co_sv c)) = (jnl, appended)" by fastforce
  let ?sv = "(co_sv c)\<lparr>sv_world := draw_uuids (en_uuid E) (graph_len graph) w3, sv_journal := jnl\<rparr>"
  let ?s0 = "\<lparr>rn_handle = new_job_handle job graph (cc_event_buffer (en_config E)), rn_sv = ?sv\<rparr>"
  obtain s r where s: "announce E ?s0 = (s, r)" by fastforce
  have c1: "i = job_id" "co_sv c1 = rn_sv s" "co_jobs c1 = AList.update job_id (rn_handle s) (co_jobs c)"
    using assms s app by (auto simp: submit_def u1 u2 n job g Let_def bindR_eq_Inr_iff split: sum.splits)
  have "essence s = essence ?s0" by (rule quietD [OF announce_quiet s])
  moreover have "jh_agents (rn_handle s) = []" "sv_cluster_agents (rn_sv s) = sv_cluster_agents (co_sv c)"
    using s by (auto simp: announce_def emit_def thenS_def bindS_def gets_def utc_now_def on_handle_def
        modify_def new_job_handle_def split: prod.splits)
  ultimately show ?thesis
    using that [of w1 corr w2 now w3 job graph s] u1 u2 n job g c1 app
    by (simp add: essence_def new_job_handle_def find_handle_def)
qed

text \<open>What an accepted submission leaves behind: the planned job, its graph and a handle over them.\<close>

lemma submit_planned:
  fixes E :: "('v, 'g, 'j, 'w) Env"
  assumes pg: "petgraph_laws (en_pg E)" and ids: "fresh_ids E H request c"
    and sub: "submit E request c = (c1, Ok job_id)"
  obtains rs fresh job graph and s :: "('v, 'g, 'j, 'w) Run" where
    "j_id job = job_id" "j_request job = request" "j_status job = JobStatus.Planning"
    "stage_start (job_plan job) (length (job_plan job)) = task_total request"
    "graph_inv (en_pg E) graph" "tg_job_id graph = job_id"
    "hm_values (tg_nodes graph) = job_tasks (en_lower E) (en_disp E) fresh job"
    "H (sv_journal (co_sv c)) rs" "\<forall>r \<in> set rs. record_job_id r \<noteq> job_id"
    "\<forall>v \<in> payloads (sv_queue (co_sv c)). \<forall>t. en_from_value E v = Inr t \<longrightarrow> tn_id t \<notin> fresh ` {..<task_total request}"
    "essence s = (fst (en_append E (JournalRecord.JobPlanned job (hm_values (tg_nodes graph)))
        (sv_journal (co_sv c))), sv_queue (co_sv c), job, graph, [], [], [], None)"
    "find_handle job_id c1 = Ok (rn_handle s)" "co_sv c1 = rn_sv s" "jh_agents (rn_handle s) = []"
    "sv_cluster_agents (rn_sv s) = sv_cluster_agents (co_sv c)"
proof -
  from sub obtain w1 corr w2 now w3 job graph and s :: "('v, 'g, 'j, 'w) Run" where
    u: "en_uuid E (sv_world (co_sv c)) = (job_id, w1)" "en_uuid E w1 = (corr, w2)" "en_now E w2 = (now, w3)"
    and job: "plan_job E (new_job job_id corr now request) = Inr job"
    and g: "decompose (en_lower E) (en_disp E) (nth_uuid (en_uuid E) w3) (en_pg E) job = Inr graph"
    and ess: "essence s = (fst (en_append E (JournalRecord.JobPlanned job (hm_values (tg_nodes graph)))
        (sv_journal (co_sv c))), sv_queue (co_sv c), job, graph, [], [], [], None)"
    and c1: "find_handle job_id c1 = Ok (rn_handle s)" "co_sv c1 = rn_sv s" "jh_agents (rn_handle s) = []"
      "sv_cluster_agents (rn_sv s) = sv_cluster_agents (co_sv c)"
    by (rule submit_Ok)
  let ?ids = "nth_uuid (en_uuid E) w3"
  have id: "j_id job = job_id" "j_request job = request" "j_status job = JobStatus.Planning"
    using job by (auto simp: plan_job_def new_job_def bindR_eq_Inr_iff transition_def split: if_splits)
  have total: "stage_start (job_plan job) (length (job_plan job)) = task_total request"
    by (simp add: task_total_def job_plan_def id(2) new_job_def Let_def)
  from ids u obtain rs where inj: "inj_on ?ids {..<task_total request}"
    and rs: "H (sv_journal (co_sv c)) rs" "\<forall>r \<in> set rs. record_job_id r \<noteq> job_id"
    and queue: "\<forall>v \<in> payloads (sv_queue (co_sv c)). \<forall>t. en_from_value E v = Inr t \<longrightarrow>
        tn_id t \<notin> ?ids ` {..<task_total request}"
    by (auto simp: fresh_ids_def Let_def)
  from decompose_tasks [OF pg, of ?ids job "en_lower E" "en_disp E"] inj total g have
    "graph_inv (en_pg E) graph" "tg_job_id graph = job_id"
      "hm_values (tg_nodes graph) = job_tasks (en_lower E) (en_disp E) ?ids job" by (auto simp: id)
  from that [OF id total this rs queue ess c1] show ?thesis .
qed

lemma submit_run_inv:
  fixes E :: "('v, 'g, 'j, 'w) Env"
  assumes env: "engine_env E H" and pg: "petgraph_laws (en_pg E)" and ids: "fresh_ids E H request c"
    and sub: "submit E request c = (c1, Ok job_id)"
  shows "\<exists>h. find_handle job_id c1 = Ok h \<and> run_inv E H job_id \<lparr>rn_handle = h, rn_sv = co_sv c1\<rparr> \<and>
    jh_agents h = []"
proof -
  from pg ids sub obtain rs fresh job graph and s :: "('v, 'g, 'j, 'w) Run" where
    id: "j_id job = job_id" "j_request job = request" "j_status job = JobStatus.Planning"
    and total: "stage_start (job_plan job) (length (job_plan job)) = task_total request"
    and gi: "graph_inv (en_pg E) graph" "tg_job_id graph = job_id"
      "hm_values (tg_nodes graph) = job_tasks (en_lower E) (en_disp E) fresh job"
    and rs: "H (sv_journal (co_sv c)) rs" "\<forall>r \<in> set rs. record_job_id r \<noteq> job_id"
    and queue: "\<forall>v \<in> payloads (sv_queue (co_sv c)). \<forall>t. en_from_value E v = Inr t \<longrightarrow>
      tn_id t \<notin> fresh ` {..<task_total request}"
    and ess: "essence s = (fst (en_append E (JournalRecord.JobPlanned job (hm_values (tg_nodes graph)))
        (sv_journal (co_sv c))), sv_queue (co_sv c), job, graph, [], [], [], None)"
    and c1: "find_handle job_id c1 = Ok (rn_handle s)" "co_sv c1 = rn_sv s" "jh_agents (rn_handle s) = []"
      "sv_cluster_agents (rn_sv s) = sv_cluster_agents (co_sv c)"
    by (rule submit_planned)
  have node: "tn_id t = i \<and> tn_job_id t = job_id \<and> tn_state t = TaskState.Created \<and>
      i \<in> fresh ` {..<task_total request}" if "map_of (tg_nodes graph) i = Some t" for i t
  proof -
    have "t \<in> set (hm_values (tg_nodes graph))" using map_of_SomeD [OF that] by force
    from job_task_ids [OF this [unfolded gi(3)]] graph_invD(5) [OF gi(1) that] show ?thesis
      by (simp add: total id)
  qed
  have "list_all (\<lambda>t. tn_state t = TaskState.Created) (hm_values (tg_nodes graph))"
    using job_task_ids(3) by (auto simp: list_all_iff gi(3))
  from planned_mirrors [OF pg gi(1) this, of rs job "cc_event_buffer (en_config E)"] rs(2)
  have mir: "mirrors (new_job_handle job graph (cc_event_buffer (en_config E)))
      (job_view (rs @ [JournalRecord.JobPlanned job (hm_values (tg_nodes graph))]) job_id)" by (simp add: id)
  note e = ess [unfolded essence_def, simplified]
  have "journal_in_step H s"
  proof (rule in_stepI)
    show "H (sv_journal (rn_sv s)) (rs @ [JournalRecord.JobPlanned job (hm_values (tg_nodes graph))])"
      using reliable_journal.append_holds [OF engine_env.axioms(1) [OF env] rs(1)] e by simp
    show "mirrors (rn_handle s) (job_view (rs @ [JournalRecord.JobPlanned job (hm_values (tg_nodes graph))])
        (j_id (jh_job (rn_handle s))))"
      using mir mirrors_cong [of "rn_handle s" "new_job_handle job graph (cc_event_buffer (en_config E))"] e
      by (simp add: id new_job_handle_def)
  qed
  moreover have "owned E s"
    using node queue gi(2) e id by (fastforce simp: owned_def Let_def)
  moreover have "tallied s" using node e by (auto simp: tallied_def completed_in_def)
  ultimately have "run_inv E H job_id s" using gi(1) e id by (simp add: run_inv_def)
  then have "run_inv E H job_id \<lparr>rn_handle = rn_handle s, rn_sv = co_sv c1\<rparr>"
    unfolding c1(2) by (cases s) simp
  then show ?thesis using c1(1,3) by blast
qed

lemma length_job_tasks:
  "length (job_tasks lower disp ids job) = stage_start (job_plan job) (length (job_plan job))"
proof -
  have "map (\<lambda>k. st_fanout (job_plan job ! k)) [0..<length (job_plan job)] = map st_fanout (job_plan job)"
    by (rule nth_equalityI) simp_all
  then show ?thesis
    by (simp add: job_tasks_def planned_def planned_stage_def length_concat comp_def stage_start_def)
qed

lemma task_total_pos: "0 < task_total request"
proof -
  let ?plan = "job_plan (new_job 0 0 0 request)"
  have plan: "?plan \<noteq> []" unfolding job_plan_def by (rule stages_nonempty)
  then have "?plan ! 0 \<in> set ?plan" by simp
  from stages_fanout(1) [OF this [unfolded job_plan_def]] have "0 < st_fanout (?plan ! 0)"
    by (simp add: job_plan_def)
  with plan stage_start_Suc [of 0 ?plan] stage_start_mono [of 1 "length ?plan" ?plan] show ?thesis
    by (simp add: task_total_def Let_def Suc_leI)
qed

lemma submit_start:
  fixes E :: "('v, 'g, 'j, 'w) Env"
  assumes pg: "petgraph_laws (en_pg E)" and ids: "fresh_ids E H request c"
    and sub: "submit E request c = (c1, Ok job_id)"
  shows "\<exists>h. find_handle job_id c1 = Ok h \<and> jh_agents h = [] \<and> j_status (jh_job h) = JobStatus.Planning \<and>
    j_request (jh_job h) = request \<and> graph_inv (en_pg E) (jh_graph h) \<and>
    length (tg_nodes (jh_graph h)) = task_total request \<and> tg_nodes (jh_graph h) \<noteq> [] \<and>
    (\<forall>i n. map_of (tg_nodes (jh_graph h)) i = Some n \<longrightarrow> tn_state n = TaskState.Created) \<and>
    sv_cluster_agents (co_sv c1) = sv_cluster_agents (co_sv c)"
proof -
  from pg ids sub obtain rs fresh job graph and s :: "('v, 'g, 'j, 'w) Run" where
    id: "j_id job = job_id" "j_request job = request" "j_status job = JobStatus.Planning"
    and total: "stage_start (job_plan job) (length (job_plan job)) = task_total request"
    and gi: "graph_inv (en_pg E) graph" "tg_job_id graph = job_id"
      "hm_values (tg_nodes graph) = job_tasks (en_lower E) (en_disp E) fresh job"
    and "H (sv_journal (co_sv c)) rs" "\<forall>r \<in> set rs. record_job_id r \<noteq> job_id"
      "\<forall>v \<in> payloads (sv_queue (co_sv c)). \<forall>t. en_from_value E v = Inr t \<longrightarrow>
        tn_id t \<notin> fresh ` {..<task_total request}"
    and ess: "essence s = (fst (en_append E (JournalRecord.JobPlanned job (hm_values (tg_nodes graph)))
        (sv_journal (co_sv c))), sv_queue (co_sv c), job, graph, [], [], [], None)"
    and c1: "find_handle job_id c1 = Ok (rn_handle s)" "co_sv c1 = rn_sv s" "jh_agents (rn_handle s) = []"
      "sv_cluster_agents (rn_sv s) = sv_cluster_agents (co_sv c)"
    by (rule submit_planned)
  have len: "length (tg_nodes graph) = task_total request"
    using arg_cong [OF gi(3), of length] by (simp add: length_job_tasks total)
  then have "tg_nodes graph \<noteq> []" using task_total_pos [of request] by auto
  moreover have "tn_state n = TaskState.Created" if "map_of (tg_nodes graph) i = Some n" for i n
  proof -
    have "n \<in> set (hm_values (tg_nodes graph))" using map_of_SomeD [OF that] by force
    from job_task_ids(3) [OF this [unfolded gi(3)]] show ?thesis .
  qed
  ultimately show ?thesis
    using c1 gi(1) id len ess [unfolded essence_def, simplified] by auto
qed

section \<open>Restarting\<close>

lemma reset_completed:
  "tn_state (reset_node n) = TaskState.Completed \<longleftrightarrow> tn_state n = TaskState.Completed"
  by (auto simp: reset_node_def reset_state_def state_is_terminal_def)

lemma resumes_completed_in:
  "resumes h h' \<Longrightarrow> completed_in (jh_graph h') = completed_in (jh_graph h)"
  by (auto simp: completed_in_def resumes_def reset_completed)

lemma restart_run_inv:
  assumes env: "engine_env E H" and pg: "petgraph_laws (en_pg E)" and inv: "run_inv E H j s"
    and rec: "recover E c = (c', r)" "sv_journal (co_sv c) = sv_journal (rn_sv s)"
      "payloads (sv_queue (co_sv c)) = {}"
  shows "\<exists>k h. r = Ok k \<and> find_handle j c' = Ok h \<and> resumes (rn_handle s) h \<and>
    run_inv E H j \<lparr>rn_handle = h, rn_sv = co_sv c'\<rparr>"
proof -
  from inv obtain rs where rs: "H (sv_journal (rn_sv s)) rs" "mirrors (rn_handle s) (job_view rs j)"
    and id: "j_id (jh_job (rn_handle s)) = j" unfolding run_inv_def journal_in_step_def by metis
  have "en_replay E (sv_journal (co_sv c)) = Ok rs"
    using reliable_journal.replay_holds [OF engine_env.axioms(1) [OF env] rs(1)] rec(2) by simp
  from recover_effect [OF this rec(1)] obtain k where
    k: "r = Ok k" "co_sv c' = co_sv c" "map_of (co_jobs c') j =
      (if \<exists>r \<in> set rs. record_job_id r = j
       then case build_handle (en_pg E) (cc_event_buffer (en_config E)) (job_view rs j) of
              Inr h \<Rightarrow> Some h | Inl _ \<Rightarrow> map_of (co_jobs c) j
       else map_of (co_jobs c) j)" by blast
  from build_mirrors [OF pg rs(2), of "cc_event_buffer (en_config E)"] obtain h where
    h: "build_handle (en_pg E) (cc_event_buffer (en_config E)) (job_view rs j) = Ok h"
      "resumes (rn_handle s) h" "mirrors h (job_view rs j)" "graph_inv (en_pg E) (jh_graph h)"
      "tg_job_id (jh_graph h) = j" using id by metis
  have "\<exists>r \<in> set rs. record_job_id r = j"
  proof (rule ccontr)
    assume "\<not> (\<exists>r \<in> set rs. record_job_id r = j)"
    then have "job_view rs j = default_recovering" by (simp add: job_view_def filter_False)
    with rs(2) show False by (simp add: mirrors_def default_recovering_def)
  qed
  with k(3) h(1) have "find_handle j c' = Ok h" by (simp add: find_handle_def)
  moreover have hid: "j_id (jh_job h) = j" using h(2) id by (simp add: resumes_def)
  let ?s = "\<lparr>rn_handle = h, rn_sv = co_sv c'\<rparr>"
  have "journal_in_step H ?s" by (rule in_stepI) (use rs(1) h(3) hid k(2) rec(2) in simp_all)
  moreover have "owned E ?s"
  proof -
    have "tn_job_id n = j" if "map_of (tg_nodes (jh_graph h)) i = Some n" for i n
      using that h(2) inv by (fastforce simp: resumes_def run_inv_def owned_def Let_def reset_node_def)
    then show ?thesis using h(5) hid k(2) rec(3) by (simp add: owned_def)
  qed
  moreover have "tallied ?s"
    using inv h(2) resumes_completed_in [OF h(2)] by (simp add: run_inv_def tallied_def resumes_def)
  ultimately show ?thesis using k(1) h(2,4) hid by (simp add: run_inv_def)
qed

section \<open>The life of a job\<close>

text \<open>A run that the process abandons after \<open>n\<close> ticks is a run with a budget of \<open>n\<close> ticks.\<close>

definition with_ticks :: "u64 \<Rightarrow> ('v, 'g, 'j, 'w) Env \<Rightarrow> ('v, 'g, 'j, 'w) Env" where
  "with_ticks n E = E\<lparr>en_config := (en_config E)\<lparr>cc_max_ticks := n\<rparr>\<rparr>"

text \<open>
  What may happen to a job between two observations: a run, possibly abandoned after any tick; a
  restart, which rebuilds the job from the journal in a new process; and the other jobs of the
  coordinator, which append their own records and put their own tasks in the queue.
\<close>

inductive life_step ::
  "('v, 'g, 'j, 'w) Env \<Rightarrow> ('j \<Rightarrow> 'v JournalRecord list \<Rightarrow> bool) \<Rightarrow> ('v, 'w) World \<Rightarrow> JobId \<Rightarrow>
   ('v, 'g, 'j, 'w) Run \<Rightarrow> ('v, 'g, 'j, 'w) Run \<Rightarrow> bool"
  for E H W j
where
  runs: "run_job (with_ticks n E) W s = (s', r) \<Longrightarrow> life_step E H W j s s'"
| restarts: "recover E (new_coordinator E (sv_journal (rn_sv s)) w) = (c, r) \<Longrightarrow>
    find_handle j c = Ok h \<Longrightarrow> life_step E H W j s \<lparr>rn_handle = h, rn_sv = co_sv c\<rparr>"
| others: "(\<And>rs. H (sv_journal (rn_sv s)) rs \<Longrightarrow>
      \<exists>new. H (sv_journal sv) (rs @ new) \<and> (\<forall>r \<in> set new. record_job_id r \<noteq> j)) \<Longrightarrow>
    (\<And>v t. v \<in> payloads (sv_queue sv) \<Longrightarrow> v \<notin> payloads (sv_queue (rn_sv s)) \<Longrightarrow>
      en_from_value E v = Inr t \<Longrightarrow> map_of (tg_nodes (jh_graph (rn_handle s))) (tn_id t) = None) \<Longrightarrow>
    life_step E H W j s (s\<lparr>rn_sv := sv\<rparr>)"

inductive life ::
  "('v, 'g, 'j, 'w) Env \<Rightarrow> ('j \<Rightarrow> 'v JournalRecord list \<Rightarrow> bool) \<Rightarrow> ('v, 'w) World \<Rightarrow> JobId \<Rightarrow>
   ('v, 'g, 'j, 'w) Run \<Rightarrow> bool"
  for E H W j
where
  submitted: "fresh_ids E H request c \<Longrightarrow> submit E request c = (c', Ok j) \<Longrightarrow> find_handle j c' = Ok h \<Longrightarrow>
    life E H W j \<lparr>rn_handle = h, rn_sv = co_sv c'\<rparr>"
| goes_on: "life E H W j s \<Longrightarrow> life_step E H W j s s' \<Longrightarrow> life E H W j s'"

lemma with_ticks_env: "engine_env E H \<Longrightarrow> engine_env (with_ticks n E) H"
  by (simp add: engine_env_def engine_env_axioms_def with_ticks_def)

lemma with_ticks_inv: "run_inv (with_ticks n E) H j s = run_inv E H j s"
  by (simp add: run_inv_def owned_def with_ticks_def)

lemma life_step_inv:
  assumes env: "engine_env E H" and pg: "petgraph_laws (en_pg E)" and W: "honest_outcomes W"
    and "life_step E H W j s s'" "run_inv E H j s"
  shows "run_inv E H j s'"
  using assms(4,5)
proof (cases rule: life_step.cases)
  case (runs n r)
  have "keeps (run_inv (with_ticks n E) H j) (run_job (with_ticks n E) W)"
    by (rule engine_env.keeps_run_job [OF with_ticks_env [OF env] W])
  from keeps_fst [OF this, of s] runs assms(5) show ?thesis by (simp add: with_ticks_inv)
next
  case (restarts w c r h)
  from restart_run_inv [OF env pg assms(5) restarts(2)] restarts(1,3) show ?thesis
    by (auto simp: new_coordinator_def payloads_def new_queue_def)
next
  case (others sv)
  from assms(5) obtain rs where rs: "H (sv_journal (rn_sv s)) rs"
    "mirrors (rn_handle s) (job_view rs (j_id (jh_job (rn_handle s))))" and id: "j_id (jh_job (rn_handle s)) = j"
    unfolding run_inv_def journal_in_step_def by blast
  from others(2) [OF rs(1)] obtain new where new: "H (sv_journal sv) (rs @ new)"
    "\<forall>r \<in> set new. record_job_id r \<noteq> j" by blast
  have "job_view (rs @ new) j = job_view rs j" using new(2) by (simp add: job_view_def filter_False)
  then have "journal_in_step H (s\<lparr>rn_sv := sv\<rparr>)"
    using new(1) rs(2) id by (intro in_stepI [where rs = "rs @ new"]) simp_all
  moreover have "owned E (s\<lparr>rn_sv := sv\<rparr>)"
    using assms(5) others(3) unfolding run_inv_def owned_def Let_def by fastforce
  ultimately show ?thesis
    unfolding others(1) using assms(5) by (simp add: run_inv_def tallied_def)
qed

lemma life_inv:
  assumes "engine_env E H" "petgraph_laws (en_pg E)" "honest_outcomes W" "life E H W j s"
  shows "run_inv E H j s"
  using assms(4)
proof (induction rule: life.induct)
  case (submitted request c c' h)
  from submit_run_inv [OF assms(1,2) submitted(1,2)] submitted(3) show ?case by auto
next
  case (goes_on s s')
  then show ?case using life_step_inv [OF assms(1-3)] by blast
qed

text \<open>The journal only grows, so what a job has reported stays reported.\<close>

definition grown_from :: "('j \<Rightarrow> 'r list \<Rightarrow> bool) \<Rightarrow> 'r list \<Rightarrow> 'j \<Rightarrow> 'r list \<Rightarrow> bool" where
  "grown_from H rs0 jnl rs \<longleftrightarrow> H jnl rs \<and> prefix rs0 rs"

lemma grown_env: "engine_env E H \<Longrightarrow> engine_env E (grown_from H rs0)"
  by (auto simp: engine_env_def engine_env_axioms_def reliable_journal_def grown_from_def)

lemma grown_step: "life_step E H W j s s' \<Longrightarrow> life_step E (grown_from H rs0) W j s s'"
proof (induction rule: life_step.induct)
  case (others s sv)
  show ?case
  proof (rule life_step.others [OF _ others(2)])
    fix rs assume "grown_from H rs0 (sv_journal (rn_sv s)) rs"
    with others(1) [of rs]
    show "\<exists>new. grown_from H rs0 (sv_journal sv) (rs @ new) \<and> (\<forall>r \<in> set new. record_job_id r \<noteq> j)"
      by (auto simp: grown_from_def)
  qed
qed (auto intro: life_step.intros)

lemma absorb_grows:
  "prefix (rc_results e) (rc_results (absorb r e)) \<and> prefix (rc_failures e) (rc_failures (absorb r e)) \<and>
   prefix (rc_transitions e) (rc_transitions (absorb r e))"
  by (cases r) simp_all

lemma absorbs_grow:
  "prefix (rc_results e) (rc_results (fold absorb qs e)) \<and>
   prefix (rc_failures e) (rc_failures (fold absorb qs e)) \<and>
   prefix (rc_transitions e) (rc_transitions (fold absorb qs e))"
proof (induction qs arbitrary: e)
  case (Cons q qs)
  from Cons.IH [of "absorb q e"] absorb_grows [of e q] show ?case
    by (auto simp del: absorb.simps intro: prefix_order.trans)
qed simp

lemma job_view_grows:
  assumes "prefix rs0 rs"
  shows "prefix (rc_results (job_view rs0 j)) (rc_results (job_view rs j))"
    "prefix (rc_failures (job_view rs0 j)) (rc_failures (job_view rs j))"
    "prefix (rc_transitions (job_view rs0 j)) (rc_transitions (job_view rs j))"
proof -
  obtain zs where "rs = rs0 @ zs" using assms by (auto simp: prefix_def)
  then have "job_view rs j = fold absorb (filter (\<lambda>r. record_job_id r = j) zs) (job_view rs0 j)"
    by (simp add: job_view_def)
  then show "prefix (rc_results (job_view rs0 j)) (rc_results (job_view rs j))"
    "prefix (rc_failures (job_view rs0 j)) (rc_failures (job_view rs j))"
    "prefix (rc_transitions (job_view rs0 j)) (rc_transitions (job_view rs j))"
    by (simp_all add: absorbs_grow)
qed

lemma life_grows:
  assumes env: "engine_env E H" and pg: "petgraph_laws (en_pg E)" and W: "honest_outcomes W"
    and inv: "run_inv E H j s" and steps: "(life_step E H W j)\<^sup>*\<^sup>* s s'"
  shows "prefix (jh_results (rn_handle s)) (jh_results (rn_handle s'))"
    "prefix (jh_failures (rn_handle s)) (jh_failures (rn_handle s'))"
    "prefix (jh_transitions (rn_handle s)) (jh_transitions (rn_handle s'))"
    "completed_in (jh_graph (rn_handle s)) \<subseteq> completed_in (jh_graph (rn_handle s'))"
proof -
  from inv obtain rs0 where rs0: "H (sv_journal (rn_sv s)) rs0" "mirrors (rn_handle s) (job_view rs0 j)"
    unfolding run_inv_def journal_in_step_def by metis
  let ?H = "grown_from H rs0"
  from rs0 inv have "run_inv E ?H j s"
    by (auto simp: run_inv_def journal_in_step_def grown_from_def)
  with steps have inv': "run_inv E ?H j s'"
  proof (induction rule: rtranclp_induct)
    case (step t u)
    then show ?case using life_step_inv [OF grown_env [OF env] pg W grown_step] by blast
  qed
  then obtain rs where rs: "prefix rs0 rs" "mirrors (rn_handle s') (job_view rs j)"
    unfolding run_inv_def journal_in_step_def grown_from_def by metis
  note g = job_view_grows [OF rs(1), of j, unfolded mirrorsD(7-9) [OF rs0(2)] mirrorsD(7-9) [OF rs(2)]]
  from g show "prefix (jh_results (rn_handle s)) (jh_results (rn_handle s'))"
    "prefix (jh_failures (rn_handle s)) (jh_failures (rn_handle s'))"
    "prefix (jh_transitions (rn_handle s)) (jh_transitions (rn_handle s'))" by blast+
  from inv inv' set_mono_prefix [OF g(1)]
  show "completed_in (jh_graph (rn_handle s)) \<subseteq> completed_in (jh_graph (rn_handle s'))"
    unfolding run_inv_def tallied_def by (metis image_mono set_map)
qed

section \<open>Properties of recovery\<close>

text \<open>
  C20: the graph of a job is rebuilt from its journalled tasks, in whatever order they were logged,
  exactly when they form a graph: identifiers are distinct, every dependency is among the tasks, and
  there is no cycle. The rebuilt graph then holds each task once, unchanged; otherwise an error is
  reported and no partial graph is served.
\<close>

theorem rebuild_graph_exact:
  assumes "petgraph_laws pg"
  shows "(\<exists>graph. rebuild_graph pg job_id tasks = Ok graph) = well_founded_tasks tasks \<and>
    (\<forall>graph. rebuild_graph pg job_id tasks = Ok graph \<longrightarrow>
       graph_inv pg graph \<and> mset (hm_values (tg_nodes graph)) = mset tasks \<and> tg_job_id graph = job_id)"
proof -
  have wf: "well_founded_tasks tasks \<and> graph_inv pg graph \<and> mset (hm_values (tg_nodes graph)) = mset tasks"
    if "rebuild_graph pg job_id tasks = Ok graph" for graph
  proof -
    from petgraph_laws.rebuild_graph_Ok [OF assms that] obtain ts where
      ts: "holds_tasks pg ts graph" "mset ts = mset tasks" by blast
    have "set ts = set tasks" "distinct (map tn_id ts) = distinct (map tn_id tasks)"
      using ts(2) by (metis set_mset_mset, metis mset_eq_imp_distinct_iff mset_map)
    with petgraph_laws.holds_tasks_well_founded [OF assms ts(1)] have "well_founded_tasks tasks"
      by (simp add: well_founded_tasks_def depends_rel_def task_ids_def)
    with ts show ?thesis by (simp add: holds_tasks_def comp_def)
  qed
  moreover have "\<exists>graph. rebuild_graph pg job_id tasks = Ok graph \<and> tg_job_id graph = job_id"
    if "well_founded_tasks tasks"
    using petgraph_laws.rebuild_graph_complete [OF assms that] .
  ultimately show ?thesis by (metis sum.inject(2))
qed

theorem rebuild_graph_exact_witness:
  "\<exists>graph. rebuild_graph list_pg 9 [demo_task 2 [1], demo_task 1 []] = Ok graph \<and>
     mset (hm_values (tg_nodes graph)) = {#demo_task 1 [], demo_task 2 [1]#}"
proof -
  let ?ts = "[demo_task 2 [1], demo_task 1 []]"
  have "depends_rel ?ts = {(1, 2)}"
    by (auto simp: depends_rel_def intro!: exI [of _ "demo_task 2 [1]"])
  then have "well_founded_tasks ?ts"
    by (simp add: well_founded_tasks_def task_ids_def acyclic_insert wf_acyclic)
  then show ?thesis
    using rebuild_graph_exact [OF list_pg.petgraph_laws_axioms, of 9 ?ts] by auto
qed

text \<open>
  A concrete deployment: the in-memory journal and queue, consecutive identifiers, a clock that
  stands still.
\<close>

definition demo_cluster :: "(TaskNode, list_graph, TaskNode JournalRecord list, nat) Env" where
  "demo_cluster = local_env
     \<lparr>en_config = default_coordinator_config 1, en_pg = list_pg, en_disp = uuid_hyphenated,
      en_lower = id, en_usd = (\<lambda>r. ''usd''), en_append = memory_append, en_replay = memory_replay,
      en_now = (\<lambda>w. (0, w)), en_uuid = (\<lambda>w. (word_of_nat w, Suc w)),
      en_to_value = Inr, en_from_value = Inr\<rparr>"

lemma demo_cluster_env: "engine_env demo_cluster (\<lambda>j rs. j = rs)"
  unfolding demo_cluster_def by (rule local_engine.engine_env_axioms)

lemma demo_cluster_fields [simp]:
  "en_pg demo_cluster = list_pg" "en_uuid demo_cluster = (\<lambda>w. (word_of_nat w, Suc w))"
  "en_now demo_cluster = (\<lambda>w. (0, w))" "en_append demo_cluster = memory_append" "en_replay demo_cluster = memory_replay"
  "en_config demo_cluster = default_coordinator_config 1" "en_lower demo_cluster = id"
  "en_disp demo_cluster = uuid_hyphenated"
  by (simp_all add: demo_cluster_def local_env_def)

text \<open>
  C21: recovery treats every job on its own. After a successful replay it always succeeds; a job comes
  back as the handle built from exactly its own records, a job whose records do not form a job keeps
  out without stopping the others, jobs the journal does not mention are untouched, and the number
  returned is the number of jobs that came back.
\<close>

theorem recover_exact:
  assumes "en_replay E (sv_journal (co_sv c)) = Ok rs" "recover E c = (c', r)"
  shows "r = Ok (card {j \<in> record_job_id ` set rs.
      \<exists>h. build_handle (en_pg E) (cc_event_buffer (en_config E)) (job_view rs j) = Ok h}) \<and>
    co_sv c' = co_sv c \<and>
    (\<forall>j. map_of (co_jobs c') j =
      (if j \<in> record_job_id ` set rs
       then case build_handle (en_pg E) (cc_event_buffer (en_config E)) (job_view rs j) of
              Inr h \<Rightarrow> Some h | Inl _ \<Rightarrow> map_of (co_jobs c) j
       else map_of (co_jobs c) j))"
proof -
  let ?ok = "\<lambda>e. \<exists>h. build_handle (en_pg E) (cc_event_buffer (en_config E)) e = Ok h"
  let ?es = "fold apply_record rs []"
  from recover_effect [OF assms] obtain k where
    k: "r = Ok k" "co_sv c' = co_sv c" "k = length (filter (\<lambda>(j, e). ?ok e) ?es)"
    and jobs: "\<forall>j. map_of (co_jobs c') j =
      (if \<exists>r \<in> set rs. record_job_id r = j
       then case build_handle (en_pg E) (cc_event_buffer (en_config E)) (job_view rs j) of
              Inr h \<Rightarrow> Some h | Inl _ \<Rightarrow> map_of (co_jobs c) j
       else map_of (co_jobs c) j)" by blast
  have dist: "keys_distinct ?es" by (rule apply_records_distinct)
  have mem: "(j, e) \<in> set ?es \<longleftrightarrow> j \<in> record_job_id ` set rs \<and> e = job_view rs j" for j e
    using map_of_eq_Some_iff [OF dist, of j e] apply_records_lookup [of rs j] by (auto split: if_splits)
  let ?restored = "{j \<in> record_job_id ` set rs. ?ok (job_view rs j)}"
  have "distinct (map fst (filter (\<lambda>(j, e). ?ok e) ?es))" using dist by (rule distinct_map_filter)
  from distinct_card [OF this] have "k = card (fst ` set (filter (\<lambda>(j, e). ?ok e) ?es))"
    by (simp add: k(3))
  moreover have "fst ` set (filter (\<lambda>(j, e). ?ok e) ?es) = ?restored" using mem by (auto simp: image_iff)
  ultimately have number: "r = Ok (card ?restored)" by (simp add: k(1))
  have img: "(\<exists>r \<in> set rs. record_job_id r = j) \<longleftrightarrow> j \<in> record_job_id ` set rs" for j by auto
  show ?thesis
    by (intro conjI number k(2) jobs [unfolded img])
qed

theorem recover_exact_witness:
  "snd (recover demo_cluster (new_coordinator demo_cluster [JobStatusChanged 7 JobStatus.Running None 0] 0)) = Ok 0"
proof -
  let ?rs = "[JobStatusChanged 7 JobStatus.Running None 0] :: TaskNode JournalRecord list"
  let ?c = "new_coordinator demo_cluster ?rs 0"
  obtain c' r where rec: "recover demo_cluster ?c = (c', r)" by fastforce
  have "en_replay demo_cluster (sv_journal (co_sv ?c)) = Ok ?rs"
    by (simp add: new_coordinator_def memory_replay_def)
  from recover_exact [OF this rec] rec show ?thesis
    by (simp add: job_view_def default_recovering_def build_handle_def)
qed

section \<open>A concrete submission\<close>

definition demo_job_request :: JobRequest where
  "demo_job_request = (new_job_request ''Explain Raft'')\<lparr>jr_max_agents := 2\<rparr>"

lemma nth_uuid_demo: "nth_uuid (\<lambda>w. (word_of_nat w, Suc w)) w n = word_of_nat (w + n)"
proof -
  have "draw_uuids (\<lambda>w. (word_of_nat w :: uuid, Suc w)) n w = w + n" by (induction n arbitrary: w) simp_all
  then show ?thesis by (simp add: nth_uuid_def)
qed

lemma demo_task_total: "task_total demo_job_request = 4"
  by (simp add: task_total_def demo_job_request_def job_plan_def new_job_def new_job_request_def stages.simps
      stage_start_def new_stage_def Let_def)

lemma demo_fresh: "fresh_ids demo_cluster (\<lambda>j rs. j = rs) demo_job_request (new_coordinator demo_cluster [] 0)"
proof -
  have "inj_on (nth_uuid (\<lambda>w. (word_of_nat w, Suc w)) 2) {..<4}"
    by (rule inj_onI) (simp add: nth_uuid_demo word_of_nat_inject)
  then show ?thesis
    by (simp add: fresh_ids_def new_coordinator_def demo_task_total payloads_def new_queue_def numeral_2_eq_2)
qed

lemma demo_valid: "validate demo_job_request = Ok ()"
  by code_simp

lemma demo_submit: "\<exists>c. submit demo_cluster demo_job_request (new_coordinator demo_cluster [] 0) = (c, Ok 0)"
proof -
  let ?c = "new_coordinator demo_cluster [] 0"
  define job where "job = (new_job 0 1 0 demo_job_request)\<lparr>j_status := JobStatus.Planning\<rparr>"
  have plan: "plan_job demo_cluster (new_job 0 1 0 demo_job_request) = Ok job"
    by (simp add: plan_job_def job_def new_job_def transition_def can_transition_to_def job_machine_def
        default_coordinator_config_def demo_job_request_def new_job_request_def)
  have "inj_on (nth_uuid (\<lambda>w. (word_of_nat w, Suc w)) 2) {..<stage_start (job_plan job) (length (job_plan job))}"
    using demo_fresh unfolding job_def
    by (simp add: fresh_ids_def new_coordinator_def numeral_2_eq_2 task_total_def job_plan_def new_job_def Let_def)
  from decompose_tasks [OF list_pg.petgraph_laws_axioms this, of id "en_disp demo_cluster"] obtain graph where
    g: "decompose id (en_disp demo_cluster) (nth_uuid (\<lambda>w. (word_of_nat w, Suc w)) 2) list_pg job = Ok graph"
    by blast
  obtain s r where ann: "announce demo_cluster \<lparr>rn_handle = new_job_handle job graph 1024,
      rn_sv = (co_sv ?c)\<lparr>sv_world := draw_uuids (\<lambda>w. (word_of_nat w, Suc w)) (graph_len graph) 2,
        sv_journal := [JournalRecord.JobPlanned job (hm_values (tg_nodes graph))]\<rparr>\<rparr> = (s, r)" by fastforce
  have "r = Ok ()"
    using ann by (auto simp: announce_def emit_def thenS_def bindS_def gets_def utc_now_def on_handle_def modify_def)
  with ann plan g demo_valid show ?thesis
    by (simp add: submit_def new_coordinator_def memory_append_def Let_def numeral_2_eq_2
        default_coordinator_config_def)
qed

end
