(* ===== verification/EngineProperties.thy ===== *)
theory EngineProperties
  imports CrashRecovery
begin

text \<open>
  What a run of a job guarantees: the verdict of the final result agrees with the tasks and is final,
  agents are taken from and returned to the cluster's budget, and an idle agent can always be put to
  work on a leased task.
\<close>

section \<open>The verdict\<close>

lemma fold_completed:
  "gc_completed (fold (\<lambda>n. count_state (tn_state n)) ns c) =
   gc_completed c + length (filter (\<lambda>n. tn_state n = TaskState.Completed) ns)"
proof (induction ns arbitrary: c)
  case (Cons n ns)
  have "gc_completed (count_state (tn_state n) c) =
      gc_completed c + (if tn_state n = TaskState.Completed then 1 else 0)" by (cases "tn_state n") simp_all
  then show ?case using Cons by simp
qed simp

lemma counts_completed:
  "gc_completed (counts g) = length (filter (\<lambda>n. tn_state n = TaskState.Completed) (hm_values (tg_nodes g)))"
  "gc_total (counts g) = length (hm_values (tg_nodes g))"
  by (simp_all add: counts_def fold_completed fold_counts zero_counts_zero zero_counts_def)

lemma filter_all_iff: "length (filter P xs) = length xs \<longleftrightarrow> (\<forall>x \<in> set xs. P x)"
  by (metis filter_True filter_id_conv length_filter_conv_card order_less_irrefl length_filter_less)

lemma counts_quantified:
  "gc_completed (counts g) = gc_total (counts g) \<longleftrightarrow>
     (\<forall>n \<in> set (hm_values (tg_nodes g)). tn_state n = TaskState.Completed)"
  "0 < gc_completed (counts g) \<longleftrightarrow> (\<exists>n \<in> set (hm_values (tg_nodes g)). tn_state n = TaskState.Completed)"
  unfolding counts_completed by (rule filter_all_iff) (auto simp: filter_empty_conv simp del: filter_map)

lemma final_status_iff:
  "final_status cancelled (counts g) = JobStatus.Completed \<Longrightarrow>
     \<forall>n \<in> set (hm_values (tg_nodes g)). tn_state n = TaskState.Completed"
  "final_status cancelled (counts g) = JobStatus.Failed \<Longrightarrow>
     \<forall>n \<in> set (hm_values (tg_nodes g)). tn_state n \<noteq> TaskState.Completed"
  "final_status cancelled (counts g) = JobStatus.PartiallyCompleted \<Longrightarrow>
     \<exists>n \<in> set (hm_values (tg_nodes g)). tn_state n = TaskState.Completed"
  "final_status cancelled (counts g) = JobStatus.Cancelled \<longleftrightarrow> cancelled"
  unfolding final_status_def counts_quantified by (auto split: if_splits)

lemma final_status_finished [simp]: "is_finished (final_status cancelled cs)"
  by (simp add: final_status_def)

lemma set_status_Ok:
  assumes "set_status E dst reason s = (s', Inr u)"
  shows "\<exists>now. rn_handle s' = (rn_handle s)\<lparr>jh_job := apply_status dst reason now (jh_job (rn_handle s))\<rparr>"
proof -
  have "transition job_machine (j_status (jh_job (rn_handle s))) dst = Inr dst"
    using assms by (auto simp: set_status_def bindS_def liftR_def transition_def gets_def split: if_splits sum.splits)
  with assms show ?thesis
    by (auto simp: set_status_def bindS_def liftR_def utc_now_def thenS_def on_handle_def modify_def
        journal_record_state gets_def split: prod.splits)
qed

lemma valid_bind_gets:
  assumes "\<And>s. P s \<Longrightarrow> valid P (k (f s)) Q F"
  shows "valid P (bindS (gets f) k) Q F"
  unfolding valid_def
proof (intro allI impI)
  fix s assume "P s"
  from valid_at [OF assms [OF this] this]
  show "case bindS (gets f) k s of (s', Inr x) \<Rightarrow> Q x s' | (s', Inl e) \<Rightarrow> F s'" by simp
qed

text \<open>What the final result says of the state it is reported in.\<close>

definition verdict :: "bool \<Rightarrow> 'g TaskGraph \<Rightarrow> 'v FinalResult \<Rightarrow> ('v, 'g, 'j, 'w) Run \<Rightarrow> bool" where
  "verdict cancelled g fr s \<longleftrightarrow>
     jh_graph (rn_handle s) = g \<and> fr_status fr = final_status cancelled (counts g) \<and>
     j_status (jh_job (rn_handle s)) = fr_status fr \<and> jh_final_result (rn_handle s) = Some fr"

lemma set_status_graph:
  "valid (\<lambda>s. jh_graph (rn_handle s) = g) (set_status E dst reason)
     (\<lambda>_ s. jh_graph (rn_handle s) = g \<and> j_status (jh_job (rn_handle s)) = dst) (\<lambda>_. True)"
  by (rule validI) (auto dest!: set_status_Ok simp: apply_status_def)

lemma report_verdict:
  fixes E :: "('b, 'a, 'c, 'd) Env"
  assumes "fr_status fr = final_status cancelled (counts g)" "valid (verdict cancelled g fr) k Q (\<lambda>_. True)"
  shows "valid (\<lambda>s. jh_graph (rn_handle s) = g)
     (thenS (set_status E (final_status cancelled (counts g)) reason)
     (thenS (journal_record E (JournalRecord.JobFinished (fr_job_id fr) fr))
     (thenS (on_handle (\<lambda>h. h\<lparr>jh_final_result := Some fr\<rparr>)) k)))
     Q (\<lambda>_. True)"
proof (rule valid_thenS [OF set_status_graph])
  show "valid (\<lambda>s. jh_graph (rn_handle s) = g \<and> j_status (jh_job (rn_handle s)) = final_status cancelled (counts g))
     (thenS (journal_record E (JournalRecord.JobFinished (fr_job_id fr) fr))
       (thenS (on_handle (\<lambda>h. h\<lparr>jh_final_result := Some fr\<rparr>)) k)) Q (\<lambda>_. True)"
    unfolding valid_def
  proof (intro allI impI)
    fix s :: "('b, 'a, 'c, 'd) Run"
    assume "jh_graph (rn_handle s) = g \<and> j_status (jh_job (rn_handle s)) = final_status cancelled (counts g)"
    with assms(1) have "verdict cancelled g fr (recorded E (JournalRecord.JobFinished (fr_job_id fr) fr)
        (\<lambda>h. h\<lparr>jh_final_result := Some fr\<rparr>) s)" by (simp add: verdict_def)
    from valid_at [OF assms(2) this]
    show "case thenS (journal_record E (JournalRecord.JobFinished (fr_job_id fr) fr))
        (thenS (on_handle (\<lambda>h. h\<lparr>jh_final_result := Some fr\<rparr>)) k) s of
        (s', Inr x) \<Rightarrow> Q x s' | (s', Inl e) \<Rightarrow> True" by simp
  qed
qed

lemma verdict_essence: "essence s' = essence s \<Longrightarrow> verdict cancelled g fr s \<Longrightarrow> verdict cancelled g fr s'"
  by (simp add: verdict_def essence_def)

lemma aggregate_status: "fr_status (aggregate ops job graph results st tally) = st"
  by (simp add: aggregate_def Let_def)

definition all_terminal :: "'g TaskGraph \<Rightarrow> bool" where
  "all_terminal g \<longleftrightarrow> (\<forall>i n. map_of (tg_nodes g) i = Some n \<longrightarrow> node_is_terminal n)"

lemma cancel_task_Ok:
  assumes "cancel_task E actor corr i s = (s', Inr u)"
  shows "(\<exists>n. node_at s' i = Some n \<and> node_is_terminal n) \<and> (\<forall>k. k \<noteq> i \<longrightarrow> node_at s' k = node_at s k)"
proof (cases "map_option tn_state (get_task (jh_graph (rn_handle s)) i) = Some TaskState.Running")
  case True
  obtain s1 r1 where a1: "advance E i TaskState.Failed actor ''job_cancelled'' corr s = (s1, r1)" by fastforce
  with assms True have a2: "r1 = Inr ()" "advance E i TaskState.DeadLettered actor ''job_cancelled'' corr s1 = (s', Inr u)"
    by (auto simp: cancel_task_def thenS_def bindS_def gets_def split: sum.splits)
  from advance_effect [OF a1] a2(1) obtain n where n: "node_at s i = Some n" "moved E s i (tn_attempt n) TaskState.Failed s1" by auto
  from advance_effect [OF a2(2)] obtain m where m: "node_at s1 i = Some m" "moved E s1 i (tn_attempt m) TaskState.DeadLettered s'" by auto
  show ?thesis
    using moved_node [OF m(2,1)] moved_node [OF n(2,1)] by (auto simp: node_is_terminal_def)
next
  case False
  with assms have "advance E i TaskState.Cancelled actor ''job_cancelled'' corr s = (s', Inr u)"
    unfolding cancel_task_def bindS_gets by (simp only: if_False)
  from advance_effect [OF this] obtain n where
    "node_at s i = Some n" "moved E s i (tn_attempt n) TaskState.Cancelled s'" by auto
  with moved_node show ?thesis by (fastforce simp: node_is_terminal_def)
qed

lemma cancel_tasks_Ok:
  assumes "forS ids (cancel_task E actor corr) s = (s', Inr u)"
  shows "(\<forall>k \<in> set ids. \<exists>n. node_at s' k = Some n \<and> node_is_terminal n) \<and>
    (\<forall>k. k \<notin> set ids \<longrightarrow> node_at s' k = node_at s k)"
  using assms
proof (induction ids arbitrary: s)
  case (Cons i ids)
  obtain s1 r where c: "cancel_task E actor corr i s = (s1, r)" by fastforce
  with Cons.prems obtain v where r: "r = Inr v" "forS ids (cancel_task E actor corr) s1 = (s', Inr u)"
    by (cases r) (auto simp: thenS_def bindS_def)
  from cancel_task_Ok [OF c [unfolded r(1)]] Cons.IH [OF r(2)] show ?case
    by (cases "i \<in> set ids") auto
qed (simp add: ret_def)

lemma cancel_part:
  assumes "graph_inv (en_pg E) (jh_graph (rn_handle s))"
    "cancel_pending E actor corr cancelled s = (s', Inr u)"
  shows "cancelled \<longrightarrow> all_terminal (jh_graph (rn_handle s'))"
proof
  assume cancelled
  let ?ids = "map tn_id (filter (\<lambda>n. \<not> node_is_terminal n) (hm_values (tg_nodes (jh_graph (rn_handle s)))))"
  obtain s1 r where f: "forS ?ids (cancel_task E actor corr) s = (s1, r)" by fastforce
  with assms(2) \<open>cancelled\<close> have "r = Inr ()" "rn_handle s' = rn_handle s1"
    by (auto simp: cancel_pending_def thenS_def bindS_def gets_def on_sv_def modify_def split: sum.splits)
  with cancel_tasks_Ok [of ?ids E actor corr s s1 "()"] f
  have c: "\<forall>k \<in> set ?ids. \<exists>n. node_at s' k = Some n \<and> node_is_terminal n"
    "\<forall>k. k \<notin> set ?ids \<longrightarrow> node_at s' k = node_at s k" by (auto simp: node_at_def)
  show "all_terminal (jh_graph (rn_handle s'))"
    unfolding all_terminal_def
  proof (intro allI impI)
    fix i n assume n: "map_of (tg_nodes (jh_graph (rn_handle s'))) i = Some n"
    show "node_is_terminal n"
    proof (cases "i \<in> set ?ids")
      case True
      with c(1) n show ?thesis by (auto simp: node_at_def)
    next
      case False
      with c(2) n have live: "map_of (tg_nodes (jh_graph (rn_handle s))) i = Some n" by (simp add: node_at_def)
      then have "n \<in> set (hm_values (tg_nodes (jh_graph (rn_handle s))))" by (force dest: map_of_SomeD)
      with False graph_invD(5) [OF assms(1) live] show ?thesis by force
    qed
  qed
qed

lemma keeps_graph_quiet:
  "quiet m \<Longrightarrow> valid (\<lambda>s. jh_graph (rn_handle s) = g) m (\<lambda>_ s. jh_graph (rn_handle s) = g) (\<lambda>_. True)"
  by (rule valid_quiet) (simp_all add: essence_def)

lemma keeps_graph_status:
  "valid (\<lambda>s. jh_graph (rn_handle s) = g) (set_status E dst reason) (\<lambda>_ s. jh_graph (rn_handle s) = g) (\<lambda>_. True)"
  using valid_conseq [OF set_status_graph [of g E dst reason]] by simp

lemma valid_bind_gets_eq:
  "(\<And>s. P s \<Longrightarrow> f s = x) \<Longrightarrow> valid P (k x) Q F \<Longrightarrow> valid P (bindS (gets f) k) Q F"
  by (rule valid_bind_gets) simp

lemma verdict_quiet: "quiet m \<Longrightarrow> valid (verdict cancelled g fr) m (\<lambda>_. verdict cancelled g fr) (\<lambda>_. True)"
  by (rule valid_quiet) (simp_all add: verdict_essence)

lemma verdict_end:
  assumes "quiet m"
  shows "valid (verdict cancelled g fr) (thenS m (ret fr)) (\<lambda>fr. verdict cancelled g fr) (\<lambda>_. True)"
  by (rule valid_thenS [OF verdict_quiet [OF assms] valid_ret])

lemma report_gives_verdict:
  "valid (\<lambda>s. jh_graph (rn_handle s) = g) (report E W cancelled spawned)
     (\<lambda>fr. verdict cancelled g fr) (\<lambda>_. True)"
  unfolding report_def Let_def
  by (rule valid_bind_gets_eq [where x = "counts g"], simp,
      rule valid_bindS [OF keeps_graph_quiet [OF quiet_basic(7)]],
      rule valid_thenS [OF keeps_graph_quiet [OF quiet_agents(3)]],
      rule valid_thenS [where R = "\<lambda>s. jh_graph (rn_handle s) = g"],
      simp add: keeps_graph_status keeps_graph_quiet quiet_basic,
      rule valid_bind_gets, rule report_verdict, simp add: aggregate_status,
      rule valid_bindS [OF verdict_quiet [OF quiet_basic(3)]],
      rule valid_thenS [OF verdict_quiet [OF quiet_agents(6)]],
      rule valid_bindS [OF verdict_quiet [OF quiet_basic(3)]],
      rule verdict_end, rule quiet_emit)

lemma finish_verdict:
  assumes "graph_inv (en_pg E) (jh_graph (rn_handle s))"
    "finish E W cancelled spawned actor corr s = (s', Inr fr)"
  shows "verdict cancelled (jh_graph (rn_handle s')) fr s'"
    "cancelled \<longrightarrow> all_terminal (jh_graph (rn_handle s'))"
proof -
  obtain s1 r where c: "cancel_pending E actor corr cancelled s = (s1, r)" by fastforce
  with assms(2) obtain u where r: "r = Inr u" "report E W cancelled spawned s1 = (s', Inr fr)"
    by (cases r) (auto simp: finish_def thenS_def bindS_def)
  from validD(1) [OF report_gives_verdict _ r(2), of "jh_graph (rn_handle s1)"]
  have v: "verdict cancelled (jh_graph (rn_handle s1)) fr s'" by simp
  then have "jh_graph (rn_handle s') = jh_graph (rn_handle s1)" by (simp add: verdict_def)
  with v cancel_part [OF assms(1) c [unfolded r(1)]]
  show "verdict cancelled (jh_graph (rn_handle s')) fr s'"
    "cancelled \<longrightarrow> all_terminal (jh_graph (rn_handle s'))" by simp_all
qed

lemma run_job_verdict:
  assumes env: "engine_env E H" and W: "honest_outcomes W" and inv: "run_inv E H j s"
    and run: "run_job E W s = (s', Inr fr)" and fresh: "\<not> is_finished (j_status (jh_job (rn_handle s)))"
  shows "\<exists>cancelled. verdict cancelled (jh_graph (rn_handle s')) fr s' \<and>
    (cancelled \<longrightarrow> all_terminal (jh_graph (rn_handle s')))"
proof -
  let ?h = "rn_handle s"
  let ?actor = "''coordinator:'' @ en_disp E (cc_node_id (en_config E))"
  let ?corr = "j_correlation_id (jh_job ?h)" and ?max = "jr_max_agents (j_request (jh_job ?h))"
  let ?ticks = "unat (cc_max_ticks (en_config E))"
  obtain s1 r1 where s1: "set_status E JobStatus.Running None s = (s1, r1)" by fastforce
  obtain s2 r2 where s2: "provision_agents E ?max s1 = (s2, r2)" by fastforce
  obtain s3 r3 where s3: "run_loop ?ticks E W ?max ?actor ?corr False s2 = (s3, r3)" by fastforce
  have "bindS (provision_agents E ?max) (\<lambda>spawned.
      bindS (run_loop ?ticks E W ?max ?actor ?corr False) (\<lambda>cancelled.
        finish E W cancelled spawned ?actor ?corr)) s1 = (s', Inr fr) \<and> r1 = Inr ()"
    using run fresh s1 by (auto simp: run_job_def Let_def thenS_def bindS_def [of "set_status _ _ _"] split: sum.splits)
  with s2 s3 obtain spawned cancelled where
    fin: "finish E W cancelled spawned ?actor ?corr s3 = (s', Inr fr)"
    by (auto simp: bindS_def split: sum.splits)
  have "run_inv E H j s1" using keeps_fst [OF engine_env.keeps_set_status [OF env] inv] s1 by (metis fst_conv)
  then have "run_inv E H j s2" using keeps_fst [OF keeps_quiet [OF quiet_provision_agents]] s2 by (metis fst_conv)
  then have "run_inv E H j s3" using keeps_fst [OF engine_env.keeps_run_loop [OF env W]] s3 by (metis fst_conv)
  then have "graph_inv (en_pg E) (jh_graph (rn_handle s3))" by (simp add: run_inv_def)
  from finish_verdict [OF this fin] show ?thesis by blast
qed

section \<open>The agent budget\<close>

text \<open>Agents the cluster has handed out, and agents the job holds.\<close>

definition held :: "('v, 'g, 'j, 'w) Run \<Rightarrow> nat \<times> nat" where
  "held s = (sv_cluster_agents (rn_sv s), length (jh_agents (rn_handle s)))"

definition steady :: "(('v, 'g, 'j, 'w) Run, 'a) op \<Rightarrow> bool" where
  "steady m \<longleftrightarrow> (\<forall>s. held (fst (m s)) = held s)"

named_theorems steady_intro

lemma steadyI: "(\<And>s. held (fst (m s)) = held s) \<Longrightarrow> steady m"
  by (simp add: steady_def)

lemma steady_bindS [steady_intro]:
  assumes "steady m" "\<And>x. steady (f x)" shows "steady (bindS m f)"
proof (rule steadyI)
  fix s
  obtain s1 r where "m s = (s1, r)" by fastforce
  with assms show "held (fst (bindS m f s)) = held s"
    by (auto simp: bindS_def steady_def split: sum.split) (metis fst_conv)+
qed

lemma steady_thenS [steady_intro]: "steady m \<Longrightarrow> steady n \<Longrightarrow> steady (thenS m n)"
  unfolding thenS_def by (rule steady_bindS)

lemma steady_basic [steady_intro]:
  "steady (ret x)" "steady (raise e)" "steady (gets f)" "steady (liftR r)" "steady (utc_now E)"
  "steady (fresh_uuid E)" "steady (ask a)" "steady (journal_record E rec)"
  by (simp_all add: steady_def ret_def raise_def gets_def liftR_def utc_now_def fresh_uuid_def
      ask_def held_def journal_record_state split: prod.split)

lemma steady_cases [steady_intro]:
  "(c \<Longrightarrow> steady m) \<Longrightarrow> (\<not> c \<Longrightarrow> steady n) \<Longrightarrow> steady (if c then m else n)"
  "steady k \<Longrightarrow> (\<And>y. steady (f y)) \<Longrightarrow> steady (case x of None \<Rightarrow> k | Some y \<Rightarrow> f y)"
  "(\<And>e. steady (g e)) \<Longrightarrow> (\<And>y. steady (f' y)) \<Longrightarrow> steady (case r of Inl e \<Rightarrow> g e | Inr y \<Rightarrow> f' y)"
  "(\<And>a b. steady (p a b)) \<Longrightarrow> steady (case z of (a, b) \<Rightarrow> p a b)"
  by (simp_all split: option.split sum.split prod.split)

lemma steady_forS [steady_intro]: "(\<And>x. steady (body x)) \<Longrightarrow> steady (forS xs body)"
  by (induction xs) (simp_all add: steady_basic steady_thenS)

lemma length_update_agent [simp]: "length (update_agent i f as) = length as"
  by (induction as) simp_all

lemma steady_handle [steady_intro]:
  "steady (on_handle (\<lambda>h. h\<lparr>jh_graph := fg h\<rparr>))" "steady (on_handle (\<lambda>h. h\<lparr>jh_job := fj h\<rparr>))"
  "steady (on_handle (\<lambda>h. h\<lparr>jh_transitions := ft h\<rparr>))" "steady (on_handle (\<lambda>h. h\<lparr>jh_failures := ff h\<rparr>))"
  "steady (on_handle (\<lambda>h. h\<lparr>jh_latencies := fl h, jh_results := fr h\<rparr>))"
  "steady (on_handle (\<lambda>h. h\<lparr>jh_statistics := fs h\<rparr>))" "steady (on_handle (\<lambda>h. h\<lparr>jh_control := c\<rparr>))"
  "steady (on_handle (\<lambda>h. h\<lparr>jh_final_result := fin h\<rparr>))"
  "steady (on_handle (\<lambda>h. h\<lparr>jh_agents := update_agent i (ga h) (jh_agents h)\<rparr>))"
  "steady (on_handle (\<lambda>h. h\<lparr>jh_agents := (jh_agents h)[k := a]\<rparr>))"
  "steady (on_handle (\<lambda>h. h\<lparr>jh_sequence := fq h, jh_statistics := fs h, jh_events := fe h\<rparr>))"
  "steady (on_sv (\<lambda>sv. sv\<lparr>sv_scheduler := fsch sv\<rparr>))" "steady (on_sv (\<lambda>sv. sv\<lparr>sv_queue := fqu sv\<rparr>))"
  "steady (bump_stats fb)"
  by (simp_all add: steady_def on_handle_def on_sv_def bump_stats_def modify_def held_def)

lemma steady_queue_op [steady_intro]: "steady (queue_op E f)"
  unfolding queue_op_def by (intro steady_intro) (simp add: steady_def held_def split: prod.split)

lemma steady_wrapped [steady_intro]: "steady m \<Longrightarrow> steady (ignoring m)" "steady m \<Longrightarrow> steady (attempt_op m)"
  by (auto simp: steady_def ignoring_def attempt_op_def split: prod.split) (metis fst_conv)

lemma steady_emit [steady_intro]: "steady (emit E kind task_id detail p)"
  unfolding emit_def by (intro steady_intro)

lemma steady_set_status [steady_intro]: "steady (set_status E dst reason)"
  unfolding set_status_def by (intro steady_intro)

lemma steady_advance [steady_intro]: "steady (advance E i dst actor reason corr)"
  unfolding advance_def by (intro steady_intro)

lemma steady_promote_ready [steady_intro]: "steady (promote_ready E actor corr)"
  unfolding promote_ready_def promote_one_def by (intro steady_intro)

lemma steady_spawn_agent [steady_intro]: "steady (spawn_agent E t)"
  unfolding spawn_agent_def Let_def by (intro steady_intro)

lemma steady_acquire_agent [steady_intro]: "steady (acquire_agent E task)"
  unfolding acquire_agent_def assign_def respecialise_def by (intro steady_intro)

lemma steady_start_task [steady_intro]: "steady (start_task E actor corr lease task agent)"
  unfolding start_task_def Let_def by (intro steady_intro)

lemma steady_collect_loop [steady_intro]: "steady (collect_loop E worker actor corr n ds)"
  by (induction n arbitrary: ds) (simp_all, (intro steady_intro; assumption)+)

lemma steady_collect_dispatches [steady_intro]: "steady (collect_dispatches E worker actor corr)"
  unfolding collect_dispatches_def by (intro steady_intro)

lemma steady_release_agent [steady_intro]: "steady (release_agent E agent ok l w)"
  unfolding release_agent_def by (intro steady_intro)

lemma steady_fail_task [steady_intro]:
  "steady (fail_task E task st kind message retryable failures actor corr)"
  unfolding fail_task_def Let_def by (intro steady_intro)

lemma steady_apply_outcome [steady_intro]: "steady (apply_outcome E actor corr d out)"
  unfolding apply_outcome_def record_task_success_def Let_def
  by (cases out) (auto intro!: steady_intro split: sum.split)

lemma steady_make_progress [steady_intro]: "steady (make_progress_possible E actor corr)"
  unfolding make_progress_possible_def by (intro steady_intro)

lemma steady_cancel_pending [steady_intro]: "steady (cancel_pending E actor corr cancelled)"
  unfolding cancel_pending_def cancel_task_def by (intro steady_intro)

lemma steady_past_deadline [steady_intro]: "steady (past_deadline E)"
  unfolding past_deadline_def by (intro steady_intro)

lemma steady_observe_control [steady_intro]: "steady (observe_control W)"
  unfolding observe_control_def by (intro steady_intro)

text \<open>Of the agents handed out, \<open>b\<close> belong to other jobs and the rest are held by this one.\<close>

definition budgeted :: "('v, 'g, 'j, 'w) Env \<Rightarrow> nat \<Rightarrow> ('v, 'g, 'j, 'w) Run \<Rightarrow> bool" where
  "budgeted E b s \<longleftrightarrow>
     fst (held s) = b + snd (held s) \<and> fst (held s) \<le> cc_max_cluster_agents (en_config E)"

lemma keeps_steady: "steady m \<Longrightarrow> keeps (budgeted E b) m"
  by (rule keepsI) (simp add: steady_def budgeted_def)

lemma spawn_agent_Ok: "\<exists>s' a. spawn_agent E t s = (s', Inr a)"
  by (simp add: spawn_agent_def bindS_def fresh_uuid_def utc_now_def gets_def liftR_def ret_def Let_def
      agent_new_def new_agent_descriptor_def transition_def can_transition_to_def agent_machine_def
      split: prod.split)

lemma emit_Ok: "\<exists>s'. emit E kind task_id detail p s = (s', Inr ())"
  by (simp add: emit_def bindS_def utc_now_def on_handle_def modify_def split: prod.split)

lemma spawn_loop_Ok:
  "\<exists>s' as. spawn_loop E ts agents s = (s', Inr as) \<and> length as = length agents + length ts \<and> held s' = held s"
proof (induction ts arbitrary: agents s)
  case (Cons t ts)
  obtain s1 a where a: "spawn_agent E t s = (s1, Inr a)" using spawn_agent_Ok by blast
  obtain s2 where e: "emit E AgentSpawned None (agent_type_as_str t @ '' agent '' @ en_disp E (ad_id a)) 0 s1 = (s2, Inr ())"
    using emit_Ok by blast
  have "held s2 = held s" using a e steady_spawn_agent steady_emit unfolding steady_def by (metis fst_conv)
  with Cons.IH [of "agents @ [a]" s2] a e show ?case by (auto simp: bindS_def thenS_def)
qed (simp add: ret_def)

lemma max_cluster_budget:
  "budgeted E b s \<Longrightarrow> sv_cluster_agents (rn_sv s) \<le> cc_max_cluster_agents (en_config E)"
  by (simp add: budgeted_def held_def)

lemma bindS_liftR [simp]: "bindS (liftR (Inl e)) k s = (s, Inl e)" "bindS (liftR (Inr x)) k s = k x s"
  by (simp_all add: bindS_def liftR_def)

lemma update_nonempty: "AList.update k v m \<noteq> []"
  by (cases m) auto

lemma demand_nonempty: "nodes \<noteq> [] \<Longrightarrow> demand_of nodes \<noteq> []"
  by (cases nodes rule: rev_cases) (simp_all add: demand_of_def Let_def update_nonempty)

lemma required_nonempty: "demand \<noteq> [] \<Longrightarrow> with_required caps demand \<noteq> []"
proof (induction caps arbitrary: demand)
  case (Cons c caps)
  then show ?case by (simp add: with_required_def update_nonempty split: option.split)
qed (simp add: with_required_def)

lemma rank_types_Nil: "rank_types demand = [] \<longleftrightarrow> demand = []"
  unfolding rank_types_def by (metis length_0_conv length_map length_sort)

lemma provision_budget:
  assumes "budgeted E b s" "jh_agents (rn_handle s) = []" "tg_nodes (jh_graph (rn_handle s)) \<noteq> []"
  shows "budgeted E b (fst (provision_agents E max_agents s))"
proof (cases "layers (en_pg E) (jh_graph (rn_handle s))")
  case (Inl e)
  then show ?thesis using assms(1) by (simp add: provision_agents_def)
next
  case (Inr ls)
  let ?h = "rn_handle s"
  define types where "types = rank_types (with_required (jr_required_capabilities (j_request (jh_job ?h)))
    (demand_of (hm_values (tg_nodes (jh_graph ?h)))))"
  define target where "target = max (min (max (widest_layer ls) (length types)) max_agents) 1"
  let ?claimed = "sv_cluster_agents (rn_sv s)"
  show ?thesis
  proof (cases "?claimed + target > cc_max_cluster_agents (en_config E)")
    case True
    then show ?thesis
      using assms(1) Inr unfolding target_def types_def
      by (simp add: provision_agents_def raise_def Let_def)
  next
    case False
    have types: "types \<noteq> []"
      using required_nonempty [OF demand_nonempty] assms(3) by (simp add: types_def rank_types_Nil)
    let ?s1 = "s\<lparr>rn_sv := (rn_sv s)\<lparr>sv_cluster_agents := ?claimed + target\<rparr>\<rparr>"
    from spawn_loop_Ok [of E "map (\<lambda>i. types ! (i mod length types)) [0..<target]" "[]" ?s1]
    obtain s2 agents where s2:
      "spawn_loop E (map (\<lambda>i. types ! (i mod length types)) [0..<target]) [] ?s1 = (s2, Inr agents)"
      "length agents = target" "held s2 = held ?s1" by auto
    have "fst (provision_agents E max_agents s) = s2\<lparr>rn_handle := (rn_handle s2)\<lparr>jh_agents := agents,
        jh_statistics := (jh_statistics (rn_handle s2))\<lparr>es_agents_spawned := length agents\<rparr>\<rparr>\<rparr>"
      using False types s2(1) Inr unfolding target_def types_def
      by (simp add: provision_agents_def Let_def bindS_def [of "spawn_loop _ _ _"] ret_def)
    then show ?thesis using assms(1,2) s2(2,3) False by (simp add: budgeted_def held_def)
  qed
qed

lemma scale_up_budget: "keeps (budgeted E b) (scale_up E max_agents st)"
proof (rule keepsI)
  fix s assume inv: "budgeted E b s"
  let ?in_use = "sv_cluster_agents (rn_sv s)" and ?h = "rn_handle s"
  let ?go = "qs_ready st > length (filter is_available (jh_agents ?h)) \<and> length (jh_agents ?h) < max_agents \<and>
    ?in_use < cc_max_cluster_agents (en_config E)"
  show "budgeted E b (fst (scale_up E max_agents st s))"
  proof (cases "?go \<and> most_needed_type (hm_values (tg_nodes (jh_graph ?h))) \<noteq> None")
    case True
    then obtain t where t: "most_needed_type (hm_values (tg_nodes (jh_graph ?h))) = Some t" by blast
    let ?s1 = "s\<lparr>rn_sv := (rn_sv s)\<lparr>sv_cluster_agents := ?in_use + 1\<rparr>\<rparr>"
    obtain s2 a where a: "spawn_agent E t ?s1 = (s2, Inr a)" using spawn_agent_Ok by blast
    obtain s3 where e: "emit E AgentSpawned None (''scaled up: '' @ agent_type_as_str t @ '' agent '' @
        en_disp E (ad_id a)) (progress (jh_graph ?h)) s2 = (s3, Inr ())" using emit_Ok by blast
    have "held s3 = held ?s1" using a e steady_spawn_agent steady_emit unfolding steady_def by (metis fst_conv)
    moreover have "held (fst (scale_up E max_agents st s)) = (fst (held s3), snd (held s3) + 1)"
      using True t a e
      by (simp add: scale_up_def bindS_def [of "spawn_agent _ _"] thenS_def [of "emit _ _ _ _ _"]
          bindS_def [of "emit _ _ _ _ _"] bump_stats_def on_handle_def modify_def held_def
          thenS_def [of "modify _"] bindS_def [of "modify _"])
    ultimately show ?thesis using inv True by (simp add: budgeted_def held_def)
  next
    case False
    then show ?thesis using inv by (auto simp: scale_up_def ret_def split: option.split)
  qed
qed

lemma reclaim_length: "length (reclaim stale agents) \<le> length agents"
proof (induction stale agents rule: reclaim.induct)
  case (1 stale agents)
  show ?case
  proof (cases "length agents > 1 \<and> position stale agents \<noteq> None")
    case True
    then obtain i where i: "length agents > 1" "position stale agents = Some i" by blast
    have "length (remove_at i agents) \<le> length agents" using position_SomeD [OF i(2)] by simp
    with 1 [OF i] i show ?thesis by (subst reclaim.simps) simp
  next
    case False
    then show ?thesis by (subst reclaim.simps) (auto split: option.split)
  qed
qed

lemma scale_down_budget: "keeps (budgeted E b) (scale_down E st)"
proof (rule keepsI)
  fix s assume inv: "budgeted E b s"
  show "budgeted E b (fst (scale_down E st s))"
  proof (cases "depth st = 0")
    case True
    obtain now w where now: "en_now E (sv_world (rn_sv s)) = (now, w)" by fastforce
    let ?stale = "\<lambda>a. is_available a \<and>
      ad_last_active_at a < now - ms (as_i64 (cc_agent_idle_timeout_ms (en_config E)))"
    let ?agents = "jh_agents (rn_handle s)"
    let ?kept = "reclaim ?stale ?agents"
    let ?n = "length ?agents - length ?kept"
    have le: "length ?kept \<le> length ?agents" by (rule reclaim_length)
    let ?s1 = "s\<lparr>rn_sv := (rn_sv s)\<lparr>sv_world := w\<rparr>, rn_handle := (rn_handle s)\<lparr>jh_agents := ?kept\<rparr>\<rparr>"
    let ?s2 = "?s1\<lparr>rn_sv := (rn_sv ?s1)\<lparr>sv_cluster_agents := sv_cluster_agents (rn_sv s) - ?n\<rparr>\<rparr>"
    have "held (fst (scale_down E st s)) = held (if ?n > 0 then ?s2 else ?s1)"
    proof -
      have "held (fst (emit E kind t d p s')) = held s'" for kind t d p and s' :: "('a, 'b, 'c, 'd) Run"
        using steady_emit unfolding steady_def by blast
      then show ?thesis
        using True now
        by (simp add: scale_down_def bindS_def [of "utc_now _"] utc_now_def Let_def ret_def)
    qed
    then show ?thesis using inv le by (auto simp: budgeted_def held_def)
  qed (use inv in \<open>simp add: scale_down_def ret_def\<close>)
qed

lemma schedule_tick_budget: "keeps (budgeted E b) (schedule_tick E W max_agents actor corr)"
  unfolding schedule_tick_def maintain_agent_pool_def
  by (rule keeps_bindS [OF keeps_steady], intro steady_intro,
      rule keeps_thenS [OF keeps_steady], intro steady_intro,
      rule keeps_thenS, rule keeps_bindS [OF keeps_steady], intro steady_intro,
      rule keeps_thenS [OF scale_up_budget scale_down_budget],
      rule keeps_steady, intro steady_intro)

lemma tick_budget: "keeps (budgeted E b) (tick E W max_agents actor corr paused)"
  unfolding tick_def
proof (rule keeps_bindS [OF keeps_steady [OF steady_observe_control]])
  fix c
  have late: "keeps (budgeted E b) (bindS (past_deadline E) (\<lambda>late.
      if late then bindS (gets job_progress) (\<lambda>p.
        thenS (emit E JobEventKind.JobFinished None ''deadline exceeded'' p) (ret (Stop False)))
      else schedule_tick E W max_agents actor corr))"
    by (rule keeps_bindS [OF keeps_steady [OF steady_past_deadline]], rule keeps_if,
        rule keeps_steady, (intro steady_intro)[1], rule schedule_tick_budget)
  have wait: "keeps (budgeted E b) (thenS (if paused then ret () else set_status E JobStatus.Paused (Some ''operator paused''))
     (bindS (ask (wo_resume W)) (\<lambda>resumed. ret (if resumed then Continue True else Stop True))))"
    by (rule keeps_steady) (intro steady_intro)
  have resume: "keeps (budgeted E b) (if paused then set_status E JobStatus.Running None else ret ())"
    by (rule keeps_steady) (intro steady_intro)
  have stop: "keeps (budgeted E b) (ret (Stop True))" by (rule keeps_steady) (intro steady_intro)
  show "keeps (budgeted E b) (case c of
         Control.Cancelled \<Rightarrow> ret (Stop True)
       | Control.Paused \<Rightarrow>
           thenS (if paused then ret () else set_status E JobStatus.Paused (Some ''operator paused''))
           (bindS (ask (wo_resume W)) (\<lambda>resumed. ret (if resumed then Continue True else Stop True)))
       | Control.Running \<Rightarrow>
           thenS (if paused then set_status E JobStatus.Running None else ret ())
           (bindS (past_deadline E) (\<lambda>late.
             if late then
               bindS (gets job_progress) (\<lambda>p.
                 thenS (emit E JobEventKind.JobFinished None ''deadline exceeded'' p) (ret (Stop False)))
             else schedule_tick E W max_agents actor corr)))"
    using wait stop keeps_thenS [OF resume late] by (cases c) simp_all
qed

lemma run_loop_budget: "keeps (budgeted E b) (run_loop n E W max_agents actor corr paused)"
proof (induction n arbitrary: paused)
  case (Suc n)
  show ?case
    unfolding run_loop.simps
    by (rule keeps_bindS [OF tick_budget]) (auto intro: Suc.IH valid_ret split: flow.split)
qed (simp add: valid_raise)

lemma release_all_budget:
  "valid (budgeted E b)
     (bindS (gets (\<lambda>s. length (jh_agents (rn_handle s)))) (\<lambda>released.
      thenS (on_sv (\<lambda>sv. sv\<lparr>sv_cluster_agents := sv_cluster_agents sv - released\<rparr>))
     (bindS (gets job_progress) (\<lambda>p. thenS (emit E kind t d p) (ret fr)))))
     (\<lambda>_ s. fst (held s) = b) F"
  (is "valid _ ?m _ _")
proof -
  have "\<exists>s2. ?m s = (s2, Inr fr) \<and> fst (held s2) = b" if inv: "budgeted E b s" for s
  proof -
    let ?s1 = "s\<lparr>rn_sv := (rn_sv s)\<lparr>sv_cluster_agents :=
      sv_cluster_agents (rn_sv s) - length (jh_agents (rn_handle s))\<rparr>\<rparr>"
    obtain s2 where e: "emit E kind t d (job_progress ?s1) ?s1 = (s2, Inr ())" using emit_Ok by blast
    then have "?m s = (s2, Inr fr)"
      by (simp add: thenS_def [of "emit _ _ _ _ _"] bindS_def [of "emit _ _ _ _ _"] ret_def)
    moreover have "held s2 = held ?s1" using e steady_emit unfolding steady_def by (metis fst_conv)
    ultimately show ?thesis using inv by (simp add: budgeted_def held_def)
  qed
  then show ?thesis unfolding valid_def by fastforce
qed

lemma report_budget:
  "valid (budgeted E b) (report E W cancelled spawned) (\<lambda>_ s. fst (held s) = b) (budgeted E b)"
  unfolding report_def Let_def
  by (rule valid_bindS [OF keeps_steady], rule steady_basic,
      rule valid_bindS [OF keeps_steady], rule steady_basic,
      rule valid_thenS [OF keeps_steady], rule steady_handle,
      rule valid_thenS [OF keeps_steady], (intro steady_intro)[1],
      rule valid_bindS [OF keeps_steady], rule steady_basic,
      rule valid_thenS [OF keeps_steady], rule steady_set_status,
      rule valid_thenS [OF keeps_steady], rule steady_basic,
      rule valid_thenS [OF keeps_steady], rule steady_handle,
      rule release_all_budget)

lemma run_job_budget:
  assumes "budgeted E b s" "jh_agents (rn_handle s) = []" "tg_nodes (jh_graph (rn_handle s)) \<noteq> []"
    "run_job E W s = (s', r)"
  shows "r = Inr fr \<Longrightarrow> fst (held s') = b" "r = Inl e \<Longrightarrow> budgeted E b s'"
proof -
  have "(\<forall>fr. r = Inr fr \<longrightarrow> fst (held s') = b) \<and> (\<forall>e. r = Inl e \<longrightarrow> budgeted E b s')"
  proof (cases "is_finished (j_status (jh_job (rn_handle s)))")
    case True
    then have "s' = s" using assms(4) by (auto simp: run_job_def ret_def raise_def split: option.splits)
    with assms(1,2) show ?thesis by (simp add: budgeted_def held_def)
  next
    case False
    let ?h = "rn_handle s"
    let ?actor = "''coordinator:'' @ en_disp E (cc_node_id (en_config E))"
    let ?corr = "j_correlation_id (jh_job ?h)" and ?max = "jr_max_agents (j_request (jh_job ?h))"
    let ?rest = "\<lambda>spawned. bindS (run_loop (unat (cc_max_ticks (en_config E))) E W ?max ?actor ?corr False)
      (\<lambda>cancelled. finish E W cancelled spawned ?actor ?corr)"
    have rest: "valid (budgeted E b) (?rest n) (\<lambda>_ s. fst (held s) = b) (budgeted E b)" for n
      unfolding finish_def
      by (rule valid_bindS [OF run_loop_budget], rule valid_thenS [OF keeps_steady [OF steady_cancel_pending]],
          rule report_budget)
    obtain s1 r1 where s1: "set_status E JobStatus.Running None s = (s1, r1)" by fastforce
    have b1: "budgeted E b s1" using keeps_fst [OF keeps_steady [OF steady_set_status] assms(1)] s1 by (metis fst_conv)
    show ?thesis
    proof (cases r1)
      case (Inl e)
      with s1 False assms(4) b1 show ?thesis
        by (auto simp: run_job_def Let_def thenS_def bindS_def [of "set_status _ _ _"])
    next
      case (Inr u)
      from set_status_Ok [OF s1 [unfolded Inr]] have
        "jh_agents (rn_handle s1) = []" "tg_nodes (jh_graph (rn_handle s1)) \<noteq> []" using assms(2,3) by auto
      note b2 = provision_budget [OF b1 this, of ?max]
      have run: "run_job E W s = bindS (provision_agents E ?max) ?rest s1"
        using False s1 Inr by (simp add: run_job_def Let_def thenS_def bindS_def [of "set_status _ _ _"])
      obtain s2 r2 where s2: "provision_agents E ?max s1 = (s2, r2)" by fastforce
      show ?thesis
      proof (cases r2)
        case (Inl e)
        with run s2 assms(4) b2 show ?thesis by (auto simp: bindS_def)
      next
        case (Inr n)
        with run s2 assms(4) have "?rest n s2 = (s', r)" by (simp add: bindS_def [of "provision_agents _ _"])
        with validD [OF rest, of s2 n s' r] b2 s2 show ?thesis by auto
      qed
    qed
  qed
  then show "r = Inr fr \<Longrightarrow> fst (held s') = b" "r = Inl e \<Longrightarrow> budgeted E b s'" by blast+
qed

section \<open>Finding an agent\<close>

lemma kind_offered: "set (kind_capabilities k) \<subseteq> set (type_capabilities (agent_type_for k))"
  by (cases k) simp_all

lemma find_distinct:
  "distinct (map ad_id as) \<Longrightarrow> a \<in> set as \<Longrightarrow> find (\<lambda>b. ad_id b = ad_id a) as = Some a"
  by (induction as) auto

lemma update_agent_filter:
  "distinct (map ad_id as) \<Longrightarrow> a \<in> set as \<Longrightarrow> P a \<Longrightarrow> \<not> P (f a) \<Longrightarrow>
   length (filter P (update_agent (ad_id a) f as)) + 1 = length (filter P as)"
  by (induction as) auto

lemma update_agent_mem: "distinct (map ad_id as) \<Longrightarrow> a \<in> set as \<Longrightarrow> f a \<in> set (update_agent (ad_id a) f as)"
  by (induction as) auto

text \<open>The agent given to a task, and what the pool looks like afterwards.\<close>

definition assigned_from ::
  "TaskNode \<Rightarrow> AgentDescriptor list \<Rightarrow> AgentDescriptor list \<Rightarrow> AgentDescriptor \<Rightarrow> bool" where
  "assigned_from task pool pool' a \<longleftrightarrow>
     set (tn_required_capabilities task) \<subseteq> set (ad_capabilities a) \<and>
     ad_status a = AgentStatus.Running \<and> ad_current_task a = Some (tn_id task) \<and> a \<in> set pool' \<and>
     length pool' = length pool \<and>
     length (filter is_available pool') + 1 = length (filter is_available pool)"

lemma assign_found:
  assumes "distinct (map ad_id (jh_agents (rn_handle s)))" "a \<in> set (jh_agents (rn_handle s))" "can_run task a"
  shows "\<exists>s' b. assign E task s = (s', Inr (Some b)) \<and>
    assigned_from task (jh_agents (rn_handle s)) (jh_agents (rn_handle s')) b"
proof -
  let ?pool = "jh_agents (rn_handle s)"
  obtain sch chosen where sel: "select_agent (sv_scheduler (rn_sv s)) task ?pool = (sch, chosen)" by fastforce
  from boxed.choice_made [OF assms(2,3), of "sv_scheduler (rn_sv s)"] sel obtain i where i: "chosen = Some i" by auto
  from boxed.choice_fits [of "sv_scheduler (rn_sv s)" task ?pool i] sel i obtain c where
    c: "c \<in> set ?pool" "ad_id c = i" "can_run task c" by auto
  obtain now w where now: "en_now E (sv_world (rn_sv s)) = (now, w)" by fastforce
  have found: "find (\<lambda>a. ad_id a = i) ?pool = Some c" using find_distinct [OF assms(1) c(1)] c(2) by simp
  have st: "bindR (transition agent_machine (ad_status c) AgentStatus.Assigned)
      (\<lambda>st. transition agent_machine st AgentStatus.Running) = Inr AgentStatus.Running"
    using c(3) by (auto simp: can_run_def is_available_def transition_def can_transition_to_def agent_machine_def)
  let ?f = "busy now (tn_id task) AgentStatus.Running"
  have "\<exists>s'. assign E task s = (s', Inr (Some (?f c))) \<and> jh_agents (rn_handle s') = update_agent i ?f ?pool"
    using sel i found st c(2) now
    by (simp add: assign_def bindS_def [of "utc_now _"] utc_now_def ret_def)
  moreover have "assigned_from task ?pool (update_agent i ?f ?pool) (?f c)"
    using c update_agent_mem [OF assms(1) c(1), of ?f] update_agent_filter [OF assms(1) c(1), of is_available ?f]
    by (auto simp: assigned_from_def busy_def can_run_def is_available_def)
  ultimately show ?thesis by auto
qed

lemma assign_none:
  assumes "\<forall>a \<in> set (jh_agents (rn_handle s)). \<not> can_run task a"
  shows "\<exists>s'. assign E task s = (s', Inr None) \<and> rn_handle s' = rn_handle s \<and> sv_world (rn_sv s') = sv_world (rn_sv s)"
proof -
  have "snd (select_agent (sv_scheduler (rn_sv s)) task (jh_agents (rn_handle s))) = None"
    using boxed.no_choice_iff assms by blast
  then show ?thesis by (cases "select_agent (sv_scheduler (rn_sv s)) task (jh_agents (rn_handle s))")
      (simp add: assign_def ret_def)
qed

lemma spawn_agent_effect:
  assumes "spawn_agent E t s = (s', Inr a)"
  shows "rn_handle s' = rn_handle s" "ad_id a = fst (en_uuid E (sv_world (rn_sv s)))"
    "ad_capabilities a = type_capabilities t" "ad_status a = AgentStatus.Idle"
  using assms
  by (auto simp: spawn_agent_def bindS_def fresh_uuid_def utc_now_def gets_def liftR_def ret_def Let_def
      agent_new_def new_agent_descriptor_def transition_def can_transition_to_def agent_machine_def
      split: prod.splits)

lemma filter_list_update:
  "i < length xs \<Longrightarrow> P (xs ! i) \<Longrightarrow> P y \<Longrightarrow> length (filter P (xs[i := y])) = length (filter P xs)"
  by (induction xs arbitrary: i) (auto split: nat.split)

lemma respecialise_effect:
  assumes "a \<in> set (jh_agents (rn_handle s))" "is_available a" "distinct (map ad_id (jh_agents (rn_handle s)))"
    "fst (en_uuid E (sv_world (rn_sv s))) \<notin> ad_id ` set (jh_agents (rn_handle s))"
    "set (tn_required_capabilities task) \<subseteq> set (type_capabilities (agent_type_for (tn_kind task)))"
  shows "\<exists>s' b. respecialise E task s = (s', Inr True) \<and> b \<in> set (jh_agents (rn_handle s')) \<and> can_run task b \<and>
    distinct (map ad_id (jh_agents (rn_handle s'))) \<and>
    length (jh_agents (rn_handle s')) = length (jh_agents (rn_handle s)) \<and>
    length (filter is_available (jh_agents (rn_handle s'))) = length (filter is_available (jh_agents (rn_handle s)))"
proof -
  let ?pool = "jh_agents (rn_handle s)"
  from assms(1,2) obtain i where i: "position is_available ?pool = Some i"
    by (cases "position is_available ?pool") (auto simp: position_None_iff)
  note at = position_SomeD [OF i]
  obtain s1 b where b: "spawn_agent E (agent_type_for (tn_kind task)) s = (s1, Inr b)" using spawn_agent_Ok by blast
  note e = spawn_agent_effect [OF b]
  let ?s' = "s1\<lparr>rn_handle := (rn_handle s1)\<lparr>jh_agents := ?pool[i := b]\<rparr>\<rparr>"
  have "respecialise E task s = (?s', Inr True)"
    using i b e(1) by (simp add: respecialise_def bindS_def [of "spawn_agent _ _"] ret_def)
  moreover have "distinct (map ad_id (?pool[i := b]))"
    using assms(3,4) at e(2) by (simp add: map_update distinct_list_update)
  moreover have "is_available b" using e(4) by (simp add: is_available_def)
  ultimately show ?thesis
    using at assms(5) e(3) filter_list_update [of i ?pool is_available b]
    by (intro exI [of _ ?s'] exI [of _ b]) (auto simp: can_run_def set_update_memI)
qed

section \<open>Cancelling a job\<close>

lemma advance_allowed:
  assumes "node_at s i = Some n" "dst \<in> set (task_allowed (tn_state n))"
  shows "\<exists>s'. advance E i dst actor reason corr s = (s', Inr ()) \<and> moved E s i (tn_attempt n) dst s'"
proof -
  obtain s' r where "advance E i dst actor reason corr s = (s', r)" by fastforce
  with advance_effect [OF this] assms show ?thesis by auto
qed

lemma moved_job: "moved E s i a dst s' \<Longrightarrow> jh_job (rn_handle s') = jh_job (rn_handle s)"
  by (auto simp: moved_def essence_def)

lemma cancel_task_completes:
  assumes "node_at s i = Some n" "TaskState.Cancelled \<in> set (task_allowed (tn_state n))"
  shows "\<exists>s'. cancel_task E actor corr i s = (s', Inr ()) \<and> jh_job (rn_handle s') = jh_job (rn_handle s)"
proof (cases "tn_state n = TaskState.Running")
  case True
  from advance_allowed [OF assms(1), of TaskState.Failed E actor "''job_cancelled''" corr] True obtain s1 where
    s1: "advance E i TaskState.Failed actor ''job_cancelled'' corr s = (s1, Inr ())"
      "moved E s i (tn_attempt n) TaskState.Failed s1" by auto
  have "node_at s1 i = Some (n\<lparr>tn_attempt := tn_attempt n, tn_state := TaskState.Failed\<rparr>)"
    using moved_node [OF s1(2) assms(1)] by simp
  from advance_allowed [OF this, of TaskState.DeadLettered E actor "''job_cancelled''" corr] obtain s2 where
    "advance E i TaskState.DeadLettered actor ''job_cancelled'' corr s1 = (s2, Inr ())" "jh_job (rn_handle s2) = jh_job (rn_handle s1)"
    by (auto dest: moved_job)
  with True s1 moved_job [OF s1(2)] assms(1) show ?thesis
    by (auto simp: cancel_task_def node_at_def get_task_def thenS_def bindS_def [of "advance _ _ _ _ _ _"])
next
  case False
  with advance_allowed [OF assms, of E actor "''job_cancelled''" corr] assms(1) show ?thesis
    by (auto simp: cancel_task_def node_at_def get_task_def dest: moved_job)
qed

lemma cancel_tasks_complete:
  assumes "distinct ids" "\<forall>i \<in> set ids. \<exists>n. node_at s i = Some n \<and> TaskState.Cancelled \<in> set (task_allowed (tn_state n))"
  shows "\<exists>s'. forS ids (cancel_task E actor corr) s = (s', Inr ()) \<and> jh_job (rn_handle s') = jh_job (rn_handle s)"
  using assms
proof (induction ids arbitrary: s)
  case (Cons i ids)
  from Cons.prems(2) obtain n where "node_at s i = Some n" "TaskState.Cancelled \<in> set (task_allowed (tn_state n))" by auto
  from cancel_task_completes [OF this, of E actor corr] obtain s1 where
    s1: "cancel_task E actor corr i s = (s1, Inr ())" "jh_job (rn_handle s1) = jh_job (rn_handle s)" by blast
  have same: "node_at s1 k = node_at s k" if "k \<in> set ids" for k
    using cancel_task_Ok [OF s1(1)] that Cons.prems(1) by auto
  from Cons.IH [of s1] Cons.prems same obtain s2 where
    "forS ids (cancel_task E actor corr) s1 = (s2, Inr ())" "jh_job (rn_handle s2) = jh_job (rn_handle s1)" by auto
  with s1 show ?case by (simp add: thenS_def bindS_def)
qed (simp add: ret_def)

lemma cancel_pending_completes:
  assumes gi: "graph_inv (en_pg E) (jh_graph (rn_handle s))"
    and rest: "\<And>i n. node_at s i = Some n \<Longrightarrow> \<not> node_is_terminal n \<Longrightarrow> TaskState.Cancelled \<in> set (task_allowed (tn_state n))"
  shows "\<exists>s'. cancel_pending E actor corr True s = (s', Inr ()) \<and> jh_job (rn_handle s') = jh_job (rn_handle s)"
proof -
  let ?nodes = "tg_nodes (jh_graph (rn_handle s))"
  let ?pending = "filter (\<lambda>n. \<not> node_is_terminal n) (hm_values ?nodes)"
  have "map tn_id (hm_values ?nodes) = map fst ?nodes"
    using graph_nodes_list [OF gi] by (metis (no_types, lifting) fst_conv list.map_comp map_eq_conv comp_apply)
  then have "distinct (map tn_id (hm_values ?nodes))" using graph_invD(1) [OF gi] by (simp only:)
  then have "distinct (map tn_id ?pending)" by (rule distinct_map_filter)
  moreover have "\<exists>n. node_at s i = Some n \<and> TaskState.Cancelled \<in> set (task_allowed (tn_state n))"
    if "i \<in> set (map tn_id ?pending)" for i
  proof -
    from that obtain n where n: "n \<in> set (hm_values ?nodes)" "\<not> node_is_terminal n" "tn_id n = i" by auto
    then obtain k where "node_at s k = Some n"
      using hm_value_iff [OF graph_invD(1) [OF gi]] by (auto simp: node_at_def)
    with n(3) graph_invD(5) [OF gi] have "node_at s i = Some n" by (auto simp: node_at_def)
    with rest n(2) show ?thesis by blast
  qed
  ultimately obtain s1 where
    "forS (map tn_id ?pending) (cancel_task E actor corr) s = (s1, Inr ())" "jh_job (rn_handle s1) = jh_job (rn_handle s)"
    using cancel_tasks_complete [of "map tn_id ?pending" s E actor corr] by blast
  then show ?thesis
    by (simp add: cancel_pending_def thenS_def bindS_def [of "forS _ _"] on_sv_def modify_def)
qed

lemma set_status_allowed:
  assumes "dst \<in> set (job_allowed (j_status (jh_job (rn_handle s))))"
  shows "\<exists>s'. set_status E dst reason s = (s', Inr ())"
  using assms
  by (simp add: set_status_def bindS_def liftR_def utc_now_def thenS_def on_handle_def modify_def gets_def
      journal_record_state transition_def can_transition_to_def job_machine_def split: prod.split)

lemma bind_succeeds:
  assumes "\<exists>s' x. m s = (s', Inr x)"
    and "\<And>s' x. m s = (s', Inr x) \<Longrightarrow> \<exists>s'' y. k x s' = (s'', Inr y)"
  shows "\<exists>s'' y. bindS m k s = (s'', Inr y)"
  using assms by (fastforce simp: bindS_def)

lemma then_succeeds:
  assumes "\<exists>s' x. m s = (s', Inr x)"
    and "\<And>s' x. m s = (s', Inr x) \<Longrightarrow> \<exists>s'' y. k s' = (s'', Inr y)"
  shows "\<exists>s'' y. thenS m k s = (s'', Inr y)"
  unfolding thenS_def using assms by (rule bind_succeeds)

lemma ask_Ok: "\<exists>s' x. ask f s = (s', Inr x)"
  by (simp add: ask_def split: prod.split)

lemma update_Ok:
  "\<exists>s' x. gets f s = (s', Inr x)" "\<exists>s' x. on_handle g s = (s', Inr x)" "\<exists>s' x. on_sv h s = (s', Inr x)"
  "\<exists>s' x. journal_record E rec s = (s', Inr x)" "\<exists>s' x. ret y s = (s', Inr x)"
  by (simp_all add: gets_def on_handle_def on_sv_def journal_record_def modify_def ret_def)

lemma report_cancelled:
  assumes "JobStatus.Cancelled \<in> set (job_allowed (j_status (jh_job (rn_handle s))))"
  shows "\<exists>s' fr. report E W True spawned s = (s', Inr fr)"
proof -
  have fs: "final_status True cs = JobStatus.Cancelled" for cs by (simp add: final_status_def)
  have emits: "\<exists>s' x. emit E kind t d p s1 = (s', Inr x)" for kind t d p s1
    using emit_Ok [of E kind t d p s1] by blast
  have status: "\<exists>s' x. set_status E JobStatus.Cancelled reason s1 = (s', Inr x)"
    if "JobStatus.Cancelled \<in> set (job_allowed (j_status (jh_job (rn_handle s1))))" for reason s1
    using set_status_allowed [OF that] by blast
  show ?thesis
    unfolding report_def Let_def fs using assms
    by (intro bind_succeeds then_succeeds ask_Ok update_Ok emits status)
      (auto simp: gets_def ask_def on_handle_def modify_def ret_def split: prod.splits)
qed

lemma provision_completes:
  assumes pg: "petgraph_laws (en_pg E)" and gi: "graph_inv (en_pg E) (jh_graph (rn_handle s))"
    and "tg_nodes (jh_graph (rn_handle s)) \<noteq> []"
    "sv_cluster_agents (rn_sv s) + max max_agents 1 \<le> cc_max_cluster_agents (en_config E)"
  shows "\<exists>s' n. provision_agents E max_agents s = (s', Inr n)"
proof -
  let ?h = "rn_handle s"
  define types where "types = rank_types (with_required (jr_required_capabilities (j_request (jh_job ?h)))
    (demand_of (hm_values (tg_nodes (jh_graph ?h)))))"
  have types: "types \<noteq> []"
    using required_nonempty [OF demand_nonempty] assms(3) by (simp add: types_def rank_types_Nil)
  obtain ls where ls: "layers (en_pg E) (jh_graph ?h) = Inr ls"
    using petgraph_laws.order_exists [OF pg gi] by (auto simp: layers_def bindR_def)
  define target where "target = max (min (max (widest_layer ls) (length types)) max_agents) 1"
  have fits: "\<not> sv_cluster_agents (rn_sv s) + target > cc_max_cluster_agents (en_config E)"
    using assms(4) by (simp add: target_def)
  let ?s1 = "s\<lparr>rn_sv := (rn_sv s)\<lparr>sv_cluster_agents := sv_cluster_agents (rn_sv s) + target\<rparr>\<rparr>"
  from spawn_loop_Ok [of E "map (\<lambda>i. types ! (i mod length types)) [0..<target]" "[]" ?s1]
  obtain s2 agents where
    "spawn_loop E (map (\<lambda>i. types ! (i mod length types)) [0..<target]) [] ?s1 = (s2, Inr agents)" by auto
  with fits types ls show ?thesis
    unfolding target_def types_def
    by (simp add: provision_agents_def Let_def bindS_def [of "spawn_loop _ _ _"] ret_def)
qed

lemma cancelled_loop:
  assumes "fst (wo_control W (sv_world (rn_sv s))) = Control.Cancelled"
  shows "\<exists>s'. run_loop (Suc n) E W max_agents actor corr paused s = (s', Inr True) \<and> essence s' = essence s"
  using assms
  by (auto simp: tick_def observe_control_def bindS_def [of "ask _"] ask_def bindS_def [of "tick _ _ _ _ _ _"]
      bindS_def [of "bindS _ _"] bindS_def [of "thenS _ _"] ret_def essence_def split: prod.splits)

lemma run_job_cancelled:
  assumes pg: "petgraph_laws (en_pg E)" and gi: "graph_inv (en_pg E) (jh_graph (rn_handle s))"
    and rest: "\<And>i n. node_at s i = Some n \<Longrightarrow> \<not> node_is_terminal n \<Longrightarrow>
      TaskState.Cancelled \<in> set (task_allowed (tn_state n))"
    and live: "\<not> is_finished (j_status (jh_job (rn_handle s)))"
    and status: "JobStatus.Running \<in> set (job_allowed (j_status (jh_job (rn_handle s))))"
    and nodes: "tg_nodes (jh_graph (rn_handle s)) \<noteq> []"
    and room: "sv_cluster_agents (rn_sv s) + max (jr_max_agents (j_request (jh_job (rn_handle s)))) 1
      \<le> cc_max_cluster_agents (en_config E)"
    and ticks: "cc_max_ticks (en_config E) \<noteq> 0"
    and control: "\<And>w. fst (wo_control W w) = Control.Cancelled"
  shows "\<exists>s' fr. run_job E W s = (s', Inr fr) \<and> fr_status fr = JobStatus.Cancelled \<and>
    j_status (jh_job (rn_handle s')) = JobStatus.Cancelled \<and> all_terminal (jh_graph (rn_handle s'))"
proof -
  let ?actor = "''coordinator:'' @ en_disp E (cc_node_id (en_config E))"
  let ?corr = "j_correlation_id (jh_job (rn_handle s))" and ?max = "jr_max_agents (j_request (jh_job (rn_handle s)))"
  obtain s1 where s1: "set_status E JobStatus.Running None s = (s1, Inr ())" using set_status_allowed [OF status] by blast
  have e1: "jh_graph (rn_handle s1) = jh_graph (rn_handle s)" "j_request (jh_job (rn_handle s1)) = j_request (jh_job (rn_handle s))"
    "j_status (jh_job (rn_handle s1)) = JobStatus.Running" "sv_cluster_agents (rn_sv s1) = sv_cluster_agents (rn_sv s)"
    using set_status_Ok [OF s1] s1 steady_set_status [of E JobStatus.Running None]
    by (auto simp: apply_status_def steady_def held_def) (metis fst_conv)
  obtain s2 n where s2: "provision_agents E ?max s1 = (s2, Inr n)"
    using provision_completes [OF pg, of s1 ?max] gi nodes room e1 by auto
  have e2: "essence s2 = essence s1" using quiet_provision_agents s2 unfolding quiet_def by (metis fst_conv)
  obtain k where k: "unat (cc_max_ticks (en_config E)) = Suc k"
    using ticks by (metis not0_implies_Suc unat_eq_zero)
  obtain s3 where s3: "run_loop (Suc k) E W ?max ?actor ?corr False s2 = (s3, Inr True)" "essence s3 = essence s2"
    using cancelled_loop [OF control] by blast
  have g: "jh_graph (rn_handle s3) = jh_graph (rn_handle s)" "j_status (jh_job (rn_handle s3)) = JobStatus.Running"
    using e1 e2 s3(2) by (auto simp: essence_def)
  obtain s4 where s4: "cancel_pending E ?actor ?corr True s3 = (s4, Inr ())" "jh_job (rn_handle s4) = jh_job (rn_handle s3)"
    using cancel_pending_completes [of E s3 ?actor ?corr] gi rest by (auto simp: g node_at_def)
  obtain s5 fr where s5: "report E W True n s4 = (s5, Inr fr)"
    using report_cancelled [of s4 E W n] by (auto simp: s4(2) g(2))
  have fin: "finish E W True n ?actor ?corr s3 = (s5, Inr fr)"
    using s4 s5 by (simp add: finish_def thenS_def bindS_def)
  have "run_job E W s = (s5, Inr fr)"
    using live s1 s2 s3 fin k
    by (simp add: run_job_def Let_def thenS_def bindS_def gets_def del: run_loop.simps append_Cons)
  with finish_verdict [OF _ fin] gi show ?thesis by (auto simp: g verdict_def final_status_def)
qed

section \<open>Properties\<close>

text \<open>
  C22: a job never waits for a capability nobody has. While some agent of the pool is idle, asking for
  an agent always yields one that has every capability the task requires (an idle agent of another
  type is replaced if need be); it is marked as running the task, the pool keeps its size and has
  exactly one idle agent less. With no idle agent the request is declined and the pool is unchanged.
  The hypotheses are that agent identifiers are distinct and that the task asks for what its kind
  needs, as every planned task does.
\<close>

theorem idle_agent_suffices:
  fixes E :: "('v, 'g, 'j, 'w) Env" and s :: "('v, 'g, 'j, 'w) Run"
  assumes "distinct (map ad_id (jh_agents (rn_handle s)))"
    "fst (en_uuid E (sv_world (rn_sv s))) \<notin> ad_id ` set (jh_agents (rn_handle s))"
    "tn_required_capabilities task = kind_capabilities (tn_kind task)"
  shows "if \<exists>a \<in> set (jh_agents (rn_handle s)). is_available a
    then \<exists>s' b. acquire_agent E task s = (s', Ok (Some b)) \<and>
      assigned_from task (jh_agents (rn_handle s)) (jh_agents (rn_handle s')) b
    else \<exists>s'. acquire_agent E task s = (s', Ok None) \<and> rn_handle s' = rn_handle s"
proof -
  let ?pool = "jh_agents (rn_handle s)"
  have caps: "set (tn_required_capabilities task) \<subseteq> set (type_capabilities (agent_type_for (tn_kind task)))"
    using assms(3) kind_offered by simp
  consider (fits) a where "a \<in> set ?pool" "can_run task a"
    | (idle) a where "a \<in> set ?pool" "is_available a" "\<forall>a \<in> set ?pool. \<not> can_run task a"
    | (none) "\<forall>a \<in> set ?pool. \<not> is_available a" by blast
  then show ?thesis
  proof cases
    case fits
    then have "is_available a" by (simp add: can_run_def)
    with fits assign_found [OF assms(1) fits, of E] show ?thesis
      by (auto simp: acquire_agent_def bindS_def ret_def)
  next
    case idle
    from assign_none [OF idle(3), of E] obtain s1 where
      s1: "assign E task s = (s1, Inr None)" "rn_handle s1 = rn_handle s" "sv_world (rn_sv s1) = sv_world (rn_sv s)"
      by blast
    from respecialise_effect [of a s1 E task] idle assms s1 caps obtain s2 b where
      s2: "respecialise E task s1 = (s2, Inr True)" "b \<in> set (jh_agents (rn_handle s2))" "can_run task b"
        "distinct (map ad_id (jh_agents (rn_handle s2)))" "length (jh_agents (rn_handle s2)) = length ?pool"
        "length (filter is_available (jh_agents (rn_handle s2))) = length (filter is_available ?pool)" by auto
    from assign_found [OF s2(4,2,3), of E] obtain s3 c where
      "assign E task s2 = (s3, Inr (Some c))" "assigned_from task (jh_agents (rn_handle s2)) (jh_agents (rn_handle s3)) c"
      by blast
    with s1 s2 idle show ?thesis
      by (auto simp: acquire_agent_def bindS_def assigned_from_def)
  next
    case none
    then have "\<forall>a \<in> set ?pool. \<not> can_run task a" by (simp add: can_run_def)
    from assign_none [OF this, of E] obtain s1 where
      s1: "assign E task s = (s1, Inr None)" "rn_handle s1 = rn_handle s" by blast
    from none have "position is_available ?pool = None" by (simp add: position_None_iff)
    with s1(2) have "respecialise E task s1 = (s1, Inr False)" by (simp add: respecialise_def ret_def)
    with s1 none show ?thesis by (simp add: acquire_agent_def bindS_def ret_def)
  qed
qed

definition demo_pool :: "(TaskNode, list_graph, TaskNode JournalRecord list, nat) Run" where
  "demo_pool = \<lparr>rn_handle = (new_job_handle (new_job 0 1 0 demo_job_request) (new_graph list_pg 0) 8)
       \<lparr>jh_agents := [(new_agent_descriptor 5 0 AgentType.Planner 3 default_model_config)
         \<lparr>ad_status := AgentStatus.Idle\<rparr>]\<rparr>,
     rn_sv = co_sv (new_coordinator demo_cluster [] 0)\<rparr>"

theorem idle_agent_suffices_witness:
  "\<exists>s' b. acquire_agent demo_cluster (demo_task 1 []) demo_pool = (s', Ok (Some b)) \<and>
     Capability.Research \<in> set (ad_capabilities b) \<and> \<not> (\<exists>a \<in> set (jh_agents (rn_handle s')). is_available a)"
proof -
  have caps: "tn_required_capabilities (demo_task 1 []) = [Capability.Research]" "tn_kind (demo_task 1 []) = TaskKind.Work"
    by (simp_all add: demo_task_def with_dependencies_def new_task_def)
  have "\<exists>a \<in> set (jh_agents (rn_handle demo_pool)). is_available a"
    by (simp add: demo_pool_def is_available_def)
  with idle_agent_suffices [of demo_pool demo_cluster "demo_task 1 []"] show ?thesis
    by (simp add: demo_pool_def new_coordinator_def new_agent_descriptor_def caps assigned_from_def)
      (metis filter_empty_conv)
qed

section \<open>The verdict and the budget of a run\<close>

text \<open>An operator who has cancelled the job before it starts.\<close>

definition cancel_world :: "(TaskNode, nat) World" where
  "cancel_world = \<lparr>wo_text = ascii_text, wo_control = (\<lambda>w. (Control.Cancelled, w)), wo_resume = (\<lambda>w. (False, w)),
     wo_outcomes = (\<lambda>ds w. (None, w)), wo_elapsed_ms = (\<lambda>w. (0, w))\<rparr>"

lemma cancel_world_honest: "honest_outcomes cancel_world"
  by (simp add: honest_outcomes_def cancel_world_def)

lemma demo_cancelled_run:
  obtains s s' fr where "life demo_cluster (\<lambda>j rs. j = rs) cancel_world 0 s" "jh_agents (rn_handle s) = []"
    "tg_nodes (jh_graph (rn_handle s)) \<noteq> []" "sv_cluster_agents (rn_sv s) = 0"
    "j_status (jh_job (rn_handle s)) = JobStatus.Planning" "run_job demo_cluster cancel_world s = (s', Ok fr)"
    "fr_status fr = JobStatus.Cancelled"
proof -
  obtain c where c: "submit demo_cluster demo_job_request (new_coordinator demo_cluster [] 0) = (c, Ok 0)"
    using demo_submit by blast
  from submit_start [OF _ demo_fresh c] list_pg.petgraph_laws_axioms obtain h where
    h: "find_handle 0 c = Ok h" "jh_agents h = []" "j_status (jh_job h) = JobStatus.Planning"
      "j_request (jh_job h) = demo_job_request" "graph_inv list_pg (jh_graph h)" "tg_nodes (jh_graph h) \<noteq> []"
      "\<forall>i n. map_of (tg_nodes (jh_graph h)) i = Some n \<longrightarrow> tn_state n = TaskState.Created"
      "sv_cluster_agents (co_sv c) = 0" by (auto simp: new_coordinator_def)
  let ?s = "\<lparr>rn_handle = h, rn_sv = co_sv c\<rparr>"
  obtain s' fr where r: "run_job demo_cluster cancel_world ?s = (s', Ok fr)" "fr_status fr = JobStatus.Cancelled"
    using run_job_cancelled [of demo_cluster ?s cancel_world] h list_pg.petgraph_laws_axioms
    by (auto simp: node_at_def cancel_world_def default_coordinator_config_def demo_job_request_def)
  show ?thesis
    by (rule that [of ?s s' fr]) (use h r life.submitted [OF demo_fresh c h(1)] in simp_all)
qed

text \<open>
  C4: the verdict of a run. Whatever happened to the job before (runs that were cut short, restarts,
  other jobs), a run that returns a report leaves the job in a finished status that its tasks bear
  out: completed means that every task completed, failed that none did, partially completed that
  some did, and cancelled that no task is left open. The report is the one that is kept: asking for
  the job again returns it and changes nothing.
\<close>

theorem run_verdict:
  assumes "engine_env E H" "petgraph_laws (en_pg E)" "honest_outcomes W" "life E H W j s"
    and "\<not> is_finished (j_status (jh_job (rn_handle s)))" "run_job E W s = (s', Ok fr)"
  shows "j_status (jh_job (rn_handle s')) = fr_status fr \<and> is_finished (fr_status fr) \<and>
    (let tasks = set (hm_values (tg_nodes (jh_graph (rn_handle s')))) in
     (fr_status fr = JobStatus.Completed \<longrightarrow> (\<forall>n \<in> tasks. tn_state n = TaskState.Completed)) \<and>
     (fr_status fr = JobStatus.Failed \<longrightarrow> (\<forall>n \<in> tasks. tn_state n \<noteq> TaskState.Completed)) \<and>
     (fr_status fr = JobStatus.PartiallyCompleted \<longrightarrow> (\<exists>n \<in> tasks. tn_state n = TaskState.Completed)) \<and>
     (fr_status fr = JobStatus.Cancelled \<longrightarrow> all_terminal (jh_graph (rn_handle s')))) \<and>
    run_job E W s' = (s', Ok fr)"
proof -
  have inv: "run_inv E H j s" by (rule life_inv [OF assms(1-4)])
  from run_job_verdict [OF assms(1,3) inv assms(6,5)] obtain cancelled where
    v: "verdict cancelled (jh_graph (rn_handle s')) fr s'"
    "cancelled \<longrightarrow> all_terminal (jh_graph (rn_handle s'))" by blast
  then have st: "fr_status fr = final_status cancelled (counts (jh_graph (rn_handle s')))"
    "j_status (jh_job (rn_handle s')) = fr_status fr" "jh_final_result (rn_handle s') = Some fr"
    by (simp_all add: verdict_def)
  have fin: "is_finished (fr_status fr)" unfolding st(1) by (rule final_status_finished)
  then have "run_job E W s' = (s', Ok fr)"
    using st(2,3) by (simp add: run_job_def ret_def del: is_finished.simps)
  with fin st v(2) final_status_iff [of cancelled "jh_graph (rn_handle s')"] show ?thesis
    unfolding Let_def by (metis (no_types, lifting))
qed

theorem run_verdict_witness:
  "\<exists>s s' fr. life demo_cluster (\<lambda>j rs. j = rs) cancel_world 0 s \<and> run_job demo_cluster cancel_world s = (s', Ok fr) \<and>
     fr_status fr = JobStatus.Cancelled \<and> all_terminal (jh_graph (rn_handle s')) \<and>
     run_job demo_cluster cancel_world s' = (s', Ok fr)"
proof -
  obtain s s' fr where d: "life demo_cluster (\<lambda>j rs. j = rs) cancel_world 0 s" "jh_agents (rn_handle s) = []"
    "tg_nodes (jh_graph (rn_handle s)) \<noteq> []" "sv_cluster_agents (rn_sv s) = 0"
    "j_status (jh_job (rn_handle s)) = JobStatus.Planning" "run_job demo_cluster cancel_world s = (s', Ok fr)"
    "fr_status fr = JobStatus.Cancelled" by (rule demo_cancelled_run)
  from run_verdict [OF demo_cluster_env _ cancel_world_honest d(1) _ d(6)] d list_pg.petgraph_laws_axioms
  show ?thesis by (auto simp: Let_def)
qed



end
