(* ===== verification/CrashWindows.thy ===== *)
theory CrashWindows
  imports EngineProperties
begin

text \<open>
  What the protocol of the engine does not protect. A task is marked completed in the journal one
  record before its result is, and a job is marked finished one record before its report is: a
  process that dies between the two records leaves a task that counts as completed without a result,
  and a job that is finished without a report and can never be run again. The queue is shared by all
  jobs, and a job that dequeues a task of another one acknowledges it, so the other job waits for a
  task nobody holds.
\<close>

section \<open>Between two records\<close>

text \<open>The process dies after the transition to completed and before the result.\<close>

lemma completed_without_result:
  assumes "petgraph_laws pg" "well_founded_tasks tasks" "i \<in> task_ids tasks" "t_to tr = TaskState.Completed"
  shows "\<exists>h n. build_handle pg b (job_view [JournalRecord.JobPlanned job tasks,
      TaskTransitioned (j_id job) tr i attempt] (j_id job)) = Ok h \<and>
    map_of (tg_nodes (jh_graph h)) i = Some n \<and> tn_state n = TaskState.Completed \<and> jh_results h = []"
proof -
  obtain graph where g: "rebuild_graph pg (j_id job) tasks = Ok graph"
    using petgraph_laws.rebuild_graph_complete [OF assms(1,2)] by blast
  from petgraph_laws.rebuild_graph_Ok [OF assms(1) g] obtain ts where
    ts: "holds_tasks pg ts graph" "mset ts = mset tasks" by blast
  have "task_ids ts = task_ids tasks" using ts(2) by (metis set_mset_mset task_ids_def)
  with holds_tasks_dom [OF ts(1)] assms(3) obtain n where "map_of (tg_nodes graph) i = Some n" by blast
  with g assms(4) show ?thesis
    by (simp add: build_handle_def job_view_def default_recovering_def restore_state_def update_task_def
        update_conv' state_is_terminal_def Let_def)
qed

text \<open>The process dies after the job was marked as finished and before the report.\<close>

lemma finished_without_report:
  assumes "petgraph_laws pg" "well_founded_tasks tasks" "is_finished st"
  shows "\<exists>h. build_handle pg b (job_view [JournalRecord.JobPlanned job tasks,
      JobStatusChanged (j_id job) st reason now] (j_id job)) = Ok h \<and>
    is_finished (j_status (jh_job h)) \<and> jh_final_result h = None"
  using petgraph_laws.rebuild_graph_complete [OF assms(1,2), of "j_id job"] assms(3)
  by (auto simp: build_handle_def job_view_def default_recovering_def rewind_job_def simp del: is_finished.simps)

lemma never_run_again:
  assumes "is_finished (j_status (jh_job (rn_handle s)))" "jh_final_result (rn_handle s) = None"
  shows "run_job E W s = (s, Err (Internal ''job finished without a result''))"
  using assms by (simp add: run_job_def raise_def del: is_finished.simps)

section \<open>A queue shared by jobs\<close>

text \<open>The only pending task is one the job does not know: asking for work takes it out of the queue.\<close>

lemma foreign_task_dropped:
  fixes s :: "('v, 'g, 'j, 'w) Run"
  assumes "sv_queue (rn_sv s) = new_queue\<lparr>q_ready := [qt]\<rparr>" "\<And>w. en_now E w = (now, w)"
    and "qt_available_at qt \<le> now" "now < now + ms (as_i64 (qt_lease_duration_ms qt))"
    and "en_from_value E (qt_payload qt) = Inr t" "map_of (tg_nodes (jh_graph (rn_handle s))) (tn_id t) = None"
  shows "\<exists>s'. collect_loop E worker actor corr 1 [] s = (s', Ok []) \<and>
    q_ready (sv_queue (rn_sv s')) = [] \<and> q_leases (sv_queue (rn_sv s')) = [] \<and> q_dead (sv_queue (rn_sv s')) = []"
  using assms
  by (cases "en_uuid E (sv_world (rn_sv s))")
    (auto simp: bindS_def fresh_uuid_def queue_op_def utc_now_def Let_def dequeue_from_def pick_def
      eligible_def is_visible_def matches_capabilities_def new_queue_def decode_task_def liftR_def gets_def
      get_task_def ret_def acknowledge_def take_lease_def lease_is_expired_def thenS_def ignoring_def
      transition_def can_transition_to_def lease_machine_def swap_remove_def)

end
