(* ===== verification/MockProvider.thy ===== *)
theory MockProvider
  imports GatewayProperties Journal
begin

text \<open>
  The deterministic provider (\<open>crates/model-gateway/src/mock.rs\<close>): injected failures, scripted and
  synthesised answers, token streams and the health probe, and its use behind the gateway. Rendering
  JSON values is the business of \<open>serde_json\<close> and, like the formatting of floating-point numbers, a
  parameter (\<open>mock_ops\<close>); arithmetic on \<open>f64\<close> is over the reals. The time a call took is an argument
  of the call.
\<close>

section \<open>Configuration and counters\<close>

record MockProvider =
  mk_name :: string
  mk_pricing :: ModelPricing
  mk_latency :: nat
  mk_fail_first :: u64
  mk_fail_every :: "u64 option"
  mk_always_fail :: bool
  mk_scripted :: "(string \<times> string) list"
  mk_calls :: u64
  mk_failures :: u64
  mk_healthy :: bool

definition new_mock :: "string \<Rightarrow> MockProvider" where
  "new_mock name =
     \<lparr>mk_name = name, mk_pricing = default_pricing, mk_latency = 0, mk_fail_first = 0, mk_fail_every = None,
      mk_always_fail = False, mk_scripted = [], mk_calls = 0, mk_failures = 0, mk_healthy = True\<rparr>"

definition default_mock :: MockProvider where
  "default_mock = new_mock ''mock''"

definition with_latency :: "nat \<Rightarrow> MockProvider \<Rightarrow> MockProvider" where
  "with_latency latency m = m\<lparr>mk_latency := latency\<rparr>"

definition with_pricing :: "ModelPricing \<Rightarrow> MockProvider \<Rightarrow> MockProvider" where
  "with_pricing pricing m = m\<lparr>mk_pricing := pricing\<rparr>"

definition failing_first :: "u64 \<Rightarrow> MockProvider \<Rightarrow> MockProvider" where
  "failing_first n m = m\<lparr>mk_fail_first := n\<rparr>"

definition failing_every :: "u64 \<Rightarrow> MockProvider \<Rightarrow> MockProvider" where
  "failing_every n m = m\<lparr>mk_fail_every := Some (max n 1)\<rparr>"

definition always_failing :: "MockProvider \<Rightarrow> MockProvider" where
  "always_failing m = m\<lparr>mk_always_fail := True, mk_healthy := False\<rparr>"

definition scripted :: "string \<Rightarrow> string \<Rightarrow> MockProvider \<Rightarrow> MockProvider" where
  "scripted needle response m = m\<lparr>mk_scripted := mk_scripted m @ [(needle, response)]\<rparr>"

definition set_healthy :: "bool \<Rightarrow> MockProvider \<Rightarrow> MockProvider" where
  "set_healthy healthy m = m\<lparr>mk_healthy := healthy\<rparr>"

definition should_fail :: "u64 \<Rightarrow> MockProvider \<Rightarrow> bool" where
  "should_fail call_index m \<longleftrightarrow>
     mk_always_fail m \<or> call_index < mk_fail_first m \<or>
     (case mk_fail_every m of None \<Rightarrow> False | Some n \<Rightarrow> (call_index + 1) mod n = 0)"

section \<open>Answers\<close>

record 'v mock_ops =
  mo_object :: "(string \<times> 'v) list \<Rightarrow> 'v"
  mo_array :: "'v list \<Rightarrow> 'v"
  mo_string :: "string \<Rightarrow> 'v"
  mo_float :: "real \<Rightarrow> 'v"
  mo_to_string :: "'v \<Rightarrow> string"
  mo_fixed2 :: "real \<Rightarrow> string"

definition SUMMARIES :: "string list" where
  "SUMMARIES =
     [''the evidence points one way, with one caveat'',
      ''two independent sources agree on the main claim'',
      ''the mainstream answer holds, with a known exception'',
      ''the result is well supported but narrow in scope'']"

definition ANGLES :: "string list list" where
  "ANGLES =
     [[''the mechanism is well documented'', ''the failure mode is understood'',
       ''the trade-off is latency against durability''],
      [''the primary source is unambiguous'', ''a secondary source disagrees on scope'',
       ''the practical impact is small''],
      [''the approach is standard practice'', ''the cost grows with coordination'',
       ''measurement matters more than intuition''],
      [''the constraint binds only under load'', ''the simple version is usually enough'',
       ''the edge case needs an explicit test'']]"

text \<open>\<open>str::lines\<close> breaks a text the way \<open>BufRead::lines\<close> does.\<close>

definition topic_of :: "string \<Rightarrow> string" where
  "topic_of prompt =
     (let lines = lines_from [] prompt;
          candidate =
            (case List.map_filter (\<lambda>line. strip_prefix ''Task:'' (trim line)) lines of
               found # _ \<Rightarrow> found
             | [] \<Rightarrow> (case lines of [] \<Rightarrow> ''the objective'' | line # _ \<Rightarrow> line));
          trimmed = str_join '' '' (take 12 (split_whitespace candidate))
      in if trimmed = [] then ''the objective'' else trimmed)"

text \<open>\<open>{:x}\<close>: hexadecimal digits without leading zeros.\<close>

definition hex_short :: "u64 \<Rightarrow> string" where
  "hex_short w = (if w = 0 then ''0'' else dropWhile (\<lambda>c. c = CHR ''0'') (hex16 w))"

definition round_half_up :: "real \<Rightarrow> real" where
  "round_half_up x = of_int \<lfloor>x + 1 / 2\<rfloor>"

definition mock_confidence :: "u64 \<Rightarrow> real" where
  "mock_confidence seed = 60 / 100 + real (unat (seed mod 35)) / 100"

definition mock_findings :: "string \<Rightarrow> u64 \<Rightarrow> string list" where
  "mock_findings topic seed =
     map (\<lambda>angle. topic @ '': '' @ angle) (ANGLES ! unat (seed mod of_nat (length ANGLES)))"

definition mock_summary :: "string \<Rightarrow> u64 \<Rightarrow> string" where
  "mock_summary topic seed = topic @ '': '' @ SUMMARIES ! unat (seed mod of_nat (length SUMMARIES))"

definition mock_evidence :: "'v mock_ops \<Rightarrow> u64 \<Rightarrow> nat \<times> string \<Rightarrow> 'v" where
  "mock_evidence J seed = (\<lambda>(index, finding). mo_object J
     [(''source'', mo_string J (''mock://corpus/'' @ hex_short seed @ ''/'' @ dec index)),
      (''claim'', mo_string J finding),
      (''support'', mo_float J (real (unat (drop_bit (index * 3) seed mod 30)) / 100 + 65 / 100))])"

definition synthesize :: "'v mock_ops \<Rightarrow> MockProvider \<Rightarrow> CompletionRequest \<Rightarrow> string" where
  "synthesize J m request =
     (let prompt = last_user_message request in
      case find (\<lambda>(needle, _). str_contains prompt needle) (mk_scripted m) of
        Some (_, answer) \<Rightarrow> answer
      | None \<Rightarrow>
          (let topic = topic_of prompt; seed = stable_hash prompt; confidence = mock_confidence seed;
               findings = mock_findings topic seed;
               reasoning = ''Considered '' @ dec (length findings) @ '' angles on `'' @ topic @
                 ''` and kept the ones that agreed.''
           in if cr_json_mode request then
                mo_to_string J (mo_object J
                  [(''summary'', mo_string J (mock_summary topic seed)),
                   (''findings'', mo_array J (map (mo_string J) findings)),
                   (''confidence'', mo_float J (round_half_up (confidence * 100) / 100)),
                   (''evidence'', mo_array J (map (mock_evidence J seed) (enumerate 0 findings))),
                   (''reasoning_summary'', mo_string J reasoning)])
              else
                mock_summary topic seed @ [newline, newline] @
                concat (map (\<lambda>finding. ''- '' @ finding @ [newline]) findings) @
                [newline] @ ''Confidence: '' @ mo_fixed2 J confidence @ [newline] @ reasoning))"

section \<open>The provider\<close>

definition mock_complete ::
  "'v mock_ops \<Rightarrow> u64 \<Rightarrow> CompletionRequest \<Rightarrow> MockProvider \<Rightarrow>
   MockProvider \<times> (SwarmError + CompletionResponse)" where
  "mock_complete J elapsed_ms request m =
     (let call_index = mk_calls m; m1 = m\<lparr>mk_calls := call_index + 1\<rparr> in
      if should_fail call_index m then
        (m1\<lparr>mk_failures := mk_failures m + 1\<rparr>,
         Inl (Provider (mk_name m) (''injected failure on call '' @ dec (unat (call_index + 1)))))
      else
        (let answer = synthesize J m request;
             tokens_in = estimated_prompt_tokens request;
             tokens_out = of_nat (length (split_whitespace answer))
         in (m1, Inr \<lparr>rs_text = answer, rs_provider = mk_name m, rs_model = cr_model request,
               rs_tokens_in = tokens_in, rs_tokens_out = tokens_out,
               rs_cost_usd = pricing_cost (mk_pricing m) tokens_in tokens_out,
               rs_latency_ms = elapsed_ms, rs_cached = False, rs_finish_reason = ''stop''\<rparr>)))"

record TokenChunk =
  tc_text :: string
  tc_last :: bool

text \<open>\<open>str::split_inclusive\<close>: every piece keeps its separator, and nothing follows the last one.\<close>

fun split_inclusive :: "char \<Rightarrow> string \<Rightarrow> string list" where
  "split_inclusive sep [] = []"
| "split_inclusive sep (c # s) =
     (if c = sep then [c] # split_inclusive sep s
      else case split_inclusive sep s of [] \<Rightarrow> [[c]] | piece # pieces \<Rightarrow> (c # piece) # pieces)"

definition chunks_of :: "string \<Rightarrow> TokenChunk list" where
  "chunks_of answer =
     (let chunks = split_inclusive (CHR '' '') answer; last_index = length chunks - 1 in
      map (\<lambda>(index, piece). \<lparr>tc_text = piece, tc_last = (index = last_index)\<rparr>) (enumerate 0 chunks))"

definition mock_stream ::
  "'v mock_ops \<Rightarrow> u64 \<Rightarrow> CompletionRequest \<Rightarrow> MockProvider \<Rightarrow>
   MockProvider \<times> (SwarmError + TokenChunk list)" where
  "mock_stream J elapsed_ms request m =
     (case mock_complete J elapsed_ms request m of
        (m', Inl e) \<Rightarrow> (m', Inl e)
      | (m', Inr response) \<Rightarrow> (m', Inr (chunks_of (rs_text response))))"

definition mock_health_check :: "MockProvider \<Rightarrow> MockProvider \<times> (SwarmError + ProviderHealth)" where
  "mock_health_check m =
     (m, Inr \<lparr>ph_provider = mk_name m, ph_healthy = mk_healthy m,
        ph_latency_ms = of_nat (mk_latency m div 1000000), ph_circuit_open = False, ph_detail = None\<rparr>)"

text \<open>
  As a \<open>ModelProvider\<close> of the gateway: the world is the provider's own state and the rest of the
  world, which says how long the calls take. Every model is served, by the default of the trait.
\<close>

definition mock_provider ::
  "'v mock_ops \<Rightarrow> ('x \<Rightarrow> u64) \<Rightarrow> string \<Rightarrow> (MockProvider \<times> 'x, TokenChunk list) ModelProvider" where
  "mock_provider J elapsed name =
     \<lparr>pv_name = name,
      pv_complete = (\<lambda>r (m, x). case mock_complete J (elapsed x) r m of (m', res) \<Rightarrow> ((m', x), res)),
      pv_stream = (\<lambda>r (m, x). case mock_stream J (elapsed x) r m of (m', res) \<Rightarrow> ((m', x), res)),
      pv_health_check = (\<lambda>(m, x). case mock_health_check m of (m', res) \<Rightarrow> ((m', x), res)),
      pv_supports_model = (\<lambda>_. True)\<rparr>"

section \<open>Streams\<close>

lemma concat_split_inclusive: "concat (split_inclusive sep s) = s"
  by (induction sep s rule: split_inclusive.induct) (auto split: list.splits)

lemma split_inclusive_pieces: "piece \<in> set (split_inclusive sep s) \<Longrightarrow> piece \<noteq> [] \<and> sep \<notin> set (butlast piece)"
  by (induction sep s arbitrary: piece rule: split_inclusive.induct) (auto split: list.splits if_splits)

lemma chunks_text: "map tc_text (chunks_of s) = split_inclusive (CHR '' '') s"
  by (simp add: chunks_of_def Let_def comp_def case_prod_unfold enumerate_eq_zip)

lemma chunks_last:
  assumes "i < length (chunks_of s)"
  shows "tc_last (chunks_of s ! i) \<longleftrightarrow> Suc i = length (chunks_of s)"
  using assms by (auto simp: chunks_of_def Let_def case_prod_unfold nth_enumerate_eq)

text \<open>
  C29: streaming loses nothing. A stream of the provider carries exactly the answer a plain call would
  have returned: it fails when the call fails, with the same error, and otherwise the texts of its
  chunks, put together, are the answer byte for byte; no chunk is empty, a chunk has no blank but
  at its end, and exactly the last chunk is marked as the last.
\<close>

theorem stream_reassembles:
  "case mock_complete J elapsed_ms r m of
     (m', Inl e) \<Rightarrow> mock_stream J elapsed_ms r m = (m', Inl e)
   | (m', Inr response) \<Rightarrow> (\<exists>chunks. mock_stream J elapsed_ms r m = (m', Inr chunks) \<and>
       concat (map tc_text chunks) = rs_text response \<and>
       list_all (\<lambda>chunk. tc_text chunk \<noteq> [] \<and> CHR '' '' \<notin> set (butlast (tc_text chunk))) chunks \<and>
       map tc_last chunks = replicate (length chunks - 1) False @ (if chunks = [] then [] else [True]))"
proof -
  have flags: "map tc_last (chunks_of s) =
      replicate (length (chunks_of s) - 1) False @ (if chunks_of s = [] then [] else [True])" for s
    by (rule nth_equalityI) (auto simp: chunks_last nth_append)
  have pieces: "list_all (\<lambda>chunk. tc_text chunk \<noteq> [] \<and> CHR '' '' \<notin> set (butlast (tc_text chunk))) (chunks_of s)" for s
    using split_inclusive_pieces [of _ "CHR '' ''" s] by (simp add: chunks_text [symmetric] list_all_iff)
  obtain m' res where res: "mock_complete J elapsed_ms r m = (m', res)" by fastforce
  show ?thesis
  proof (cases res)
    case (Inr response)
    have "concat (map tc_text (chunks_of (rs_text response))) = rs_text response"
      by (simp add: chunks_text concat_split_inclusive)
    with flags [of "rs_text response"] pieces [of "rs_text response"] Inr res show ?thesis
      by (simp add: mock_stream_def del: map_append)
  qed (use res in \<open>simp add: mock_stream_def\<close>)
qed

section \<open>Behind the gateway\<close>

definition recovering :: "MockProvider \<Rightarrow> bool" where
  "recovering m \<longleftrightarrow> \<not> mk_always_fail m \<and> mk_fail_every m = None"

lemma recovering_call:
  assumes "recovering m"
  shows "mk_calls m < mk_fail_first m \<Longrightarrow> \<exists>e. mock_complete J el r m =
      (m\<lparr>mk_calls := mk_calls m + 1, mk_failures := mk_failures m + 1\<rparr>, Inl (Provider (mk_name m) e))"
    "\<not> mk_calls m < mk_fail_first m \<Longrightarrow> \<exists>response. rs_text response = synthesize J m r \<and>
      mock_complete J el r m = (m\<lparr>mk_calls := mk_calls m + 1\<rparr>, Inr response)"
  using assms by (auto simp: mock_complete_def should_fail_def recovering_def Let_def)

lemma mock_retry_step:
  "call_with_retries env cfg (mock_provider J el name) r a s (m, x) =
      (case mock_complete J (el x) r m of
         (m1, Inr response) \<Rightarrow> (count_request s, (m1, x), Inr response)
       | (m1, Inl err) \<Rightarrow>
          (let s2 = record_failure cfg (env_now env (m1, x)) name (count_request s) in
           if gc_max_attempts cfg \<le> a + 1 \<or> \<not> is_retryable err then (s2, (m1, x), Inl err)
           else call_with_retries env cfg (mock_provider J el name) r (a + 1) s2
                  (env_sleep env (retry_backoff cfg (a + 1)) (m1, x))))"
  by (subst call_with_retries.simps) (simp add: call_once_def mock_provider_def split: prod.split sum.split)

text \<open>
  With \<open>d\<close> calls left to fail and \<open>n\<close> attempts left, a retried call succeeds when \<open>d < n\<close>.
\<close>

lemma retries_until_recovered:
  assumes sleep: "\<And>ms m x. fst (env_sleep env ms (m, x)) = m"
    and "recovering m" "unat (mk_calls m) + max 1 (unat (gc_max_attempts cfg) - unat a) < 2 ^ 64"
      "unat a + 1 < 2 ^ 32"
  shows "\<exists>s' m' x' res. call_with_retries env cfg (mock_provider J el name) r a s (m, x) = (s', (m', x'), res) \<and>
    (let d = unat (mk_fail_first m) - unat (mk_calls m); n = max 1 (unat (gc_max_attempts cfg) - unat a) in
     unat (mk_calls m') = unat (mk_calls m) + min (d + 1) n \<and>
     (if d < n then \<exists>response. res = Inr response \<and> rs_text response = synthesize J m r
      else \<exists>e. res = Inl (Provider (mk_name m) e)))"
  using assms(2-4)
proof (induction "unat (gc_max_attempts cfg) - unat a" arbitrary: a m x s rule: less_induct)
  case less
  let ?M = "unat (gc_max_attempts cfg)" and ?p = "mock_provider J el name"
  have up: "unat (mk_calls m + 1) = unat (mk_calls m) + 1"
    using less.prems(2) by (simp add: unat_word_ariths(1))
  have a1: "unat (a + 1) = unat a + 1" using less.prems(3) by (simp add: unat_word_ariths(1))
  note step = mock_retry_step [of env cfg J el name r a s m x]
  show ?case
  proof (cases "mk_calls m < mk_fail_first m")
    case False
    with recovering_call(2) [OF less.prems(1) False, of J r "el x"] up step show ?thesis
      by (auto simp: word_less_nat_alt Let_def)
  next
    case True
    let ?m1 = "m\<lparr>mk_calls := mk_calls m + 1, mk_failures := mk_failures m + 1\<rparr>"
    from recovering_call(1) [OF less.prems(1) True] obtain e where
      e: "mock_complete J (el x) r m = (?m1, Inl (Provider (mk_name m) e))" by blast
    have lt: "unat (mk_calls m) < unat (mk_fail_first m)" using True by (simp add: word_less_nat_alt)
    show ?thesis
    proof (cases "gc_max_attempts cfg \<le> a + 1")
      case True
      then have "?M \<le> unat a + 1" by (simp add: word_le_nat_alt a1)
      with True step e up lt show ?thesis by (auto simp: Let_def)
    next
      case False
      then have M: "unat a + 1 < ?M" by (simp add: word_le_nat_alt a1)
      let ?s2 = "record_failure cfg (env_now env (?m1, x)) name (count_request s)"
      obtain x1 where x1: "env_sleep env (retry_backoff cfg (a + 1)) (?m1, x) = (?m1, x1)"
        using sleep [of "retry_backoff cfg (a + 1)" ?m1 x] by (metis prod.collapse)
      have "?M < 2 ^ 32" using unsigned_less [of "gc_max_attempts cfg", where 'a = nat] by simp
      then have bounds: "recovering ?m1" "unat (a + 1) + 1 < 2 ^ 32" "?M - unat (a + 1) < ?M - unat a"
        "unat (mk_calls ?m1) + max 1 (?M - unat (a + 1)) < 2 ^ 64"
        using less.prems M by (simp_all add: recovering_def a1 up)
      from less.hyps [OF bounds(3,1,4,2), of ?s2 x1] obtain s' m' x' res where
        ih: "call_with_retries env cfg ?p r (a + 1) ?s2 (?m1, x1) = (s', (m', x'), res)"
        "let d = unat (mk_fail_first m) - (unat (mk_calls m) + 1); n = max 1 (?M - (unat a + 1)) in
         unat (mk_calls m') = unat (mk_calls m) + 1 + min (d + 1) n \<and>
         (if d < n then \<exists>response. res = Inr response \<and> rs_text response = synthesize J ?m1 r
          else \<exists>e. res = Inl (Provider (mk_name m) e))"
        unfolding Let_def by (auto simp: a1 up cong: if_cong)
      have run: "call_with_retries env cfg ?p r a s (m, x) = (s', (m', x'), res)"
        using step e False x1 ih(1) by (simp add: Let_def)
      have same: "synthesize J ?m1 r = synthesize J m r" by (simp add: synthesize_def Let_def)
      have "max 1 (?M - unat a) = Suc (max 1 (?M - (unat a + 1)))"
        "unat (mk_fail_first m) - unat (mk_calls m) = Suc (unat (mk_fail_first m) - (unat (mk_calls m) + 1))"
        using M lt by simp_all
      with ih(2) show ?thesis unfolding run same Let_def by simp
    qed
  qed
qed

text \<open>
  C19: retries outlast a provider that recovers. A fresh gateway in front of a provider that fails its
  first \<open>k\<close> calls answers a request exactly when \<open>k\<close> is below the number of attempts (at least one is
  always made). It then returns the provider's answer after \<open>k + 1\<close> calls; otherwise it returns the
  provider's error after as many calls as there are attempts.
\<close>

theorem retries_outlast_recovery:
  fixes env :: "(MockProvider \<times> 'x) environment"
  assumes "\<And>ms m x. fst (env_sleep env ms (m, x)) = m" "gc_budget_usd cfg = None"
    and "mk_calls m = 0" "mk_fail_every m = None" "\<not> mk_always_fail m"
  shows "\<exists>s' m' x' res.
    (let (g, s) = and_provider (mock_provider J el (mk_name m)) (new_gateway cfg) in
     gateway_complete env g r s (m, x)) = (s', (m', x'), res) \<and>
    (let k = unat (mk_fail_first m); n = max 1 (unat (gc_max_attempts cfg)) in
     unat (mk_calls m') = min (k + 1) n \<and>
     (if k < n then \<exists>response. res = Ok response \<and> rs_text response = synthesize J m r
      else \<exists>e. res = Err (Provider (mk_name m) e)))"
proof -
  let ?p = "mock_provider J el (mk_name m)"
  have "unat (gc_max_attempts cfg) < 2 ^ 32"
    using unsigned_less [of "gc_max_attempts cfg", where 'a = nat] by simp
  then have "unat (mk_calls m) + max 1 (unat (gc_max_attempts cfg) - unat (0 :: u32)) < 2 ^ 64"
    using assms(3) by simp
  from retries_until_recovered [where env = env and J = J and el = el and name = "mk_name m" and r = r and x = x,
      OF assms(1) _ this] assms(3-5)
  obtain s' m' x' res where c: "call_with_retries env cfg ?p r 0 (snd (and_provider ?p (new_gateway cfg))) (m, x) =
      (s', (m', x'), res)"
    "let k = unat (mk_fail_first m); n = max 1 (unat (gc_max_attempts cfg)) in
     unat (mk_calls m') = min (k + 1) n \<and>
     (if k < n then \<exists>response. res = Inr response \<and> rs_text response = synthesize J m r
      else \<exists>e. res = Inl (Provider (mk_name m) e))"
    unfolding recovering_def Let_def by (fastforce cong: if_cong)
  obtain g s where gs: "and_provider ?p (new_gateway cfg) = (g, s)" by fastforce
  then have g: "gw_providers g = [?p]" "gw_config g = cfg" "gs_cache s = []"
      "map_of (gs_breakers s) (pv_name ?p) = Some new_breaker"
    by (auto simp: and_provider_def new_gateway_def)
  have call: "gateway_complete env g r s (m, x) = try_candidates env cfg r 0 [?p] None s (m, x)"
    using g assms(2) by (simp add: gateway_complete_def cache_hit_def over_budget_def mock_provider_def)
  have closed: "circuit_is_open cfg (env_now env (m, x)) (pv_name ?p) s = (s, False)"
    using g(4) by (simp add: circuit_is_open_def new_breaker_def)
  from c(1) have ret: "call_with_retries env cfg ?p r 0 s (m, x) = (s', (m', x'), res)" by (simp add: gs)
  show ?thesis
  proof (cases res)
    case (Inr response)
    with c(2) ret call closed gs show ?thesis by (auto simp: Let_def split: if_splits)
  next
    case (Inl e)
    with c(2) ret call closed gs show ?thesis by (auto simp: Let_def split: if_splits)
  qed
qed

theorem retries_outlast_recovery_witness:
  "let J = \<lparr>mo_object = concat \<circ> map snd, mo_array = concat, mo_string = id, mo_float = (\<lambda>_. ''1''),
        mo_to_string = id, mo_fixed2 = (\<lambda>_. ''0.60'')\<rparr> :: string mock_ops;
       env = \<lparr>env_now = (\<lambda>_. 0), env_sleep = (\<lambda>_ w. w)\<rparr> :: (MockProvider \<times> unit) environment;
       m = scripted ''ping'' ''pong'' (failing_first 2 default_mock);
       (g, s) = and_provider (mock_provider J (\<lambda>_. 0) (mk_name m)) (new_gateway default_gateway_config) in
   \<exists>s' m' x' response. gateway_complete env g (new_completion_request ''model'' [user_message ''ping'']) s (m, ()) =
     (s', (m', x'), Ok response) \<and> rs_text response = ''pong'' \<and> unat (mk_calls m') = 3"
proof -
  define J :: "string mock_ops" where
    "J = \<lparr>mo_object = concat \<circ> map snd, mo_array = concat, mo_string = id, mo_float = (\<lambda>_. ''1''),
        mo_to_string = id, mo_fixed2 = (\<lambda>_. ''0.60'')\<rparr>"
  let ?env = "\<lparr>env_now = (\<lambda>_. 0), env_sleep = (\<lambda>_ w. w)\<rparr> :: (MockProvider \<times> unit) environment"
  let ?m = "scripted ''ping'' ''pong'' (failing_first 2 default_mock)"
  let ?r = "new_completion_request ''model'' [user_message ''ping'']"
  have m: "mk_calls ?m = 0" "mk_fail_every ?m = None" "\<not> mk_always_fail ?m" "mk_fail_first ?m = 2" "mk_name ?m = ''mock''"
    by (simp_all add: scripted_def failing_first_def default_mock_def new_mock_def)
  have cfg: "gc_budget_usd default_gateway_config = None" "unat (gc_max_attempts default_gateway_config) = 3"
    by (simp_all add: default_gateway_config_def)
  have "synthesize J ?m ?r = ''pong''"
    by (simp add: synthesize_def scripted_def failing_first_def default_mock_def new_mock_def last_user_message_def
        new_completion_request_def user_message_def str_contains_def)
  with retries_outlast_recovery [of ?env default_gateway_config ?m J "\<lambda>_. 0" ?r "()"] m cfg show ?thesis
    unfolding J_def [symmetric] by (auto simp: Let_def)
qed

end
