(* ===== verification/ApiServer.thy ===== *)
theory ApiServer
  imports Engine Recovery Ids Gateway Journal
begin

text \<open>
  The HTTP ingress (\<open>crates/api-server\<close>): the mapping of errors to status codes, the handlers over
  the coordinator and the metrics page. Matching paths, reading and rendering JSON is the business of
  \<open>axum\<close> and \<open>serde\<close>: a handler receives its decoded arguments and returns the status and the value
  that is rendered. A handler that panics serves nothing. A job whose run is started in the background
  is reported beside the reply.
\<close>

section \<open>Errors\<close>

record ApiError =
  ae_status :: nat
  ae_kind :: string
  ae_message :: string

definition bad_request :: "string \<Rightarrow> ApiError" where
  "bad_request message = \<lparr>ae_status = 400, ae_kind = ''bad_request'', ae_message = message\<rparr>"

definition api_not_found :: "string \<Rightarrow> string \<Rightarrow> ApiError" where
  "api_not_found kind i =
     \<lparr>ae_status = 404, ae_kind = ''not_found'', ae_message = ''unknown '' @ kind @ '' `'' @ i @ ''`''\<rparr>"

fun error_status :: "SwarmError \<Rightarrow> nat" where
  "error_status (NotFound _ _) = 404"
| "error_status (Validation _) = 400"
| "error_status (InvalidId _ _) = 400"
| "error_status (UnknownDependency _ _) = 400"
| "error_status (CyclicGraph _) = 400"
| "error_status (InvalidTransition _ _ _) = 400"
| "error_status (QuotaExceeded _) = 429"
| "error_status (RateLimited _ _) = 429"
| "error_status (BudgetExceeded _) = 402"
| "error_status (SwarmError.Cancelled _) = 409"
| "error_status (VersionConflict _ _ _ _) = 409"
| "error_status (Timeout _) = 504"
| "error_status (Provider _ _) = 502"
| "error_status (CircuitOpen _) = 502"
| "error_status (Queue _) = 500"
| "error_status (Memory _) = 500"
| "error_status (Config _) = 500"
| "error_status (Internal _) = 500"

definition api_error :: "(uuid \<Rightarrow> string) \<Rightarrow> SwarmError \<Rightarrow> ApiError" where
  "api_error disp e = \<lparr>ae_status = error_status e, ae_kind = error_kind e, ae_message = error_text disp e\<rparr>"

text \<open>The outcome of a handler; \<open>served\<close> is the \<open>?\<close> of a handler that answers 200.\<close>

datatype 'a reply = Reply nat 'a | Refused ApiError | Crashed string

fun served :: "(uuid \<Rightarrow> string) \<Rightarrow> 'a result \<Rightarrow> 'a reply" where
  "served disp (Inr x) = Reply 200 x"
| "served disp (Inl (Fail e)) = Refused (api_error disp e)"
| "served disp (Inl (Panic m)) = Crashed m"

fun reply_status :: "'a reply \<Rightarrow> nat option" where
  "reply_status (Reply n _) = Some n"
| "reply_status (Refused e) = Some (ae_status e)"
| "reply_status (Crashed _) = None"

section \<open>Views\<close>

record Health =
  he_status :: string
  he_version :: string
  he_uptime_seconds :: u64

record SubmitResponse =
  sr_job_id :: JobId
  sr_status :: JobStatus
  sr_tasks_planned :: nat

record ClusterView =
  cv_node_id :: string
  cv_scheduler :: string
  cv_cluster_agents :: nat
  cv_max_cluster_agents :: nat
  cv_jobs_active :: nat
  cv_jobs_total :: nat
  cv_queue :: QueueStats
  cv_dead_letters :: nat
  cv_gateway :: Usage
  cv_providers :: "ProviderHealth list"

fun scheduler_debug :: "SchedulerKind \<Rightarrow> string" where
  "scheduler_debug SchedulerKind.RoundRobin = ''RoundRobin''"
| "scheduler_debug SchedulerKind.LeastLoaded = ''LeastLoaded''"
| "scheduler_debug SchedulerKind.CapabilityWeighted = ''CapabilityWeighted''"
| "scheduler_debug SchedulerKind.Adaptive = ''Adaptive''"

section \<open>Handlers\<close>

definition health :: "string \<Rightarrow> nat \<Rightarrow> Health" where
  "health version uptime_ns =
     \<lparr>he_status = ''ok'', he_version = version, he_uptime_seconds = of_nat (uptime_ns div 1000000000)\<rparr>"

definition jobs_active :: "JobStateView list \<Rightarrow> nat" where
  "jobs_active jobs = length (filter (\<lambda>job. \<not> is_finished (jv_status job)) jobs)"

definition cluster_view ::
  "('v, 'g, 'j, 'w) Env \<Rightarrow> DateTime \<Rightarrow> Usage \<Rightarrow> ProviderHealth list \<Rightarrow> ('v, 'g, 'j, 'w) Coordinator \<Rightarrow>
   ClusterView reply" where
  "cluster_view E now usage providers c =
     served (en_disp E)
       (bindR (stats now (sv_queue (co_sv c))) (\<lambda>queue.
        bindR (dead_letters (sv_queue (co_sv c))) (\<lambda>letters.
          Ok \<lparr>cv_node_id = en_disp E (cc_node_id (en_config E)),
              cv_scheduler = scheduler_debug (cc_scheduler (en_config E)),
              cv_cluster_agents = sv_cluster_agents (co_sv c),
              cv_max_cluster_agents = cc_max_cluster_agents (en_config E),
              cv_jobs_active = jobs_active (list_jobs c), cv_jobs_total = length (list_jobs c),
              cv_queue = queue, cv_dead_letters = length letters, cv_gateway = usage,
              cv_providers = providers\<rparr>)))"

definition submit_job ::
  "('v, 'g, 'j, 'w) Env \<Rightarrow> JobRequest \<Rightarrow> ('v, 'g, 'j, 'w) Coordinator \<Rightarrow>
   ('v, 'g, 'j, 'w) Coordinator \<times> SubmitResponse reply \<times> JobId option" where
  "submit_job E request c =
     (case submit E request c of
        (c1, Inl e) \<Rightarrow> (c1, served (en_disp E) (Inl e), None)
      | (c1, Inr job_id) \<Rightarrow>
          (case job_state job_id c1 of
             Inl e \<Rightarrow> (c1, served (en_disp E) (Inl e), None)
           | Inr view \<Rightarrow>
               (c1, Reply 202 \<lparr>sr_job_id = job_id, sr_status = jv_status view,
                       sr_tasks_planned = gc_total (jv_counts view)\<rparr>, Some job_id)))"

text \<open>\<open>job_id\<close>: a path segment that is not an identifier is a bad request.\<close>

definition parse_job_id :: "(string \<Rightarrow> string + uuid) \<Rightarrow> string \<Rightarrow> ApiError + JobId" where
  "parse_job_id parse raw =
     (case from_str parse ''job'' raw of
        Inr i \<Rightarrow> Inr i
      | Inl _ \<Rightarrow> Inl (bad_request (''`'' @ raw @ ''` is not a job id'')))"

definition on_job ::
  "(string \<Rightarrow> string + uuid) \<Rightarrow> string \<Rightarrow> (JobId \<Rightarrow> 'a reply) \<Rightarrow> 'a reply" where
  "on_job parse raw body = (case parse_job_id parse raw of Inl e \<Rightarrow> Refused e | Inr i \<Rightarrow> body i)"

definition get_job_state where
  "get_job_state E parse raw c = on_job parse raw (\<lambda>i. served (en_disp E) (job_state i c))"

definition get_job_graph where
  "get_job_graph E parse raw c = on_job parse raw (\<lambda>i. served (en_disp E) (task_graph i c))"

definition get_job_results where
  "get_job_results E parse raw c = on_job parse raw (\<lambda>i. served (en_disp E) (intermediate_results i c))"

definition get_job_failures where
  "get_job_failures E parse raw c = on_job parse raw (\<lambda>i. served (en_disp E) (job_failures i c))"

definition get_job_transitions where
  "get_job_transitions E parse raw c = on_job parse raw (\<lambda>i. served (en_disp E) (job_transitions i c))"

definition get_job_agents where
  "get_job_agents E parse raw c = on_job parse raw (\<lambda>i. served (en_disp E) (job_agents i c))"

definition get_job_final_result ::
  "('v, 'g, 'j, 'w) Env \<Rightarrow> (string \<Rightarrow> string + uuid) \<Rightarrow> string \<Rightarrow> ('v, 'g, 'j, 'w) Coordinator \<Rightarrow>
   'v FinalResult reply" where
  "get_job_final_result E parse raw c =
     on_job parse raw (\<lambda>i.
       case job_final_result i c of
         Inl e \<Rightarrow> served (en_disp E) (Inl e)
       | Inr None \<Rightarrow> Refused (api_not_found ''finished job'' raw)
       | Inr (Some fr) \<Rightarrow> Reply 200 fr)"

text \<open>
  The event stream: what the broadcast channel delivers, each event with its sequence number as its
  identifier; a gap the receiver fell behind (\<open>None\<close>) and an event that cannot be rendered are left
  out.
\<close>

definition sse_events ::
  "(JobEvent \<Rightarrow> string option) \<Rightarrow> JobEvent option list \<Rightarrow> (string \<times> string) list" where
  "sse_events render received =
     List.map_filter (\<lambda>received.
       case received of
         None \<Rightarrow> None
       | Some event \<Rightarrow> map_option (Pair (dec (unat (je_sequence_number event)))) (render event)) received"

definition get_job_events ::
  "('v, 'g, 'j, 'w) Env \<Rightarrow> (string \<Rightarrow> string + uuid) \<Rightarrow> (JobEvent \<Rightarrow> string option) \<Rightarrow> string \<Rightarrow>
   JobEvent option list \<Rightarrow> ('v, 'g, 'j, 'w) Coordinator \<Rightarrow> (string \<times> string) list reply" where
  "get_job_events E parse render raw received c =
     on_job parse raw (\<lambda>i. served (en_disp E)
       (bindR (find_handle i c) (\<lambda>_. Ok (sse_events render received))))"

definition control_job ::
  "('v, 'g, 'j, 'w) Env \<Rightarrow> (string \<Rightarrow> string + uuid) \<Rightarrow> (JobId \<Rightarrow> (('v, 'g, 'j, 'w) Coordinator, unit) op) \<Rightarrow>
   string \<Rightarrow> ('v, 'g, 'j, 'w) Coordinator \<Rightarrow> ('v, 'g, 'j, 'w) Coordinator \<times> JobId reply" where
  "control_job E parse action raw c =
     (case parse_job_id parse raw of
        Inl e \<Rightarrow> (c, Refused e)
      | Inr i \<Rightarrow> (case action i c of (c', r) \<Rightarrow> (c', served (en_disp E) (bindR r (\<lambda>_. Ok i)))))"

definition cancel_job where "cancel_job E parse = control_job E parse (cancel E)"
definition pause_job where "pause_job E parse = control_job E parse (pause E)"
definition resume_job where "resume_job E parse = control_job E parse (resume E)"

text \<open>The route table. Matching a path against it, with \<open>:id\<close> for one segment, is up to \<open>axum\<close>.\<close>

datatype Method = GET | POST

datatype Endpoint =
  HealthE | MetricsE | ClusterE | SubmitE | ListE | StateE | GraphE | ResultsE | FinalResultE | FailuresE
| TransitionsE | AgentsE | EventsE | CancelE | PauseE | ResumeE

definition router :: "((string \<times> Method) \<times> Endpoint) list" where
  "router =
     [((''/health'', GET), HealthE), ((''/metrics'', GET), MetricsE), ((''/v1/cluster'', GET), ClusterE),
      ((''/v1/jobs'', POST), SubmitE), ((''/v1/jobs'', GET), ListE), ((''/v1/jobs/:id'', GET), StateE),
      ((''/v1/jobs/:id/graph'', GET), GraphE), ((''/v1/jobs/:id/results'', GET), ResultsE),
      ((''/v1/jobs/:id/result'', GET), FinalResultE), ((''/v1/jobs/:id/failures'', GET), FailuresE),
      ((''/v1/jobs/:id/transitions'', GET), TransitionsE), ((''/v1/jobs/:id/agents'', GET), AgentsE),
      ((''/v1/jobs/:id/events'', GET), EventsE), ((''/v1/jobs/:id/cancel'', POST), CancelE),
      ((''/v1/jobs/:id/pause'', POST), PauseE), ((''/v1/jobs/:id/resume'', POST), ResumeE)]"

lemma router_unambiguous: "distinct (map fst router)" "distinct (map snd router)"
  by (simp_all add: router_def)

text \<open>Reading the configuration file: no path gives the defaults; an error names what was attempted.\<close>

definition load_config ::
  "(string \<Rightarrow> string + string) \<Rightarrow> (string \<Rightarrow> string + 'c) \<Rightarrow> 'c \<Rightarrow> string option \<Rightarrow> string + 'c" where
  "load_config read_to_string from_toml defaults path =
     (case path of
        None \<Rightarrow> Inr defaults
      | Some p \<Rightarrow>
          (case read_to_string p of
             Inl _ \<Rightarrow> Inl (''reading config '' @ p)
           | Inr content \<Rightarrow>
               (case from_toml content of Inl _ \<Rightarrow> Inl (''parsing config '' @ p) | Inr c \<Rightarrow> Inr c)))"

text \<open>
  \<open>main\<close>: with a journal file the jobs in it are recovered before anything is served; the server does
  not start when the file cannot be opened or read.
\<close>

definition boot ::
  "('v, 'g, 'j, 'w) Env \<Rightarrow> 'j \<Rightarrow> 'j result option \<Rightarrow> 'w \<Rightarrow> ('v, 'g, 'j, 'w) Coordinator result" where
  "boot E memory opened w =
     (case opened of
        None \<Rightarrow> Ok (new_coordinator E memory w)
      | Some (Inl e) \<Rightarrow> Inl e
      | Some (Inr jnl) \<Rightarrow>
          (case recover E (new_coordinator E jnl w) of
             (c, Inl e) \<Rightarrow> Inl e
           | (c, Inr recovered) \<Rightarrow> Ok c))"

section \<open>Metrics\<close>

definition metric :: "(real \<Rightarrow> string) \<Rightarrow> string \<Rightarrow> string \<Rightarrow> string \<Rightarrow> real \<Rightarrow> string" where
  "metric show_f64 kind name help v =
     ''# HELP '' @ name @ '' '' @ help @ [newline] @ ''# TYPE '' @ name @ '' '' @ kind @ [newline] @
     name @ '' '' @ show_f64 v @ [newline]"

definition metric_statuses :: "JobStatus list" where
  "metric_statuses =
     [JobStatus.Planning, JobStatus.Running, JobStatus.Paused, JobStatus.Completed,
      JobStatus.PartiallyCompleted, JobStatus.Failed, JobStatus.Cancelled]"

definition status_count :: "JobStateView list \<Rightarrow> JobStatus \<Rightarrow> nat" where
  "status_count jobs st = length (filter (\<lambda>job. jv_status job = st) jobs)"

definition render_metrics ::
  "(real \<Rightarrow> string) \<Rightarrow> DateTime \<Rightarrow> Usage \<Rightarrow> ('v, 'g, 'j, 'w) Coordinator \<Rightarrow> string" where
  "render_metrics show_f64 now usage c =
     (let queue = (case stats now (sv_queue (co_sv c)) of Inr q \<Rightarrow> q | Inl _ \<Rightarrow> default_queue_stats);
          letters = (case dead_letters (sv_queue (co_sv c)) of Inr ls \<Rightarrow> length ls | Inl _ \<Rightarrow> 0);
          jobs = list_jobs c;
          gauge = metric show_f64 ''gauge''; counter = metric show_f64 ''counter''
      in
      gauge ''swarm_jobs_active'' ''Jobs that have not reached a terminal state.'' (real (jobs_active jobs)) @
      gauge ''swarm_queue_ready'' ''Tasks visible to consumers right now.'' (real (qs_ready queue)) @
      gauge ''swarm_queue_delayed'' ''Tasks waiting on a delay or retry backoff.'' (real (qs_delayed queue)) @
      gauge ''swarm_queue_leased'' ''Tasks currently held under a lease.'' (real (qs_leased queue)) @
      gauge ''swarm_dead_letter_depth'' ''Tasks parked after exhausting their retries.'' (real letters) @
      gauge ''swarm_cluster_agents'' ''Agents allocated across every job on this coordinator.''
        (real (sv_cluster_agents (co_sv c))) @
      counter ''swarm_tasks_enqueued_total'' ''Tasks admitted to the queue.'' (real (unat (qs_enqueued_total queue))) @
      counter ''swarm_tasks_acknowledged_total'' ''Tasks acknowledged after a successful run.''
        (real (unat (qs_acknowledged_total queue))) @
      counter ''swarm_tasks_retried_total'' ''Task attempts re-queued after a failure or an expiry.''
        (real (unat (qs_retried_total queue))) @
      counter ''swarm_leases_expired_total'' ''Leases that lapsed before being acknowledged.''
        (real (unat (qs_expired_total queue))) @
      counter ''swarm_model_requests_total'' ''Model calls that reached a provider.'' (real (unat (us_requests usage))) @
      counter ''swarm_model_cache_hits_total'' ''Model calls served from the gateway cache.''
        (real (unat (us_cache_hits usage))) @
      counter ''swarm_model_failures_total'' ''Model calls that returned an error.'' (real (unat (us_failures usage))) @
      counter ''swarm_tokens_in_total'' ''Prompt tokens consumed.'' (real (unat (us_tokens_in usage))) @
      counter ''swarm_tokens_out_total'' ''Completion tokens produced.'' (real (unat (us_tokens_out usage))) @
      counter ''swarm_cost_usd_total'' ''Estimated model spend in USD.'' (us_cost_usd usage) @
      ''# HELP swarm_jobs_total Jobs by current status.'' @ [newline] @
      ''# TYPE swarm_jobs_total gauge'' @ [newline] @
      concat (map (\<lambda>st. ''swarm_jobs_total{status='' @ [CHR 0x22] @ job_status_as_str st @ [CHR 0x22] @ ''} '' @
        dec (status_count jobs st) @ [newline]) metric_statuses))"

end
