(* ===== verification/ApiProperties.thy ===== *)
theory ApiProperties
  imports ApiServer EngineProperties
begin

text \<open>
  Properties of the HTTP ingress: which status every endpoint answers with, what an accepted submission
  means, what a cancellation does, and what is served after a restart.
\<close>

section \<open>Status codes\<close>

lemma retryable_status: "is_retryable e \<Longrightarrow> error_status e \<in> {409, 429, 500, 502, 504}"
  by (cases e) simp_all

lemma client_fault_final: "error_status e \<in> {400, 402, 404} \<Longrightarrow> \<not> is_retryable e"
  by (cases e) simp_all

definition lookup_status ::
  "(string \<Rightarrow> string + uuid) \<Rightarrow> string \<Rightarrow> ('v, 'g, 'j, 'w) Coordinator \<Rightarrow> (('v, 'g) JobHandle \<Rightarrow> nat) \<Rightarrow> nat option" where
  "lookup_status parse raw c found =
     Some (case parse_job_id parse raw of
             Inl _ \<Rightarrow> 400
           | Inr i \<Rightarrow> (case map_of (co_jobs c) i of None \<Rightarrow> 404 | Some h \<Rightarrow> found h))"

lemmas query_defs = job_state_def task_graph_def intermediate_results_def job_failures_def
  job_transitions_def job_agents_def job_final_result_def

lemma on_job_status:
  assumes "\<And>i. r i = bindR (find_handle i c) (\<lambda>h. Ok (f i h))"
  shows "reply_status (on_job parse raw (\<lambda>i. served disp (r i))) = lookup_status parse raw c (\<lambda>_. 200)"
  using assms
  by (auto simp: on_job_def lookup_status_def find_handle_def api_error_def parse_job_id_def bad_request_def
      split: sum.split option.split)

lemma control_status:
  assumes "\<And>i h. map_of (co_jobs c) i = Some h \<Longrightarrow> reply_status (served (en_disp E) (snd (action i c))) = Some (n h)"
    and "\<And>i. map_of (co_jobs c) i = None \<Longrightarrow> snd (action i c) = Err (NotFound ''job'' i)"
  shows "reply_status (snd (control_job E parse action raw c)) = lookup_status parse raw c n"
proof (cases "parse_job_id parse raw")
  case (Inl e)
  then show ?thesis
    by (auto simp: control_job_def lookup_status_def parse_job_id_def bad_request_def split: sum.splits)
next
  case (Inr i)
  obtain c' r where r: "action i c = (c', r)" by fastforce
  show ?thesis
  proof (cases "map_of (co_jobs c) i")
    case None
    with assms(2) [OF None] Inr r show ?thesis by (simp add: control_job_def lookup_status_def api_error_def)
  next
    case (Some h)
    have "reply_status (served d (bindR r (\<lambda>_. Ok i))) = reply_status (served d r)" for d
      by (cases r) (auto split: fault.split, metis fault.exhaust reply_status.simps served.simps)
    with assms(1) [OF Some] Inr r Some show ?thesis by (simp add: control_job_def lookup_status_def)
  qed
qed

lemma emit_succeeds:
  "\<exists>s'. emit E kind task_id detail p s = (s', Inr ()) \<and> jh_control (rn_handle s') = jh_control (rn_handle s) \<and>
    jh_job (rn_handle s') = jh_job (rn_handle s) \<and> jh_graph (rn_handle s') = jh_graph (rn_handle s) \<and>
    jh_results (rn_handle s') = jh_results (rn_handle s) \<and> sv_queue (rn_sv s') = sv_queue (rn_sv s)"
  by (simp add: emit_def bindS_def utc_now_def on_handle_def modify_def split: prod.split)

lemma cancel_effect:
  assumes "map_of (co_jobs c) i = Some h"
  shows "\<exists>c' h'. cancel E i c = (c', Ok ()) \<and> map_of (co_jobs c') = (map_of (co_jobs c))(i \<mapsto> h') \<and>
    jh_control h' = Control.Cancelled \<and> jh_job h' = jh_job h \<and> jh_graph h' = jh_graph h \<and> jh_results h' = jh_results h \<and>
    sv_queue (co_sv c') = fst (purge_job i (sv_queue (co_sv c)))"
proof -
  let ?s = "\<lparr>rn_handle = h\<lparr>jh_control := Control.Cancelled\<rparr>, rn_sv = co_sv c\<rparr>"
  from emit_succeeds [of E JobEventKind.JobCancelled None "''cancelled by operator''" 0 ?s] obtain s' where
    s': "emit E JobEventKind.JobCancelled None ''cancelled by operator'' 0 ?s = (s', Inr ())"
      "jh_control (rn_handle s') = Control.Cancelled" "jh_job (rn_handle s') = jh_job h"
      "jh_graph (rn_handle s') = jh_graph h" "jh_results (rn_handle s') = jh_results h"
      "sv_queue (rn_sv s') = sv_queue (co_sv c)" by auto
  let ?c' = "c\<lparr>co_sv := (rn_sv s')\<lparr>sv_queue := fst (purge_job i (sv_queue (rn_sv s')))\<rparr>,
    co_jobs := AList.update i (rn_handle s') (co_jobs c)\<rparr>"
  have "cancel E i c = (?c', Ok ())"
    using assms s'(1)
    by (simp add: cancel_def with_handle_def find_handle_def thenS_def bindS_def on_handle_def on_sv_def modify_def)
  with s' show ?thesis
    by (intro exI [of _ ?c'] exI [of _ "rn_handle s'"]) (simp add: update_conv')
qed

lemma refused_when_cancelled:
  assumes "map_of (co_jobs c) i = Some h" "jh_control h = Control.Cancelled"
  shows "\<exists>c'. pause E i c = (c', Err (SwarmError.Cancelled ''job is cancelled'')) \<and>
      map_of (co_jobs c') = map_of (co_jobs c) \<and> co_sv c' = co_sv c"
    "\<exists>c'. resume E i c = (c', Err (SwarmError.Cancelled ''job is cancelled'')) \<and>
      map_of (co_jobs c') = map_of (co_jobs c) \<and> co_sv c' = co_sv c"
  using assms
  by (auto simp: pause_def resume_def with_handle_def find_handle_def thenS_def bindS_def refuse_cancelled_def gets_def
      raise_def update_conv' fun_upd_idem)

lemma control_allowed:
  assumes "map_of (co_jobs c) i = Some h" "jh_control h \<noteq> Control.Cancelled"
  shows "snd (pause E i c) = Ok ()" "snd (resume E i c) = Ok ()"
proof -
  let ?t = "\<lambda>k. \<lparr>rn_handle = h\<lparr>jh_control := k\<rparr>, rn_sv = co_sv c\<rparr>"
  from emit_succeeds [of E JobEventKind.JobPaused None "''paused by operator''" 0 "?t Control.Paused"] assms
  show "snd (pause E i c) = Ok ()"
    by (auto simp: pause_def with_handle_def find_handle_def thenS_def bindS_def refuse_cancelled_def gets_def ret_def
        on_handle_def modify_def split: prod.split)
  from emit_succeeds [of E JobEventKind.JobResumed None "''resumed by operator''" 0 "?t Control.Running"] assms
  show "snd (resume E i c) = Ok ()"
    by (auto simp: resume_def with_handle_def find_handle_def thenS_def bindS_def refuse_cancelled_def gets_def ret_def
        on_handle_def modify_def split: prod.split)
qed

text \<open>
  C28: the statuses of the job endpoints. A path that is no identifier is answered with 400 and an
  unknown job with 404, by every endpoint of a job; for a known job the queries and the cancellation
  answer 200, pausing and resuming answer 409 once the job is cancelled and 200 before, and the
  final result is 404 until there is one. No endpoint fails in another way.
\<close>

theorem job_endpoint_statuses:
  "reply_status (get_job_state E parse raw c) = lookup_status parse raw c (\<lambda>_. 200) \<and>
   reply_status (get_job_graph E parse raw c) = lookup_status parse raw c (\<lambda>_. 200) \<and>
   reply_status (get_job_results E parse raw c) = lookup_status parse raw c (\<lambda>_. 200) \<and>
   reply_status (get_job_failures E parse raw c) = lookup_status parse raw c (\<lambda>_. 200) \<and>
   reply_status (get_job_transitions E parse raw c) = lookup_status parse raw c (\<lambda>_. 200) \<and>
   reply_status (get_job_agents E parse raw c) = lookup_status parse raw c (\<lambda>_. 200) \<and>
   reply_status (get_job_events E parse render raw received c) = lookup_status parse raw c (\<lambda>_. 200) \<and>
   reply_status (get_job_final_result E parse raw c) =
     lookup_status parse raw c (\<lambda>h. if jh_final_result h = None then 404 else 200) \<and>
   reply_status (snd (cancel_job E parse raw c)) = lookup_status parse raw c (\<lambda>_. 200) \<and>
   reply_status (snd (pause_job E parse raw c)) =
     lookup_status parse raw c (\<lambda>h. if jh_control h = Control.Cancelled then 409 else 200) \<and>
   reply_status (snd (resume_job E parse raw c)) =
     lookup_status parse raw c (\<lambda>h. if jh_control h = Control.Cancelled then 409 else 200)"
proof (intro conjI)
  show "reply_status (get_job_final_result E parse raw c) =
     lookup_status parse raw c (\<lambda>h. if jh_final_result h = None then 404 else 200)"
    by (auto simp: get_job_final_result_def on_job_def lookup_status_def job_final_result_def find_handle_def
        api_error_def parse_job_id_def bad_request_def api_not_found_def split: sum.split option.split)
  have unknown: "snd (cancel E i c) = Err (NotFound ''job'' i)" "snd (pause E i c) = Err (NotFound ''job'' i)"
    "snd (resume E i c) = Err (NotFound ''job'' i)" if "map_of (co_jobs c) i = None" for i
    using that by (simp_all add: cancel_def pause_def resume_def with_handle_def find_handle_def)
  have known: "reply_status (served d (snd (cancel E i c))) = Some 200"
    "reply_status (served d (snd (pause E i c))) = Some (if jh_control h = Control.Cancelled then 409 else 200)"
    "reply_status (served d (snd (resume E i c))) = Some (if jh_control h = Control.Cancelled then 409 else 200)"
    if h: "map_of (co_jobs c) i = Some h" for d i h
    using cancel_effect [OF h, of E] refused_when_cancelled [OF h, of E] control_allowed [OF h, of E]
    by (auto simp: api_error_def)
  show "reply_status (snd (cancel_job E parse raw c)) = lookup_status parse raw c (\<lambda>_. 200)"
    unfolding cancel_job_def by (rule control_status) (simp_all add: known(1) unknown(1))
  show "reply_status (snd (pause_job E parse raw c)) =
     lookup_status parse raw c (\<lambda>h. if jh_control h = Control.Cancelled then 409 else 200)"
    unfolding pause_job_def by (rule control_status) (simp_all only: known(2) unknown(2))
  show "reply_status (snd (resume_job E parse raw c)) =
     lookup_status parse raw c (\<lambda>h. if jh_control h = Control.Cancelled then 409 else 200)"
    unfolding resume_job_def by (rule control_status) (simp_all only: known(3) unknown(3))
qed (unfold get_job_state_def get_job_graph_def get_job_results_def get_job_failures_def get_job_transitions_def
    get_job_agents_def get_job_events_def query_defs, (rule on_job_status, rule refl)+)

section \<open>Submission\<close>

lemma announce_Ok: "\<exists>s'. announce E s = (s', Ok ())"
  by (simp add: announce_def emit_def thenS_def bindS_def gets_def utc_now_def on_handle_def modify_def split: prod.split)

lemma submit_refused: "submit E request c = (c1, Inl e) \<Longrightarrow> co_jobs c1 = co_jobs c"
proof -
  assume sub: "submit E request c = (c1, Inl e)"
  have "snd (announce E s) = Ok ()" for s using announce_Ok [of E s] by (metis snd_conv)
  then have ann: "announce E s = (s', r) \<Longrightarrow> r = Ok ()" for s s' r by (metis snd_conv)
  show ?thesis
    using sub by (auto simp: submit_def Let_def split: sum.splits prod.splits dest!: ann)
qed

text \<open>
  C17: what an accepted submission means. The reply 202 names a new job that is planned into exactly the
  number of tasks the strategy asks for, at least one, and whose run has been started; asked for under
  the identifier of the reply, the job is served with the same status and number of tasks. When the
  request is refused no run is started and no job appears or changes, and a request that is not valid
  is answered with 400.
\<close>

theorem submission_accepted:
  assumes "petgraph_laws (en_pg E)" "fresh_ids E H request c" "uuid_text (en_disp E) as_simple parse"
    and "submit_job E request c = (c1, reply, started)"
  shows "case reply of
      Reply n resp \<Rightarrow> n = 202 \<and> started = Some (sr_job_id resp) \<and> sr_status resp = JobStatus.Planning \<and>
        sr_tasks_planned resp = task_total request \<and> 0 < sr_tasks_planned resp \<and>
        (\<exists>view. get_job_state E parse (en_disp E (sr_job_id resp)) c1 = Reply 200 view \<and>
           jv_status view = sr_status resp \<and> gc_total (jv_counts view) = sr_tasks_planned resp)
    | Refused e \<Rightarrow> started = None \<and> co_jobs c1 = co_jobs c \<and>
        (\<forall>m. validate request = Err (Validation m) \<longrightarrow> ae_status e = 400)
    | Crashed m \<Rightarrow> started = None \<and> co_jobs c1 = co_jobs c"
proof -
  obtain r where sub: "submit E request c = (c1, r)"
    using assms(4) by (auto simp: submit_job_def split: prod.splits sum.splits)
  show ?thesis
  proof (cases r)
    case (Inl e)
    from submit_refused [OF sub [unfolded Inl]] sub Inl assms(4) show ?thesis
      by (cases e) (auto simp: submit_job_def submit_def api_error_def)
  next
    case (Inr job_id)
    from submit_start [OF assms(1,2) sub [unfolded Inr]] obtain h where
      h: "find_handle job_id c1 = Ok h" "j_status (jh_job h) = JobStatus.Planning"
        "length (tg_nodes (jh_graph h)) = task_total request" by blast
    have "gc_total (counts (jh_graph h)) = task_total request"
      using h(3) by (simp add: counts_def fold_counts zero_counts_zero)
    moreover have "parse_job_id parse (en_disp E job_id) = Inr job_id"
      using uuid_text.from_str_disp [OF assms(3)] by (simp add: parse_job_id_def)
    ultimately show ?thesis
      using assms(4) sub Inr h task_total_pos [of request]
      by (auto simp: submit_job_def job_state_def get_job_state_def on_job_def)
  qed
qed

lemma demo_started:
  "\<exists>c h. submit demo_cluster demo_job_request (new_coordinator demo_cluster [] 0) = (c, Ok 0) \<and> map_of (co_jobs c) 0 = Some h"
proof -
  obtain c where c: "submit demo_cluster demo_job_request (new_coordinator demo_cluster [] 0) = (c, Ok 0)"
    using demo_submit by blast
  from submit_start [OF _ demo_fresh c] list_pg.petgraph_laws_axioms c show ?thesis
    by (auto simp: find_handle_def split: option.splits)
qed

lemma demo_job_id: "parse_job_id uuid_parse (uuid_hyphenated i) = Inr i"
  by (simp add: parse_job_id_def hex_uuid.from_str_disp)

theorem submission_accepted_witness:
  "\<exists>c resp. submit_job demo_cluster demo_job_request (new_coordinator demo_cluster [] 0) = (c, Reply 202 resp, Some 0) \<and>
     sr_status resp = JobStatus.Planning \<and> sr_tasks_planned resp = 4"
proof -
  obtain c h where c: "submit demo_cluster demo_job_request (new_coordinator demo_cluster [] 0) = (c, Ok 0)"
    "map_of (co_jobs c) 0 = Some h" using demo_started by blast
  then obtain resp where
    r: "submit_job demo_cluster demo_job_request (new_coordinator demo_cluster [] 0) = (c, Reply 202 resp, Some 0)"
    by (simp add: submit_job_def job_state_def find_handle_def)
  from submission_accepted [OF _ demo_fresh _ r, of uuid_simple uuid_parse] list_pg.petgraph_laws_axioms
    hex_uuid.uuid_text_axioms r show ?thesis
    by (auto simp: demo_task_total)
qed



text \<open>
  C16: what is served after a restart. At any point in the life of a job the server can be restarted on
  the journal of the old one: it starts, and under the job's identifier it serves the same results,
  failures and transitions, the same final report if there was one and 404 otherwise, and the status
  the job had if it was finished.
\<close>

theorem served_after_restart:
  assumes "engine_env E H" "petgraph_laws (en_pg E)" "honest_outcomes W" "life E H W j s"
    and "uuid_text (en_disp E) as_simple parse"
  shows "\<exists>c view. boot E memory (Some (Ok (sv_journal (rn_sv s)))) w = Ok c \<and>
    get_job_results E parse (en_disp E j) c = Reply 200 (jh_results (rn_handle s)) \<and>
    get_job_failures E parse (en_disp E j) c = Reply 200 (jh_failures (rn_handle s)) \<and>
    get_job_transitions E parse (en_disp E j) c = Reply 200 (jh_transitions (rn_handle s)) \<and>
    get_job_final_result E parse (en_disp E j) c =
      (case jh_final_result (rn_handle s) of
         Some fr \<Rightarrow> Reply 200 fr | None \<Rightarrow> Refused (api_not_found ''finished job'' (en_disp E j))) \<and>
    get_job_state E parse (en_disp E j) c = Reply 200 view \<and>
    (is_finished (j_status (jh_job (rn_handle s))) \<longrightarrow> jv_status view = j_status (jh_job (rn_handle s)))"
proof -
  obtain c r where rec: "recover E (new_coordinator E (sv_journal (rn_sv s)) w) = (c, r)" by fastforce
  from restart_run_inv [OF assms(1,2) life_inv [OF assms(1-4)] rec] obtain k h where
    h: "r = Ok k" "find_handle j c = Ok h" "resumes (rn_handle s) h"
    by (auto simp: new_coordinator_def payloads_def new_queue_def)
  have "parse_job_id parse (en_disp E j) = Inr j"
    using uuid_text.from_str_disp [OF assms(5)] by (simp add: parse_job_id_def)
  with h rec show ?thesis
    by (auto simp: boot_def get_job_results_def get_job_failures_def get_job_transitions_def
        get_job_final_result_def get_job_state_def on_job_def query_defs resumes_def split: option.split)
qed

theorem served_after_restart_witness:
  "\<exists>s c results. life demo_cluster (\<lambda>j rs. j = rs) cancel_world 0 s \<and> tg_nodes (jh_graph (rn_handle s)) \<noteq> [] \<and>
     boot demo_cluster [] (Some (Ok (sv_journal (rn_sv s)))) 99 = Ok c \<and>
     get_job_results demo_cluster uuid_parse (uuid_hyphenated 0) c = Reply 200 results"
proof -
  obtain s s' fr where d: "life demo_cluster (\<lambda>j rs. j = rs) cancel_world 0 s" "jh_agents (rn_handle s) = []"
    "tg_nodes (jh_graph (rn_handle s)) \<noteq> []" "sv_cluster_agents (rn_sv s) = 0"
    "j_status (jh_job (rn_handle s)) = JobStatus.Planning" "run_job demo_cluster cancel_world s = (s', Ok fr)"
    "fr_status fr = JobStatus.Cancelled" by (rule demo_cancelled_run)
  from served_after_restart [OF demo_cluster_env _ cancel_world_honest d(1), of uuid_simple uuid_parse "[]" 99]
    list_pg.petgraph_laws_axioms hex_uuid.uuid_text_axioms d(1,3) show ?thesis by auto
qed

end
