(* ===== verification/AdminCli.thy ===== *)
theory AdminCli
  imports Engine Journal
begin

text \<open>
  The command-line front end (\<open>crates/admin-cli/src/main.rs\<close>): how a request is built from the
  arguments, the built-in demonstrations, the run of a job with an interrupt, and the texts it prints.
  Parsing the command line is the business of \<open>clap\<close>, so the arguments are records; the formatting of
  floating-point numbers and the rendering of JSON are parameters. A run that is dropped because the
  user interrupts it has changed the coordinator in some way, which is an argument. The lines the
  printer task writes meanwhile are given by \<open>event_line\<close>; how they interleave is left open.
\<close>

section \<open>Arguments\<close>

datatype Placement = PlaceRoundRobin | PlaceLeastLoaded | PlaceCapabilityWeighted | PlaceAdaptive

fun placement_kind :: "Placement \<Rightarrow> SchedulerKind" where
  "placement_kind PlaceRoundRobin = SchedulerKind.RoundRobin"
| "placement_kind PlaceLeastLoaded = SchedulerKind.LeastLoaded"
| "placement_kind PlaceCapabilityWeighted = SchedulerKind.CapabilityWeighted"
| "placement_kind PlaceAdaptive = SchedulerKind.Adaptive"

record RunArgs =
  ra_objective :: string
  ra_context :: "string option"
  ra_strategy :: string
  ra_agents :: nat
  ra_priority :: string
  ra_placement :: Placement
  ra_max_cost :: "f64 option"
  ra_max_runtime :: "u64 option"
  ra_json :: bool
  ra_quiet :: bool

datatype Demo = DemoResearch | DemoCodegen | DemoDebate | DemoAll

text \<open>An error is reported with the context it was given, if any, and what caused it.\<close>

datatype cli_error = CliError "string option" "fault option"

section \<open>Requests\<close>

definition build_job_request :: "RunArgs \<Rightarrow> cli_error + JobRequest" where
  "build_job_request args =
     (case strategy_from_str (ra_strategy args) of
        Inl e \<Rightarrow> Inl (CliError (Some (''unknown strategy `'' @ ra_strategy args @ ''`'')) (Some e))
      | Inr strategy \<Rightarrow>
          (case priority_from_str (ra_priority args) of
             Inl e \<Rightarrow> Inl (CliError (Some (''unknown priority `'' @ ra_priority args @ ''`'')) (Some e))
           | Inr priority \<Rightarrow>
               Inr ((with_priority priority (with_max_agents (ra_agents args)
                      (with_strategy strategy (new_job_request (ra_objective args)))))
                    \<lparr>jr_context := ra_context args, jr_max_cost := ra_max_cost args,
                      jr_max_runtime_seconds := ra_max_runtime args\<rparr>)))"

definition research_demo :: "nat \<Rightarrow> JobRequest" where
  "research_demo agents =
     with_max_agents agents (with_strategy Hierarchical (new_job_request
       (''Survey how distributed systems achieve consensus, replicate state, '' @
        ''detect failures, and recover from partitions'')))"

definition codegen_demo :: "nat \<Rightarrow> JobRequest" where
  "codegen_demo agents =
     with_max_agents agents (with_strategy PlannerExecutor (new_job_request
       (''Implement a rate limiter: token bucket core, a middleware layer, '' @
        ''persistence, and a benchmark harness'')))"

definition debate_demo :: "nat \<Rightarrow> JobRequest" where
  "debate_demo agents =
     with_max_agents agents (with_strategy Debate (new_job_request
       ''Is leader-based consensus simpler to operate than leaderless consensus?''))"

fun demos :: "Demo \<Rightarrow> nat \<Rightarrow> (string \<times> JobRequest) list" where
  "demos DemoResearch agents = [(''Parallel research swarm'', research_demo agents)]"
| "demos DemoCodegen agents = [(''Distributed code-generation swarm'', codegen_demo agents)]"
| "demos DemoDebate agents = [(''Debate and consensus swarm'', debate_demo agents)]"
| "demos DemoAll agents =
     [(''Parallel research swarm'', research_demo agents),
      (''Distributed code-generation swarm'', codegen_demo agents),
      (''Debate and consensus swarm'', debate_demo agents)]"

section \<open>What is printed\<close>

definition esc :: "string \<Rightarrow> string" where
  "esc code = CHR 0x1B # ''['' @ code @ ''m''"

definition pad_left :: "nat \<Rightarrow> string \<Rightarrow> string" where
  "pad_left width s = replicate (width - length s) (CHR '' '') @ s"

fun event_label :: "JobEventKind \<Rightarrow> string \<times> string" where
  "event_label JobEventKind.TaskCompleted = (esc ''32'', ''done'')"
| "event_label JobEventKind.TaskFailed = (esc ''31'', ''fail'')"
| "event_label JobEventKind.TaskDeadLettered = (esc ''31'', ''fail'')"
| "event_label JobEventKind.TaskRetrying = (esc ''33'', ''retry'')"
| "event_label JobEventKind.TaskStarted = (esc ''36'', ''start'')"
| "event_label JobEventKind.TaskQueued = (esc ''90'', ''queue'')"
| "event_label JobEventKind.AgentSpawned = (esc ''35'', ''agent'')"
| "event_label JobEventKind.JobFinished = (esc ''1'', ''job'')"
| "event_label _ = (esc ''90'', ''info'')"

definition event_line :: "(real \<Rightarrow> string) \<Rightarrow> JobEvent \<Rightarrow> string" where
  "event_line fixed0 event =
     (let (colour, label) = event_label (je_kind event) in
      colour @ ''['' @ pad_left 3 (fixed0 (je_progress event * 100)) @ ''%] '' @ pad_left 5 label @ esc ''0'' @
      '' '' @ je_detail event @ [newline])"

definition middle_dot :: string where "middle_dot = [CHR '' '', CHR 0xC2, CHR 0xB7, CHR '' '']"

definition report_text :: "(real \<Rightarrow> string) \<Rightarrow> (real \<Rightarrow> string) \<Rightarrow> 'v FinalResult \<Rightarrow> string" where
  "report_text fixed4 fixed2 res =
     (let st = fr_execution_statistics res in
      [newline] @ esc ''1'' @ ''Result'' @ esc ''0'' @ '' ('' @ job_status_as_str (fr_status res) @ '')'' @ [newline] @
      fr_summary res @ [newline, newline] @
      (if fr_unresolved_conflicts res = [] then []
       else esc ''33'' @ ''Unresolved conflicts:'' @ esc ''0'' @ [newline] @
         concat (map (\<lambda>c. ''  - '' @ cf_description c @ [newline]) (fr_unresolved_conflicts res)) @ [newline]) @
      esc ''1'' @ ''Execution'' @ esc ''0'' @ [newline] @
      ''  tasks         '' @ dec (es_tasks_succeeded st) @ ''/'' @ dec (es_tasks_total st) @ '' succeeded ('' @
        dec (es_tasks_retried st) @ '' retried, '' @ dec (es_tasks_failed st) @ '' failed)'' @ [newline] @
      ''  agents        '' @ dec (es_agents_spawned st) @ [newline] @
      ''  latency       p50 '' @ dec (unat (es_median_task_latency_ms st)) @ ''ms'' @ middle_dot @ ''p95 '' @
        dec (unat (es_p95_task_latency_ms st)) @ ''ms'' @ middle_dot @ ''p99 '' @
        dec (unat (es_p99_task_latency_ms st)) @ ''ms'' @ [newline] @
      ''  wall clock    '' @ dec (unat (es_wall_clock_ms st)) @ ''ms'' @ [newline] @
      ''  tokens        '' @ dec (unat (es_tokens_in st)) @ '' in'' @ middle_dot @ dec (unat (es_tokens_out st)) @
        '' out'' @ [newline] @
      ''  cost          $'' @ fixed4 (es_cost_usd st) @ [newline] @
      ''  confidence    '' @ fixed2 (fr_confidence_score res) @ [newline] @
      ''  outputs       '' @ dec (length (fr_outputs res)) @ [newline] @
      ''  evidence      '' @ dec (length (fr_supporting_evidence res)) @ [newline])"

definition strategies_text :: string where
  "strategies_text =
     esc ''1'' @ ''Execution strategies'' @ esc ''0'' @ '' (--strategy)'' @ [newline] @
     concat (map (\<lambda>s. ''  '' @ strategy_as_str s @ [newline]) all_strategies) @ [newline] @
     esc ''1'' @ ''Placement strategies'' @ esc ''0'' @ '' (--placement)'' @ [newline] @
     concat (map (\<lambda>k. ''  '' @ scheduler_name (build_scheduler k) @ [newline]) all_scheduler_kinds)"

section \<open>Running a job\<close>

record 'v cli_ops =
  cl_fixed2 :: "real \<Rightarrow> string"
  cl_json_pretty :: "'v FinalResult \<Rightarrow> fault + string"

definition platform ::
  "SchedulerKind \<Rightarrow> ('v, 'g, 'j, 'w) Env \<Rightarrow> 'j \<Rightarrow> 'w \<Rightarrow> ('v, 'g, 'j, 'w) Env \<times> ('v, 'g, 'j, 'w) Coordinator" where
  "platform kind E memory w =
     (let E' = E\<lparr>en_config := (en_config E)\<lparr>cc_scheduler := kind\<rparr>\<rparr> in (E', new_coordinator E' memory w))"

definition run_or_interrupt ::
  "('v, 'g, 'j, 'w) Env \<Rightarrow> ('v, 'w) World \<Rightarrow>
   (('v, 'g, 'j, 'w) Coordinator \<Rightarrow> ('v, 'g, 'j, 'w) Coordinator) option \<Rightarrow> JobId \<Rightarrow>
   ('v, 'g, 'j, 'w) Coordinator \<Rightarrow> ('v, 'g, 'j, 'w) Coordinator \<times> (cli_error + 'v FinalResult)" where
  "run_or_interrupt E W interrupt job_id c =
     (case interrupt of
        None \<Rightarrow>
          (case run E W job_id c of
             (c', Inl e) \<Rightarrow> (c', Inl (CliError None (Some e)))
           | (c', Inr res) \<Rightarrow> (c', Inr res))
      | Some dropped \<Rightarrow>
          (case cancel E job_id (dropped c) of
             (c', Inl e) \<Rightarrow> (c', Inl (CliError None (Some e)))
           | (c', Inr _) \<Rightarrow>
               (case job_final_result job_id c' of
                  Inl e \<Rightarrow> (c', Inl (CliError None (Some e)))
                | Inr None \<Rightarrow> (c', Inl (CliError (Some ''job was cancelled before producing a result'') None))
                | Inr (Some res) \<Rightarrow> (c', Inr res))))"

definition execute_job ::
  "('v, 'g, 'j, 'w) Env \<Rightarrow> ('v, 'w) World \<Rightarrow> 'v cli_ops \<Rightarrow>
   (('v, 'g, 'j, 'w) Coordinator \<Rightarrow> ('v, 'g, 'j, 'w) Coordinator) option \<Rightarrow> JobRequest \<Rightarrow> bool \<Rightarrow>
   ('v, 'g, 'j, 'w) Coordinator \<Rightarrow> ('v, 'g, 'j, 'w) Coordinator \<times> string \<times> (cli_error + unit)" where
  "execute_job E W ops interrupt request as_json c =
     (case submit E request c of
        (c1, Inl e) \<Rightarrow> (c1, [], Inl (CliError None (Some e)))
      | (c1, Inr job_id) \<Rightarrow>
          (case job_state job_id c1 of
             Inl e \<Rightarrow> (c1, [], Inl (CliError None (Some e)))
           | Inr view \<Rightarrow>
               (let head = (if as_json then []
                      else ''job '' @ en_disp E job_id @ [newline] @ ''strategy '' @
                        strategy_as_str (jv_execution_strategy view) @ middle_dot @
                        dec (gc_total (jv_counts view)) @ '' tasks planned'' @ [newline])
                in case run_or_interrupt E W interrupt job_id c1 of
                     (c2, Inl e) \<Rightarrow> (c2, head, Inl e)
                   | (c2, Inr res) \<Rightarrow>
                       if as_json then
                         (case cl_json_pretty ops res of
                            Inl e \<Rightarrow> (c2, head, Inl (CliError None (Some e)))
                          | Inr json \<Rightarrow> (c2, head @ json @ [newline], Inr ()))
                       else (c2, head @ report_text (en_usd E) (cl_fixed2 ops) res, Inr ()))))"

definition run_command ::
  "('v, 'g, 'j, 'w) Env \<Rightarrow> ('v, 'w) World \<Rightarrow> 'v cli_ops \<Rightarrow>
   (('v, 'g, 'j, 'w) Coordinator \<Rightarrow> ('v, 'g, 'j, 'w) Coordinator) option \<Rightarrow> RunArgs \<Rightarrow> 'j \<Rightarrow> 'w \<Rightarrow>
   string \<times> (cli_error + unit)" where
  "run_command E W ops interrupt args memory w =
     (case build_job_request args of
        Inl e \<Rightarrow> ([], Inl e)
      | Inr request \<Rightarrow>
          (let (E', c) = platform (placement_kind (ra_placement args)) E memory w in
           snd (execute_job E' W ops interrupt request (ra_json args) c)))"

text \<open>Every demonstration runs on a platform of its own; the first error ends the command.\<close>

fun demo_loop ::
  "('v, 'g, 'j, 'w) Env \<Rightarrow> ('v, 'w) World \<Rightarrow> 'v cli_ops \<Rightarrow> (string \<times> JobRequest) list \<Rightarrow> 'j \<Rightarrow> 'w \<Rightarrow>
   string \<times> (cli_error + unit)" where
  "demo_loop E W ops [] memory w = ([], Inr ())"
| "demo_loop E W ops ((title, request) # rest) memory w =
     (let head = [newline] @ esc ''1'' @ ''=== '' @ title @ '' ==='' @ esc ''0'' @ [newline] @
            ''objective: '' @ jr_objective request @ [newline, newline];
          (E', c) = platform (cc_scheduler (en_config E)) E memory w
      in case execute_job E' W ops None request False c of
           (c', out, Inl e) \<Rightarrow> (head @ out, Inl e)
         | (c', out, Inr _) \<Rightarrow>
             (let (out', r) = demo_loop E W ops rest memory (sv_world (co_sv c')) in (head @ out @ out', r)))"

definition demo_command where
  "demo_command E W ops which agents memory w = demo_loop E W ops (demos which agents) memory w"

datatype Command = RunC RunArgs | DemoC Demo nat | StrategiesC

definition command_main where
  "command_main E W ops interrupt command memory w =
     (case command of
        RunC args \<Rightarrow> run_command E W ops interrupt args memory w
      | DemoC which agents \<Rightarrow> demo_command E W ops which agents memory w
      | StrategiesC \<Rightarrow> (strategies_text, Inr ()))"

section \<open>Properties\<close>

text \<open>
  An interrupt drops the run, so nobody brings the job to its end: unless it was finished already the
  command reports that there is no result, after cancelling the job.
\<close>

lemma interrupted_run_fails:
  assumes "map_of (co_jobs (dropped c)) i = Some h" "jh_final_result h = None"
  shows "snd (run_or_interrupt E W (Some dropped) i c) =
    Inl (CliError (Some ''job was cancelled before producing a result'') None)"
  using assms
  by (auto simp: run_or_interrupt_def cancel_def with_handle_def find_handle_def thenS_def bindS_def on_handle_def
      on_sv_def modify_def emit_def utc_now_def job_final_result_def update_conv' gets_def split: prod.splits)

text \<open>The demonstrations are valid requests for every permitted number of agents.\<close>

lemma demos_valid:
  assumes "(title, request) \<in> set (demos which agents)" "1 \<le> agents" "agents \<le> MAX_AGENTS_PER_JOB"
  shows "validate request = Ok ()"
proof -
  have t: "trim (jr_objective (research_demo 0)) \<noteq> []" "trim (jr_objective (codegen_demo 0)) \<noteq> []"
    "trim (jr_objective (debate_demo 0)) \<noteq> []" by code_simp+
  have l: "length (jr_objective (research_demo 0)) \<le> MAX_OBJECTIVE_LEN"
    "length (jr_objective (codegen_demo 0)) \<le> MAX_OBJECTIVE_LEN" "length (jr_objective (debate_demo 0)) \<le> MAX_OBJECTIVE_LEN"
    by code_simp+
  note d = research_demo_def codegen_demo_def debate_demo_def with_max_agents_def with_strategy_def new_job_request_def
  from assms have "request \<in> {research_demo agents, codegen_demo agents, debate_demo agents}" by (cases which) auto
  moreover have "validate r = Ok ()"
    if "trim (jr_objective r) \<noteq> []" "length (jr_objective r) \<le> MAX_OBJECTIVE_LEN" "jr_max_agents r = agents"
      "jr_max_cost r = None" "jr_max_runtime_seconds r = None" "jr_idempotency_key r = None" for r
    using that assms(2,3) by (simp add: validate_def)
  ultimately show ?thesis using t l by (auto simp: d)
qed

end
