(* ===== verification/Spec2Isabelle.thy ===== *)
theory Spec2Isabelle
  imports QueueContract MemoryContract GraphProperties Journal
    GatewayProperties GatewayLimits RuntimeProperties CrashRecovery EngineProperties
    CrashWindows MockProvider ApiProperties AdminCli
begin

text \<open>
  \<^bold>\<open>A verification of the swarm platform\<close>

  The platform runs jobs with a swarm of agents. A client submits an objective; the coordinator plans
  it into a graph of tasks, schedules ready tasks on agents through a queue with leases, collects and
  merges their results, and reports. Agents call language models through a gateway and share a
  versioned store. Every change of a job is appended to a journal, from which a new process resumes.
  The sources are the Rust crates under \<open>src/crates\<close>; each theory models the code of one part, file by
  file, and proves what makes it correct.

  \<^bold>\<open>How the parts interact\<close>

  \<open>submit\<close> validates a request, draws identifiers, plans (\<open>decompose\<close>), journals the plan and creates
  a job handle. \<open>run_job\<close> provisions agents within the cluster's budget and then ticks: ready tasks are
  promoted into the queue, expired leases are swept, the pool is scaled, idle agents lease tasks and
  execute them (gateway, store), outcomes are applied to queue, graph and handle, and every change is
  journalled. \<open>finish\<close> cancels what is left when asked to, aggregates the results, records the report
  and gives the agents back. \<open>recover\<close> folds the journal back into handles. The HTTP server and the
  command line translate requests into these operations.

  \<^bold>\<open>Theories and sources\<close>

  \<^item> \<open>Prelude\<close>, \<open>RustStr\<close>: types, results, vectors, hash maps as association lists, numbers and the
    string operations of the standard library that the sources use.
  \<^item> \<open>ErrorModel\<close>, \<open>Ids\<close>, \<open>Hashing\<close>, \<open>AgentModel\<close>, \<open>JobModel\<close>, \<open>TaskModel\<close>, \<open>Lifecycle\<close>: the crate
    \<open>domain\<close> (\<open>error.rs\<close>, \<open>ids.rs\<close>, \<open>hash.rs\<close>, \<open>agent.rs\<close>, \<open>job.rs\<close>, \<open>task.rs\<close>, \<open>state.rs\<close>).
  \<^item> \<open>Petgraph\<close>, \<open>TaskGraph\<close>, \<open>GraphInvariant\<close>, \<open>GraphProperties\<close>: \<open>domain/src/graph.rs\<close> over the library
    \<open>petgraph\<close>, which is a record of operations with the laws of the locale \<open>petgraph_laws\<close>; the
    interpretation on adjacency lists shows that the laws can hold.
  \<^item> \<open>TaskQueue\<close>, \<open>QueueContract\<close>: the crate \<open>task-queue\<close>. \<open>SharedMemory\<close>, \<open>MemoryContract\<close>: the crate
    \<open>shared-memory\<close>. \<open>Journal\<close>: the crate \<open>persistence\<close>, the file of JSON lines included.
  \<^item> \<open>Gateway\<close>, \<open>GatewayProperties\<close>, \<open>GatewayLimits\<close>, \<open>MockProvider\<close>: the crate \<open>model-gateway\<close>; the
    concurrency limits are a step relation over interleaved calls, and the mock provider is a provider
    behind the gateway.
  \<^item> \<open>AgentRuntime\<close>, \<open>RuntimeProperties\<close>: the crate \<open>agent-runtime\<close>; an execution is a machine with one
    step per awaited call, so that executions of the same task interleave.
  \<^item> \<open>Schedule\<close>, \<open>Decompose\<close>, \<open>Aggregate\<close>, \<open>CoordinatorModel\<close>, \<open>Recovery\<close>, \<open>Engine\<close>: the crate
    \<open>coordinator\<close> (\<open>schedule.rs\<close>, \<open>decompose.rs\<close>, \<open>aggregate.rs\<close>, \<open>lib.rs\<close>, \<open>recovery.rs\<close>, \<open>engine.rs\<close>).
    The record \<open>Run\<close> is a job handle with the services it shares (queue, scheduler, number of agents,
    journal, world); operations are state transformers that return a result.
  \<^item> \<open>EngineSync\<close>, \<open>EngineInvariant\<close>: the invariant \<open>run_inv\<close> of a running job (the journal mirrors the
    handle, the graph is well formed, tasks and queue entries belong to the job, one result per
    completed task) and that every operation of the engine keeps it. \<open>CrashRecovery\<close>: submission
    establishes it, a restart re-establishes it, and the step relation \<open>life_step\<close> of runs (possibly
    abandoned after any tick), restarts and the doings of other jobs. \<open>EngineProperties\<close>: verdict, agent
    budget, finding an agent, cancellation. \<open>CrashWindows\<close>: what the protocol leaves open.
  \<^item> \<open>ApiServer\<close>, \<open>ApiProperties\<close>, \<open>AdminCli\<close>: the crates \<open>api-server\<close> and \<open>admin-cli\<close>.
  \<^item> This theory: properties that span submission, run, journal and recovery.

  \<^bold>\<open>What is shown\<close>

  \<^item> Crash safety: a restart resumes every job with its results, history and report
    (\<open>restart_resumes\<close>, \<open>served_after_restart\<close>), nothing that was completed is lost or counted twice
    (\<open>work_survives\<close>, \<open>one_result_per_completed_task\<close>), recovery is exact (\<open>recover_exact\<close>,
    \<open>rebuild_graph_exact\<close>), and the journal survives torn writes.
  \<^item> Jobs: verdicts agree with the tasks, budgets are kept, cancelled jobs come to an end, an idle agent
    is always found a use.
  \<^item> Queue and store: at most one live entry per task, nothing is lost, attempts are bounded,
    compare-and-swap has one winner; queue and store meet the contracts \<open>leased_queue\<close> and
    \<open>versioned_store\<close> that their clients rest on.
  \<^item> Executions: no attempt calls a model twice, and a redelivery returns the original result.
  \<^item> Graph: it stays acyclic, ready and blocked tasks are exact, a graph is never stuck.
  \<^item> Gateway: bounded calls, refusals without calls, limits on concurrency, cached answers; retries
    outlast a provider that recovers; streams lose nothing.
  \<^item> Planning, placement, aggregation: plans equal a reference definition, keys are unique, placement
    and merging are exact.
  \<^item> HTTP: the status of every endpoint, what an accepted submission and a cancellation mean.

  \<^bold>\<open>Modelling decisions\<close>

  Times are integers of nanoseconds; \<open>u32\<close> and \<open>u64\<close> are words that wrap; \<open>usize\<close> is a natural number;
  floating-point arithmetic is over the reals, except that a client's \<open>f64\<close> may be infinite or not a
  number. A hash map is an association list whose order is arbitrary; what the code sorts, such as
  the ready tasks, is shown not to depend on it. Strings are lists of bytes. A panic is a fault beside the errors. Clock
  and random identifiers come from a world that is threaded through, or are arguments; what the
  theorems need of them (identifiers that differ) is a named hypothesis. Libraries (\<open>petgraph\<close>, \<open>uuid\<close>,
  \<open>serde_json\<close>, \<open>toml\<close>, Unicode tables, float formatting, the operating system) are parameters.
  Every loop is total: the scheduling loop has the code's own bound \<open>max_ticks\<close> as its argument, an
  execution has eight steps at most, and the loops of planning, rebuilding and traversal end by a
  measure. A crash is a run with fewer ticks, or a cut of the journal file between any two bytes.

  \<^bold>\<open>Not modelled\<close>

  Logging and tracing; the broadcast channel behind \<open>subscribe\<close> (a stream's events are the argument of
  its rendering); path matching of \<open>axum\<close>, argument parsing of \<open>clap\<close>, derived serialisation, sockets
  and shutdown; debug renderings and accessors. Two operations of one job do not interleave within a
  tick; other jobs act between the steps of \<open>life_step\<close>. The tests and benchmarks are not part of the
  program.
\<close>

section \<open>From submission to report\<close>



section \<open>The life of a job\<close>

lemma demo_life:
  "\<exists>s s'. life demo_cluster (\<lambda>j rs. j = rs) cancel_world 0 s \<and> tg_nodes (jh_graph (rn_handle s)) \<noteq> [] \<and>
     life_step demo_cluster (\<lambda>j rs. j = rs) cancel_world 0 s s' \<and> life demo_cluster (\<lambda>j rs. j = rs) cancel_world 0 s'"
proof -
  obtain s s' fr where d: "life demo_cluster (\<lambda>j rs. j = rs) cancel_world 0 s" "jh_agents (rn_handle s) = []"
    "tg_nodes (jh_graph (rn_handle s)) \<noteq> []" "sv_cluster_agents (rn_sv s) = 0"
    "j_status (jh_job (rn_handle s)) = JobStatus.Planning" "run_job demo_cluster cancel_world s = (s', Ok fr)"
    "fr_status fr = JobStatus.Cancelled" by (rule demo_cancelled_run)
  have "with_ticks (cc_max_ticks (en_config demo_cluster)) demo_cluster = demo_cluster" by (simp add: with_ticks_def)
  then have "life_step demo_cluster (\<lambda>j rs. j = rs) cancel_world 0 s s'"
    using life_step.runs [of "cc_max_ticks (en_config demo_cluster)" demo_cluster cancel_world s s' "Ok fr"] d(6) by simp
  with d(1,3) show ?thesis by (blast intro: life.goes_on)
qed

text \<open>
  C1: restarting is a refinement of doing nothing. At any point in the life of a job, whatever has
  been appended to the journal is enough: a new coordinator that replays it always succeeds, knows
  the job, and resumes it. Every task is there, in the state it had if it was finished and waiting
  to be queued otherwise; results, failures, transitions and the final report are the same, and so
  is the job, ready to be run unless it was finished.
\<close>

theorem restart_resumes:
  assumes "engine_env E H" "petgraph_laws (en_pg E)" "honest_outcomes W" "life E H W j s"
    and "recover E (new_coordinator E (sv_journal (rn_sv s)) w) = (c, r)"
  shows "\<exists>k h. r = Ok k \<and> find_handle j c = Ok h \<and> resumes (rn_handle s) h"
  using restart_run_inv [OF assms(1,2) life_inv [OF assms(1-4)] assms(5)]
  by (auto simp: new_coordinator_def payloads_def new_queue_def)

theorem restart_resumes_witness:
  "\<exists>s c k h. life demo_cluster (\<lambda>j rs. j = rs) cancel_world 0 s \<and> tg_nodes (jh_graph (rn_handle s)) \<noteq> [] \<and>
     recover demo_cluster (new_coordinator demo_cluster (sv_journal (rn_sv s)) 99) = (c, Ok k) \<and>
     find_handle 0 c = Ok h \<and> resumes (rn_handle s) h"
proof -
  obtain s s' where d: "life demo_cluster (\<lambda>j rs. j = rs) cancel_world 0 s" "tg_nodes (jh_graph (rn_handle s)) \<noteq> []"
    using demo_life by blast
  obtain c r where rec: "recover demo_cluster (new_coordinator demo_cluster (sv_journal (rn_sv s)) 99) = (c, r)" by fastforce
  from restart_resumes [OF demo_cluster_env _ cancel_world_honest d(1) rec] list_pg.petgraph_laws_axioms rec d
  show ?thesis by auto
qed



text \<open>
  C3: finished work survives. From any point in the life of a job, through any number of runs, crashes
  and restarts and whatever other jobs do meanwhile, results, failures and transitions are only ever
  appended to, and a task that was completed stays completed.
\<close>

theorem work_survives:
  assumes "engine_env E H" "petgraph_laws (en_pg E)" "honest_outcomes W" "life E H W j s"
    and "(life_step E H W j)\<^sup>*\<^sup>* s s'"
  shows "completed_in (jh_graph (rn_handle s)) \<subseteq> completed_in (jh_graph (rn_handle s')) \<and>
    prefix (jh_results (rn_handle s)) (jh_results (rn_handle s')) \<and>
    prefix (jh_failures (rn_handle s)) (jh_failures (rn_handle s')) \<and>
    prefix (jh_transitions (rn_handle s)) (jh_transitions (rn_handle s'))"
  using life_grows [OF assms(1-3) life_inv [OF assms(1-4)] assms(5)] by blast

theorem work_survives_witness:
  "\<exists>s s'. life demo_cluster (\<lambda>j rs. j = rs) cancel_world 0 s \<and> tg_nodes (jh_graph (rn_handle s)) \<noteq> [] \<and>
     life_step demo_cluster (\<lambda>j rs. j = rs) cancel_world 0 s s' \<and>
     prefix (jh_transitions (rn_handle s)) (jh_transitions (rn_handle s'))"
proof -
  obtain s s' where d: "life demo_cluster (\<lambda>j rs. j = rs) cancel_world 0 s" "tg_nodes (jh_graph (rn_handle s)) \<noteq> []"
    "life_step demo_cluster (\<lambda>j rs. j = rs) cancel_world 0 s s'"
    using demo_life by blast
  from work_survives [OF demo_cluster_env _ cancel_world_honest d(1)
      r_into_rtranclp [of "life_step demo_cluster (\<lambda>j rs. j = rs) cancel_world 0", OF d(3)]]
    list_pg.petgraph_laws_axioms d
  show ?thesis by auto
qed

text \<open>
  C15: jobs stay well formed. At every point in the life of a job its graph is well formed (indexed,
  with the edges its tasks declare, and acyclic), every task is stored under its own identifier and
  carries the job's, and the graph is the job's own.
\<close>

theorem jobs_well_formed:
  assumes "engine_env E H" "petgraph_laws (en_pg E)" "honest_outcomes W" "life E H W j s"
  shows "graph_inv (en_pg E) (jh_graph (rn_handle s)) \<and> j_id (jh_job (rn_handle s)) = j \<and>
    tg_job_id (jh_graph (rn_handle s)) = j \<and>
    (\<forall>i n. map_of (tg_nodes (jh_graph (rn_handle s))) i = Some n \<longrightarrow> tn_id n = i \<and> tn_job_id n = j)"
  using life_inv [OF assms] by (auto simp: run_inv_def owned_def Let_def dest: graph_invD(5))

theorem jobs_well_formed_witness:
  "\<exists>s. life demo_cluster (\<lambda>j rs. j = rs) cancel_world 0 s \<and> tg_nodes (jh_graph (rn_handle s)) \<noteq> [] \<and>
     graph_inv list_pg (jh_graph (rn_handle s)) \<and> j_id (jh_job (rn_handle s)) = 0"
proof -
  obtain s where d: "life demo_cluster (\<lambda>j rs. j = rs) cancel_world 0 s" "tg_nodes (jh_graph (rn_handle s)) \<noteq> []"
    using demo_life by blast
  from jobs_well_formed [OF demo_cluster_env _ cancel_world_honest d(1)] list_pg.petgraph_laws_axioms d
  show ?thesis by auto
qed

end
